(* ===== verification/Prelude.thy ===== *)
theory Prelude
  imports Main "HOL-Library.Word" "HOL-Library.List_Lexorder" "HOL-Library.AList"
begin

text \<open>
  The common ground of the development: JavaScript strings as lists of 16-bit code
  units with a literal embedding, the insertion-ordered \<open>Map\<close> the engine keeps its
  wallets and idempotency records in (an association list, with the interface it
  promises as the locale \<open>insertion_map\<close>), the contract that several operations keep
  one invariant (locale \<open>preserved\<close>), and generic lemmas on lists.
\<close>

named_theorems wf_intro \<open>introduction rules of the well-formedness invariants\<close>
named_theorems engine_simps \<open>what the engine's operations do to the fields of its state\<close>

section \<open>JavaScript strings\<close>

text \<open>
  A JavaScript string is a sequence of 16-bit code units; \<open>charCodeAt\<close> and the default
  \<open>sort\<close> see code units, so the model does too. The literal \<open>'abc'\<close> of the source is
  \<open>js ''abc''\<close>.
\<close>

type_synonym code_unit = "16 word"
type_synonym jstr = "code_unit list"

definition js :: "string \<Rightarrow> jstr" where
  "js s = map of_char s"

lemma unat_of_char [simp]: "unat (of_char c :: 16 word) = of_char c"
proof -
  have "(of_char c :: nat) < 256" by (rule nat_of_char_less_256)
  then have "(of_char c :: nat) < 2 ^ LENGTH(16)" by (rule less_trans) simp
  then have "unat (of_nat (of_char c) :: 16 word) = of_char c"
    by (simp only: unat_of_nat mod_less)
  then show ?thesis by (simp only: of_nat_of_char)
qed

lemma of_char_unit_eq [simp]: "(of_char c :: 16 word) = of_char d \<longleftrightarrow> c = d"
  by (metis char_of_char unat_of_char)

lemma js_eq [simp]: "js s = js t \<longleftrightarrow> s = t"
  by (simp add: js_def inj_map_eq_map inj_def)

lemma js_Nil [simp]: "js [] = []"
  and js_eq_Nil [simp]: "js s = [] \<longleftrightarrow> s = []"
  and Nil_eq_js [simp]: "[] = js s \<longleftrightarrow> s = []"
  and length_js [simp]: "length (js s) = length s"
  by (auto simp: js_def)

lemma js_append: "js (s @ t) = js s @ js t"
  by (simp add: js_def)

text \<open>A string that starts with a literal is not a literal that does not.\<close>

lemma js_append_eq_js:
  "js s @ x = js t \<longleftrightarrow> (\<exists>u. t = s @ u \<and> x = js u)"
  by (auto simp: js_def append_eq_map_conv map_eq_append_conv inj_map_eq_map inj_def)

text \<open>\<open>s.startsWith(p)\<close> with the rest, as \<open>replace(/^p/, '')\<close> uses it.\<close>

definition strip_prefix :: "jstr \<Rightarrow> jstr \<Rightarrow> jstr" where
  "strip_prefix p s = (if take (length p) s = p then drop (length p) s else s)"

lemma strip_prefix_append [simp]: "strip_prefix p (p @ s) = s"
  by (simp add: strip_prefix_def)

text \<open>\<open>parts.join(sep)\<close>.\<close>

fun join :: "jstr \<Rightarrow> jstr list \<Rightarrow> jstr" where
  "join sep [] = []"
| "join sep [x] = x"
| "join sep (x # y # ys) = x @ sep @ join sep (y # ys)"

text \<open>
  \<open>s.trim()\<close>: the white space and line terminators of ECMAScript, removed at both ends.
\<close>

definition is_space :: "code_unit \<Rightarrow> bool" where
  "is_space c \<longleftrightarrow> c \<in> {0x9, 0xA, 0xB, 0xC, 0xD, 0x20, 0xA0, 0x1680, 0x2028, 0x2029, 0x202F,
      0x205F, 0x3000, 0xFEFF} \<or> (0x2000 \<le> c \<and> c \<le> 0x200A)"

definition trim :: "jstr \<Rightarrow> jstr" where
  "trim s = rev (dropWhile is_space (rev (dropWhile is_space s)))"

text \<open>\<open>[\w]\<close>: letters, digits and the underscore.\<close>

definition is_digit :: "code_unit \<Rightarrow> bool" where
  "is_digit c \<longleftrightarrow> 0x30 \<le> c \<and> c \<le> 0x39"

definition is_word_char :: "code_unit \<Rightarrow> bool" where
  "is_word_char c \<longleftrightarrow> is_digit c \<or> (0x41 \<le> c \<and> c \<le> 0x5A) \<or> (0x61 \<le> c \<and> c \<le> 0x7A) \<or> c = 0x5F"

text \<open>\<open>padStart(n, '0')\<close> and \<open>padEnd(n, '0')\<close>.\<close>

definition pad_start :: "nat \<Rightarrow> jstr \<Rightarrow> jstr" where
  "pad_start n s = replicate (n - length s) 0x30 @ s"

definition pad_end :: "nat \<Rightarrow> jstr \<Rightarrow> jstr" where
  "pad_end n s = s @ replicate (n - length s) 0x30"

lemma length_pad_start [simp]: "length (pad_start n s) = max n (length s)"
  and length_pad_end [simp]: "length (pad_end n s) = max n (length s)"
  by (simp_all add: pad_start_def pad_end_def)

section \<open>Insertion-ordered maps\<close>

text \<open>
  A JavaScript \<open>Map\<close> iterates in the order its keys were first set; setting an old key
  keeps its place. The model is an association list with \<open>AList.update\<close>; the clients
  rely on the laws of this interface only.
\<close>

locale insertion_map =
  fixes empty :: 'm
    and get :: "'m \<Rightarrow> 'k \<Rightarrow> 'v option"
    and put :: "'k \<Rightarrow> 'v \<Rightarrow> 'm \<Rightarrow> 'm"
    and keys :: "'m \<Rightarrow> 'k list"
  assumes keys_empty: "keys empty = []"
    and get_keys: "get m k \<noteq> None \<longleftrightarrow> k \<in> set (keys m)"
    and get_put: "get (put k v m) k' = (if k' = k then Some v else get m k')"
    and keys_put: "keys (put k v m) = (if k \<in> set (keys m) then keys m else keys m @ [k])"
begin

lemma get_empty: "get empty k = None"
  using get_keys [of empty k] by (simp add: keys_empty)

lemma get_put_same: "get (put k v m) k = Some v"
  by (simp add: get_put)

lemma get_put_other: "k' \<noteq> k \<Longrightarrow> get (put k v m) k' = get m k'"
  by (simp add: get_put)

lemma get_None_iff: "get m k = None \<longleftrightarrow> k \<notin> set (keys m)"
  using get_keys [of m k] by blast

lemma distinct_put: "distinct (keys m) \<Longrightarrow> distinct (keys (put k v m))"
  by (simp add: keys_put)

lemma set_keys_put: "set (keys (put k v m)) = insert k (set (keys m))"
  by (auto simp: keys_put)

lemma get_some_key: "get m k = Some v \<Longrightarrow> k \<in> set (keys m)"
  using get_keys [of m k] by simp

lemma keys_put_old: "get m k = Some v' \<Longrightarrow> keys (put k v m) = keys m"
  by (simp add: keys_put get_some_key)

lemma keys_put_new: "get m k = None \<Longrightarrow> keys (put k v m) = keys m @ [k]"
  by (simp add: keys_put get_None_iff)

end

type_synonym ('k, 'v) jsmap = "('k \<times> 'v) list"

abbreviation map_get :: "('k, 'v) jsmap \<Rightarrow> 'k \<Rightarrow> 'v option" where
  "map_get m k \<equiv> map_of m k"

abbreviation map_set :: "'k \<Rightarrow> 'v \<Rightarrow> ('k, 'v) jsmap \<Rightarrow> ('k, 'v) jsmap" where
  "map_set k v m \<equiv> AList.update k v m"

abbreviation map_keys :: "('k, 'v) jsmap \<Rightarrow> 'k list" where
  "map_keys m \<equiv> map fst m"

interpretation jsmap: insertion_map "[] :: ('k, 'v) jsmap" map_get map_set map_keys
proof unfold_locales
  fix m :: "('k, 'v) jsmap" and k k' :: 'k and v :: 'v
  show "map_keys ([] :: ('k, 'v) jsmap) = []" by simp
  show "map_get m k \<noteq> None \<longleftrightarrow> k \<in> set (map_keys m)"
    by (simp add: map_of_eq_None_iff)
  show "map_get (map_set k v m) k' = (if k' = k then Some v else map_get m k')"
    by (simp add: update_conv')
  show "map_keys (map_set k v m) = (if k \<in> set (map_keys m) then map_keys m else map_keys m @ [k])"
    by (induction m) auto
qed

lemmas map_simps = jsmap.get_put jsmap.get_empty

text \<open>The values in insertion order change at the place of the key only.\<close>

lemma map_set_new: "map_get m k = None \<Longrightarrow> map_set k v m = m @ [(k, v)]"
  by (induction m) (auto split: if_splits)

lemma map_get_distinct:
  "distinct (map_keys m) \<Longrightarrow> (k, v) \<in> set m \<longleftrightarrow> map_get m k = Some v"
  by (auto dest: map_of_SomeD)

lemma sum_map_set:
  fixes f :: "'v \<Rightarrow> int"
  assumes "distinct (map_keys m)" and "map_get m k = Some v"
  shows "(\<Sum>p\<leftarrow>map_set k w m. f (snd p)) = (\<Sum>p\<leftarrow>m. f (snd p)) - f v + f w"
  using assms
proof (induction m)
  case (Cons p m)
  then show ?case by (cases p) (auto split: if_splits)
qed simp

section \<open>Operations that keep an invariant\<close>

text \<open>
  The contract several operations share: each keeps \<open>inv\<close>. A run of any sequence of
  them then keeps it.
\<close>

locale preserved =
  fixes step :: "'op \<Rightarrow> 's \<Rightarrow> 's"
    and inv :: "'s \<Rightarrow> bool"
  assumes step_inv: "inv s \<Longrightarrow> inv (step x s)"
begin

lemma run_inv: "inv s \<Longrightarrow> inv (fold step xs s)"
  by (induction xs arbitrary: s) (auto intro: step_inv)

end

section \<open>Lists\<close>

text \<open>\<open>[...new Set(xs)]\<close>: the first occurrence of every element, in order.\<close>

fun dedup :: "'a list \<Rightarrow> 'a list" where
  "dedup [] = []"
| "dedup (x # xs) = x # dedup (filter (\<lambda>y. y \<noteq> x) xs)"

lemma set_dedup [simp]: "set (dedup xs) = set xs"
proof (induction xs rule: dedup.induct)
  case (2 x xs)
  then show ?case by auto
qed simp

lemma distinct_dedup [simp]: "distinct (dedup xs)"
  by (induction xs rule: dedup.induct) auto

end
