(* ===== verification/Js_Number.thy ===== *)
theory Js_Number
  imports Prelude
begin

text \<open>
  JavaScript numbers, for the integer values the ledger keeps. A number is an IEEE double:
  an integer-valued one is an integer with at most 53 significant bits, and a sum or a
  product is the exact result rounded to 53 bits, ties to even (\<open>fl\<close>). Integers up to
  \<open>2 ^ 53\<close> are exact. The overflow of a double to infinity (beyond \<open>2 ^ 1024\<close>) is not
  modelled. The theory also holds the decimal text of a number (\<open>String(n)\<close>: the
  shortest digits that read back as the number) and the reading of a digit string
  (\<open>Number(s)\<close>). What a client may rely on is the locale \<open>js_arith\<close>.
\<close>

section \<open>Rounding to 53 bits\<close>

text \<open>How many low bits of \<open>x\<close> do not fit the 53 bits of a significand.\<close>

fun excess :: "nat \<Rightarrow> nat" where
  "excess x = (if x < 2 ^ 53 then 0 else Suc (excess (x div 2)))"

declare excess.simps [simp del]

text \<open>Rounding to a multiple of \<open>2 ^ e\<close>, ties to even.\<close>

definition round_even :: "nat \<Rightarrow> nat \<Rightarrow> nat" where
  "round_even x e =
     (if e = 0 then x
      else let q = x div 2 ^ e; r = x mod 2 ^ e; h = 2 ^ (e - 1)
           in (if r < h \<or> (r = h \<and> even q) then q else q + 1) * 2 ^ e)"

definition fl :: "int \<Rightarrow> int" where
  "fl x = sgn x * int (round_even (nat \<bar>x\<bar>) (excess (nat \<bar>x\<bar>)))"

definition js_add :: "int \<Rightarrow> int \<Rightarrow> int" where
  "js_add a b = fl (a + b)"

definition js_mul :: "int \<Rightarrow> int \<Rightarrow> int" where
  "js_mul a b = fl (a * b)"

lemma excess_small [simp]: "x < 2 ^ 53 \<Longrightarrow> excess x = 0"
  by (simp add: excess.simps)

lemma excess_limit: "excess (2 ^ 53) = 1"
  by (simp add: excess.simps)

lemma round_even_0 [simp]: "round_even x 0 = x"
  by (simp add: round_even_def)

lemma round_even_limit: "round_even (2 ^ 53) 1 = 2 ^ 53"
  by (simp add: round_even_def)

lemma fl_exact [simp]: "\<bar>x\<bar> \<le> 2 ^ 53 \<Longrightarrow> fl x = x"
proof (cases "\<bar>x\<bar> = 2 ^ 53")
  case True
  then have "nat \<bar>x\<bar> = 2 ^ 53" by simp
  then have "fl x = sgn x * \<bar>x\<bar>"
    unfolding fl_def using True by (simp only: excess_limit round_even_limit) simp
  then show ?thesis by (simp add: sgn_mult_abs)
next
  case False
  moreover assume "\<bar>x\<bar> \<le> 2 ^ 53"
  ultimately have "nat \<bar>x\<bar> < 2 ^ 53" by simp
  then show ?thesis by (simp add: fl_def sgn_if)
qed

lemma fl_nonneg: "0 \<le> x \<Longrightarrow> 0 \<le> fl x"
  by (simp add: fl_def sgn_if)

lemma fl_minus: "fl (- x) = - fl x"
  by (simp add: fl_def)

lemma excess_quotient: "2 ^ 53 \<le> x \<Longrightarrow> 2 ^ 52 \<le> x div 2 ^ excess x"
proof (induction x rule: excess.induct)
  case (1 x)
  show ?case
  proof (cases "x div 2 < 2 ^ 53")
    case True
    then have "excess x = 1" using 1(2) by (simp add: excess.simps [of x])
    then show ?thesis using 1(2) by simp
  next
    case False
    then have "2 ^ 52 \<le> x div 2 div 2 ^ excess (x div 2)"
      using 1 by simp
    moreover have "excess x = Suc (excess (x div 2))"
      using 1(2) by (simp add: excess.simps [of x])
    ultimately show ?thesis by (simp add: div_mult2_eq)
  qed
qed

lemma round_even_ge: "x div 2 ^ e * 2 ^ e \<le> round_even x e"
  by (cases "e = 0") (simp_all add: round_even_def Let_def)

lemma fl_ge_limit: "2 ^ 53 \<le> x \<Longrightarrow> 2 ^ 53 \<le> fl x"
proof -
  assume x: "2 ^ 53 \<le> x"
  define n where "n = nat x"
  have n: "2 ^ 53 \<le> n" using x by (simp add: n_def le_nat_iff)
  then have e: "0 < excess n" by (subst excess.simps) simp
  have "2 ^ 53 = 2 ^ 52 * (2::nat)" by simp
  also have "\<dots> \<le> (n div 2 ^ excess n) * 2 ^ excess n"
    using excess_quotient [OF n] e by (intro mult_le_mono) (auto simp: Suc_le_eq intro: self_le_power)
  also have "\<dots> \<le> round_even n (excess n)" by (rule round_even_ge)
  finally have "2 ^ 53 \<le> round_even n (excess n)" .
  then have "(2 ^ 53 :: int) \<le> int (round_even n (excess n))" by simp
  moreover have "nat \<bar>x\<bar> = n" "sgn x = 1" using x by (auto simp: n_def sgn_if)
  ultimately show ?thesis by (simp add: fl_def)
qed

lemma excess_le: "2 ^ 53 \<le> x \<Longrightarrow> 2 ^ excess x \<le> x"
proof -
  assume "2 ^ 53 \<le> x"
  then have "1 \<le> x div 2 ^ excess x" using excess_quotient by fastforce
  then have "1 * 2 ^ excess x \<le> x div 2 ^ excess x * 2 ^ excess x" by (intro mult_le_mono1)
  then show ?thesis using div_times_less_eq_dividend le_trans by fastforce
qed

lemma round_even_le: "round_even x e \<le> x + 2 ^ e"
proof -
  have "(x div 2 ^ e + 1) * 2 ^ e \<le> x + 2 ^ e"
    using div_times_less_eq_dividend [of x "2 ^ e"] by (simp add: add_mult_distrib)
  moreover have "x div 2 ^ e * 2 ^ e \<le> x + 2 ^ e"
    using div_times_less_eq_dividend [of x "2 ^ e"] by (rule trans_le_add1)
  ultimately show ?thesis by (cases "e = 0") (auto simp: round_even_def Let_def)
qed

lemma fl_le: "0 \<le> x \<Longrightarrow> fl x \<le> 2 * x"
proof (cases "x < 2 ^ 53")
  case False
  assume "0 \<le> x"
  then have n: "2 ^ 53 \<le> nat x" using False by simp
  have "round_even (nat x) (excess (nat x)) \<le> 2 * nat x"
    using add_left_mono [OF excess_le [OF n], of "nat x"]
    by (rule order_trans [OF round_even_le, THEN order_trans]) simp
  then show ?thesis using False by (simp add: fl_def sgn_if)
qed simp

section \<open>The arithmetic a client relies on\<close>

locale js_arith =
  fixes add :: "int \<Rightarrow> int \<Rightarrow> int"
    and limit :: int
  assumes limit_pos: "0 < limit"
    and add_exact: "\<bar>a + b\<bar> \<le> limit \<Longrightarrow> add a b = a + b"
    and add_nonneg: "0 \<le> a + b \<Longrightarrow> 0 \<le> add a b"
begin

text \<open>A withdrawal from a balance that covers it leaves no negative balance.\<close>

lemma debit_nonneg: "a \<le> b \<Longrightarrow> 0 \<le> add b (- a)"
  by (rule add_nonneg) simp

lemma credit_nonneg: "0 \<le> a \<Longrightarrow> 0 \<le> b \<Longrightarrow> 0 \<le> add b a"
  by (rule add_nonneg) simp

text \<open>A move between two balances whose sum is within the limit is exact on both sides.\<close>

lemma move_exact:
  assumes "0 \<le> x" and "0 \<le> y" and "0 \<le> a" and "a \<le> x" and "x + y \<le> limit"
  shows "add x (- a) = x - a" and "add y a = y + a"
  using assms by (auto intro!: add_exact [THEN trans])

lemma sum_exact:
  assumes "\<And>ys zs. xs = ys @ zs \<Longrightarrow> \<bar>sum_list ys\<bar> \<le> limit"
  shows "foldl add 0 xs = sum_list xs"
  using assms
proof (induction xs rule: rev_induct)
  case (snoc x xs)
  have IH: "foldl add 0 xs = sum_list xs"
    by (rule snoc.IH) (metis append_assoc snoc.prems)
  have "\<bar>sum_list xs + x\<bar> \<le> limit" using snoc.prems [of "xs @ [x]" "[]"] by simp
  then show ?case using IH by (simp add: add_exact)
qed simp

end

interpretation num: js_arith js_add "2 ^ 53"
  by unfold_locales (auto simp: js_add_def fl_nonneg)

text \<open>The limit is sharp: the first sum past it is rounded.\<close>

lemma js_add_past_limit: "js_add (2 ^ 53) 1 = 2 ^ 53"
  by (simp add: js_add_def fl_def excess.simps round_even_def)

section \<open>Decimal text\<close>

text \<open>The decimal digits of a natural number, most significant first.\<close>

definition digit :: "nat \<Rightarrow> code_unit" where
  "digit d = 0x30 + of_nat d"

fun dec :: "nat \<Rightarrow> jstr" where
  "dec n = (if n < 10 then [digit n] else dec (n div 10) @ [digit (n mod 10)])"

declare dec.simps [simp del]

text \<open>The value of a digit string.\<close>

definition digit_value :: "code_unit \<Rightarrow> nat" where
  "digit_value c = unat (c - 0x30)"

definition digits_value :: "jstr \<Rightarrow> nat" where
  "digits_value s = foldl (\<lambda>v c. v * 10 + digit_value c) 0 s"

text \<open>
  \<open>String(n)\<close> for an integer-valued number: among the decimals \<open>s * 10 ^ e\<close> that read
  back as \<open>n\<close>, one with the fewest digits in \<open>s\<close>, the closest to \<open>n\<close>. With \<open>d\<close> digits
  dropped, the candidates are the neighbours of \<open>n\<close> on the grid of \<open>10 ^ d\<close>.
\<close>

definition reads_as :: "nat \<Rightarrow> nat \<Rightarrow> bool" where
  "reads_as n c \<longleftrightarrow> fl (int c) = int n"

definition candidate :: "nat \<Rightarrow> nat \<Rightarrow> nat option" where
  "candidate n d =
     (let lo = n div 10 ^ d; hi = lo + 1; down = n - lo * 10 ^ d; up = hi * 10 ^ d - n
      in if reads_as n (lo * 10 ^ d) \<and> (\<not> reads_as n (hi * 10 ^ d) \<or> down \<le> up) \<and> 0 < lo then Some lo
         else if reads_as n (hi * 10 ^ d) then Some hi
         else None)"

text \<open>The search tries to drop as many digits as possible.\<close>

fun shortest :: "nat \<Rightarrow> nat \<Rightarrow> nat \<times> nat" where
  "shortest n 0 = (n, 0)"
| "shortest n (Suc d) =
     (case candidate n (Suc d) of Some s \<Rightarrow> (s, Suc d) | None \<Rightarrow> shortest n d)"

definition nat_text :: "nat \<Rightarrow> jstr" where
  "nat_text n =
     (let (s, e) = shortest n (length (dec n) - 1); ds = dec s; m = length ds + e
      in if m \<le> 21 then ds @ replicate e 0x30
         else let mantissa = rev (dropWhile (\<lambda>c. c = 0x30) (rev (tl ds)))
              in hd ds # (if mantissa = [] then [] else 0x2E # mantissa) @ js ''e+'' @ dec (m - 1))"

definition num_text :: "int \<Rightarrow> jstr" where
  "num_text n = (if n < 0 then 0x2D # nat_text (nat (- n)) else nat_text (nat n))"

text \<open>\<open>Number(s)\<close> of a non-empty digit string.\<close>

definition to_number :: "jstr \<Rightarrow> int" where
  "to_number s = fl (int (digits_value s))"

lemma digit_value_digit [simp]: "d < 10 \<Longrightarrow> digit_value (digit d) = d"
  by (simp add: digit_def digit_value_def unat_of_nat)

lemma digit_is_digit [simp]: "d < 10 \<Longrightarrow> is_digit (digit d)"
proof -
  assume "d < 10"
  then have "d \<in> set [0..<10]" by simp
  moreover have "\<forall>d \<in> set [0..<10]. is_digit (digit d)"
    by (simp add: upt_rec is_digit_def digit_def)
  ultimately show ?thesis by blast
qed

lemma digits_value_snoc [simp]: "digits_value (s @ [c]) = digits_value s * 10 + digit_value c"
  by (simp add: digits_value_def)

lemma digits_value_dec [simp]: "digits_value (dec n) = n"
proof (induction n rule: dec.induct)
  case (1 n)
  then show ?case
    by (cases "n < 10") (simp_all add: dec.simps [of n], simp add: digits_value_def)
qed

lemma dec_digits: "\<forall>c \<in> set (dec n). is_digit c"
proof (induction n rule: dec.induct)
  case (1 n)
  then show ?case by (cases "n < 10") (auto simp: dec.simps [of n])
qed

lemma dec_not_Nil [simp]: "dec n \<noteq> []"
  by (subst dec.simps) simp

lemma dec_inject [simp]: "dec m = dec n \<longleftrightarrow> m = n"
  by (metis digits_value_dec)

lemma dec_scale: "0 < s \<Longrightarrow> dec (s * 10 ^ e) = dec s @ replicate e 0x30"
proof (induction e)
  case (Suc e)
  have "dec (s * 10 ^ Suc e) = dec (s * 10 ^ e) @ [0x30]"
    using Suc.prems by (subst dec.simps) (simp add: digit_def mult.assoc)
  also have "\<dots> = dec s @ replicate (Suc e) 0x30"
    using Suc by (simp add: replicate_append_same)
  finally show ?case .
qed simp

lemma reads_as_exact: "n < 2 ^ 53 \<Longrightarrow> reads_as n c \<Longrightarrow> c = n"
proof (rule ccontr)
  assume n: "n < 2 ^ 53" and r: "reads_as n c" and c: "c \<noteq> n"
  show False
  proof (cases "c < 2 ^ 53")
    case True
    then have "fl (int c) = int c" by (intro fl_exact) simp
    with r c show False by (simp add: reads_as_def)
  next
    case False
    then have "2 ^ 53 \<le> fl (int c)" by (intro fl_ge_limit) simp
    with r n show False by (simp add: reads_as_def)
  qed
qed

lemma candidate_exact: "n < 2 ^ 53 \<Longrightarrow> candidate n d = Some s \<Longrightarrow> s * 10 ^ d = n \<and> 0 < s"
  using reads_as_exact [of n "s * 10 ^ d"]
  by (auto simp: candidate_def Let_def split: if_splits)

lemma shortest_exact: "n < 2 ^ 53 \<Longrightarrow> shortest n d = (s, e) \<Longrightarrow> s * 10 ^ e = n \<and> (0 < s \<or> e = 0)"
proof (induction d)
  case (Suc d)
  then show ?case
    using candidate_exact [OF Suc.prems(1)] by (cases "candidate n (Suc d)") auto
qed simp

lemma dec_length_le: "n < 10 ^ k \<Longrightarrow> 0 < k \<Longrightarrow> length (dec n) \<le> k"
proof (induction n arbitrary: k rule: dec.induct)
  case (1 n)
  show ?case
  proof (cases "n < 10")
    case True
    then show ?thesis using 1 by (simp add: dec.simps [of n])
  next
    case False
    with 1(2,3) obtain k' where k: "k = Suc k'" "0 < k'"
      by (cases k; cases "k - 1") auto
    with 1 False have "length (dec (n div 10)) \<le> k'"
      by (intro 1(1)) (auto simp: less_mult_imp_div_less mult.commute)
    with k False show ?thesis by (simp add: dec.simps [of n])
  qed
qed

text \<open>Below \<open>2 ^ 53\<close> the text is the exact decimal.\<close>

lemma nat_text_exact: "n < 2 ^ 53 \<Longrightarrow> nat_text n = dec n"
proof -
  assume n: "n < 2 ^ 53"
  obtain s e where se: "shortest n (length (dec n) - 1) = (s, e)" by fastforce
  with n have eq: "s * 10 ^ e = n" and pos: "0 < s \<or> e = 0" using shortest_exact by blast+
  have d: "dec n = dec s @ replicate e 0x30"
    using pos dec_scale [of s e] eq by (cases "e = 0") auto
  have "length (dec n) \<le> 16" using n by (intro dec_length_le) simp_all
  then have "length (dec s) + e \<le> 21" by (simp add: d)
  then have "nat_text n = dec s @ replicate e 0x30"
    unfolding nat_text_def se by (simp add: Let_def)
  then show ?thesis using d by simp
qed

lemma num_text_exact: "0 \<le> n \<Longrightarrow> n < 2 ^ 53 \<Longrightarrow> num_text n = dec (nat n)"
  by (simp add: num_text_def nat_text_exact)

lemma num_text_inject: "\<bar>m\<bar> < 2 ^ 53 \<Longrightarrow> \<bar>n\<bar> < 2 ^ 53 \<Longrightarrow> num_text m = num_text n \<longleftrightarrow> m = n"
proof -
  assume m: "\<bar>m\<bar> < 2 ^ 53" and n: "\<bar>n\<bar> < 2 ^ 53"
  have minus: "dec k \<noteq> 0x2D # t" for k t
    using dec_digits [of k] by (auto simp: is_digit_def)
  show ?thesis
    using m n minus minus [symmetric]
    by (cases "m < 0"; cases "n < 0") (auto simp: num_text_def nat_text_exact nat_eq_iff)
qed

lemma to_number_dec: "n \<le> 2 ^ 53 \<Longrightarrow> to_number (dec n) = int n"
  by (simp add: to_number_def)

end
