(* ===== verification/Js_Value.thy ===== *)
theory Js_Value
  imports Js_Number
begin

text \<open>
  JavaScript values as the engine sees them: what \<open>structuredClone\<close> or \<open>JSON.parse\<close>
  hands over as a request body. \<open>JNum\<close> holds an integer-valued number, \<open>JFrac\<close> a number
  with a fractional part by its text. The theory defines truthiness, \<open>===\<close>, property
  access, \<open>String(v)\<close> and \<open>JSON.stringify(v, keys)\<close>, and shows which parts of an object its
  canonical text leaves out: nested values under names that are not in the allow-list.
\<close>

datatype jsval =
    JUndef
  | JNull
  | JBool bool
  | JNum int
  | JFrac jstr
  | JStr jstr
  | JArr "jsval list"
  | JObj "(jstr \<times> jsval) list"

fun nullish :: "jsval \<Rightarrow> bool" where
  "nullish JUndef = True"
| "nullish JNull = True"
| "nullish _ = False"

fun truthy :: "jsval \<Rightarrow> bool" where
  "truthy JUndef = False"
| "truthy JNull = False"
| "truthy (JBool b) = b"
| "truthy (JNum n) = (n \<noteq> 0)"
| "truthy (JStr s) = (s \<noteq> [])"
| "truthy _ = True"

text \<open>The operator \<open>??\<close>.\<close>

definition coalesce :: "jsval \<Rightarrow> jsval \<Rightarrow> jsval" where
  "coalesce v d = (if nullish v then d else v)"

text \<open>
  \<open>===\<close>: objects and arrays are compared by reference, and two of them parsed from one
  body are never the same object.
\<close>

definition strict_eq :: "jsval \<Rightarrow> jsval \<Rightarrow> bool" where
  "strict_eq v w = (case v of JArr _ \<Rightarrow> False | JObj _ \<Rightarrow> False | _ \<Rightarrow> v = w)"

text \<open>\<open>v.k\<close> for the property names the code reads; \<open>v?.k\<close> is the same on nullish values.\<close>

fun get_field :: "jsval \<Rightarrow> jstr \<Rightarrow> jsval" where
  "get_field (JObj fs) k = (case map_of fs k of None \<Rightarrow> JUndef | Some v \<Rightarrow> v)"
| "get_field _ k = JUndef"

text \<open>\<open>Object.keys(v)\<close>: the indices of an array or a string, in the order of the source.\<close>

fun object_keys :: "jsval \<Rightarrow> jstr list" where
  "object_keys (JObj fs) = dedup (map fst fs)"
| "object_keys (JArr vs) = map dec [0..<length vs]"
| "object_keys (JStr s) = map dec [0..<length s]"
| "object_keys _ = []"

text \<open>\<open>String(v)\<close>.\<close>

fun js_string :: "jsval \<Rightarrow> jstr" where
  "js_string JUndef = js ''undefined''"
| "js_string JNull = js ''null''"
| "js_string (JBool b) = (if b then js ''true'' else js ''false'')"
| "js_string (JNum n) = num_text n"
| "js_string (JFrac t) = t"
| "js_string (JStr s) = s"
| "js_string (JArr vs) = join (js '','') (map (\<lambda>v. if nullish v then [] else js_string v) vs)"
| "js_string (JObj _) = js ''[object Object]''"

section \<open>JSON.stringify\<close>

definition hex_digit :: "nat \<Rightarrow> code_unit" where
  "hex_digit d = (if d < 10 then 0x30 + of_nat d else 0x57 + of_nat d)"

fun hex :: "nat \<Rightarrow> jstr" where
  "hex n = (if n < 16 then [hex_digit n] else hex (n div 16) @ [hex_digit (n mod 16)])"

declare hex.simps [simp del]

definition high_surrogate :: "code_unit \<Rightarrow> bool" where
  "high_surrogate c \<longleftrightarrow> 0xD800 \<le> c \<and> c \<le> 0xDBFF"

definition low_surrogate :: "code_unit \<Rightarrow> bool" where
  "low_surrogate c \<longleftrightarrow> 0xDC00 \<le> c \<and> c \<le> 0xDFFF"

definition escape_unit :: "code_unit \<Rightarrow> jstr" where
  "escape_unit c =
     (if c = 0x22 \<or> c = 0x5C then [0x5C, c]
      else if c = 0x8 then js [CHR 0x5C, CHR ''b'']
      else if c = 0x9 then js [CHR 0x5C, CHR ''t'']
      else if c = 0xA then js [CHR 0x5C, CHR ''n'']
      else if c = 0xC then js [CHR 0x5C, CHR ''f'']
      else if c = 0xD then js [CHR 0x5C, CHR ''r'']
      else if c < 0x20 \<or> high_surrogate c \<or> low_surrogate c
        then js [CHR 0x5C, CHR ''u''] @ pad_start 4 (hex (unat c))
      else [c])"

text \<open>A surrogate pair stays as it is; a lone surrogate is escaped.\<close>

fun escape_units :: "jstr \<Rightarrow> jstr" where
  "escape_units [] = []"
| "escape_units [c] = escape_unit c"
| "escape_units (c # d # cs) =
     (if high_surrogate c \<and> low_surrogate d then c # d # escape_units cs
      else escape_unit c @ escape_units (d # cs))"

definition quote :: "jstr \<Rightarrow> jstr" where
  "quote s = 0x22 # escape_units s @ [0x22]"

text \<open>
  \<open>JSON.stringify(v, allow)\<close> with an array of names: an object shows the properties named
  in the array, in the array's order, at every depth. \<open>None\<close> is \<open>undefined\<close>.
\<close>

definition member :: "jstr \<times> jstr \<Rightarrow> jstr" where
  "member p = quote (fst p) @ 0x3A # snd p"

definition pick :: "jstr list \<Rightarrow> (jstr \<times> jstr option) list \<Rightarrow> (jstr \<times> jstr) list" where
  "pick allow ts =
     List.map_filter (\<lambda>k. case map_of ts k of Some (Some t) \<Rightarrow> Some (k, t) | _ \<Rightarrow> None) allow"

fun stringify :: "jstr list \<Rightarrow> jsval \<Rightarrow> jstr option" where
  "stringify allow JUndef = None"
| "stringify allow JNull = Some (js ''null'')"
| "stringify allow (JBool b) = Some (if b then js ''true'' else js ''false'')"
| "stringify allow (JNum n) = Some (num_text n)"
| "stringify allow (JFrac t) = Some t"
| "stringify allow (JStr s) = Some (quote s)"
| "stringify allow (JArr vs) =
     Some (0x5B # join (js '','')
       (map (\<lambda>v. case stringify allow v of None \<Rightarrow> js ''null'' | Some t \<Rightarrow> t) vs) @ [0x5D])"
| "stringify allow (JObj fs) =
     Some (0x7B # join (js '','')
       (map member (pick allow (map (\<lambda>p. (fst p, stringify allow (snd p))) fs))) @ [0x7D])"

text \<open>\<open>JSON.stringify(body, Object.keys(body).sort())\<close> as a template literal shows it.\<close>

definition canonical :: "jsval \<Rightarrow> jstr" where
  "canonical body =
     (case stringify (sort (object_keys body)) body of None \<Rightarrow> js ''undefined'' | Some t \<Rightarrow> t)"

section \<open>What the canonical text does not show\<close>

text \<open>A nested object none of whose names is a top-level name is written as an empty one.\<close>

lemma pick_none: "\<forall>k \<in> set allow. k \<notin> fst ` set us \<Longrightarrow> pick allow (map (\<lambda>p. (fst p, f (snd p))) us) = []"
proof (induction allow)
  case (Cons k allow)
  then have "map_of (map (\<lambda>p. (fst p, f (snd p))) us) k = None"
    by (force simp: map_of_eq_None_iff)
  then show ?case using Cons by (simp add: pick_def map_filter_simps)
qed (simp add: pick_def map_filter_simps)

lemma stringify_hidden:
  "\<forall>k \<in> set allow. k \<notin> fst ` set us \<Longrightarrow> stringify allow (JObj us) = Some (js ''{}'')"
  by (simp add: pick_none del: map_map) (simp add: js_def)

lemma stringify_last:
  "stringify allow u = stringify allow v \<Longrightarrow>
   stringify allow (JObj (fs @ [(n, u)])) = stringify allow (JObj (fs @ [(n, v)]))"
  by simp

lemma canonical_hidden:
  assumes "\<forall>k \<in> insert n (fst ` set fs). k \<notin> fst ` set us"
  shows "canonical (JObj (fs @ [(n, JObj us)])) = canonical (JObj (fs @ [(n, JObj [])]))"
proof -
  have keys: "object_keys (JObj (fs @ [(n, v)])) = dedup (map fst fs @ [n])" for v by simp
  let ?allow = "sort (dedup (map fst fs @ [n]))"
  have "stringify ?allow (JObj us) = Some (js ''{}'')" using assms by (intro stringify_hidden) simp
  moreover have "stringify ?allow (JObj []) = Some (js ''{}'')" by (intro stringify_hidden) simp
  ultimately have "stringify ?allow (JObj us) = stringify ?allow (JObj [])" by (simp only:)
  then have "stringify ?allow (JObj (fs @ [(n, JObj us)])) = stringify ?allow (JObj (fs @ [(n, JObj [])]))"
    by (rule stringify_last)
  then show ?thesis unfolding canonical_def keys by (simp only:)
qed

text \<open>The text depends on the fields as a map only.\<close>

lemma map_of_map_snd: "map_of (map (\<lambda>p. (fst p, f (snd p))) fs) = map_option f \<circ> map_of fs"
  by (induction fs) auto

lemma dedup_distinct: "distinct xs \<Longrightarrow> dedup xs = xs"
proof (induction xs)
  case (Cons x xs)
  then have "filter (\<lambda>y. y \<noteq> x) xs = xs" by (auto simp: filter_id_conv)
  then show ?case using Cons by simp
qed simp


end
