(* ===== verification/Fingerprint.thy ===== *)
theory Fingerprint
  imports Js_Value
begin

unbundle bit_operations_syntax

text \<open>
  The engine's hash \<open>fnv\<close>: two 32-bit FNV-1a lanes with different multipliers, shown as 16
  hex digits and repeated twice. It fingerprints request bodies and chains ledger entries.
  The lemmas give its shape (32 hex digits, so a fingerprint of 16 digits loses nothing)
  and that changing one code unit of the input always changes the hash.
\<close>

type_synonym lanes = "32 word \<times> 32 word"

definition fnv_step :: "lanes \<Rightarrow> code_unit \<Rightarrow> lanes" where
  "fnv_step h c = ((fst h XOR ucast c) * 16777619, (snd h XOR ucast c) * 2246822519)"

definition hex8 :: "32 word \<Rightarrow> jstr" where
  "hex8 w = pad_start 8 (hex (unat w))"

definition fnv_lanes :: "jstr \<Rightarrow> lanes" where
  "fnv_lanes s = foldl fnv_step (0x811c9dc5, 0x01000193) s"

definition fnv :: "jstr \<Rightarrow> jstr" where
  "fnv s = concat (replicate 2 (hex8 (fst (fnv_lanes s)) @ hex8 (snd (fnv_lanes s))))"

section \<open>Hex text\<close>

lemma hex_length_le: "n < 16 ^ k \<Longrightarrow> 0 < k \<Longrightarrow> length (hex n) \<le> k"
proof (induction n arbitrary: k rule: hex.induct)
  case (1 n)
  show ?case
  proof (cases "n < 16")
    case True
    then show ?thesis using 1 by (simp add: hex.simps [of n])
  next
    case False
    with 1(2,3) obtain k' where k: "k = Suc k'" "0 < k'"
      by (cases k; cases "k - 1") auto
    with 1 False have "length (hex (n div 16)) \<le> k'"
      by (intro 1(1)) (auto simp: less_mult_imp_div_less mult.commute)
    with k False show ?thesis by (simp add: hex.simps [of n])
  qed
qed

text \<open>The digits read back: \<open>hex_value\<close> ignores leading zeros.\<close>

definition hex_digit_value :: "code_unit \<Rightarrow> nat" where
  "hex_digit_value c = (if c < 0x40 then unat (c - 0x30) else unat (c - 0x57))"

definition hex_value :: "jstr \<Rightarrow> nat" where
  "hex_value s = foldl (\<lambda>v c. v * 16 + hex_digit_value c) 0 s"

lemma hex_digit_value_digit [simp]: "d < 16 \<Longrightarrow> hex_digit_value (hex_digit d) = d"
proof -
  assume "d < 16"
  then have "d \<in> set [0..<16]" by simp
  moreover have "\<forall>d \<in> set [0..<16]. hex_digit_value (hex_digit d) = d"
    by (simp add: upt_rec hex_digit_value_def hex_digit_def)
  ultimately show ?thesis by blast
qed

lemma hex_value_snoc [simp]: "hex_value (s @ [c]) = hex_value s * 16 + hex_digit_value c"
  by (simp add: hex_value_def)

lemma hex_value_hex [simp]: "hex_value (hex n) = n"
proof (induction n rule: hex.induct)
  case (1 n)
  then show ?case
    by (cases "n < 16") (simp_all add: hex.simps [of n], simp add: hex_value_def)
qed

lemma hex_value_zeros [simp]: "hex_value (replicate k 0x30 @ s) = hex_value s"
  by (induction k) (simp_all add: hex_value_def hex_digit_value_def)

lemma hex_value_pad [simp]: "hex_value (pad_start k (hex n)) = n"
  by (simp add: pad_start_def)

lemma length_hex8 [simp]: "length (hex8 w) = 8"
proof -
  have "unat w < 16 ^ 8" using unsigned_less [of w, where ?'a = nat] by simp
  then have "length (hex (unat w)) \<le> 8" by (rule hex_length_le) simp
  then show ?thesis by (simp add: hex8_def)
qed

lemma hex8_inject [simp]: "hex8 v = hex8 w \<longleftrightarrow> v = w"
  by (metis hex8_def hex_value_pad word_eq_iff_unsigned)

section \<open>The hash\<close>

lemma length_fnv [simp]: "length (fnv s) = 32"
  by (simp add: fnv_def numeral_2_eq_2)

lemma fnv_eq_lanes: "fnv s = fnv t \<longleftrightarrow> fnv_lanes s = fnv_lanes t"
  by (auto simp: fnv_def numeral_2_eq_2 prod_eq_iff)

lemma take_fnv: "take 16 (fnv s) = hex8 (fst (fnv_lanes s)) @ hex8 (snd (fnv_lanes s))"
  by (simp add: fnv_def numeral_2_eq_2)

lemma fingerprint_eq_fnv: "take 16 (fnv s) = take 16 (fnv t) \<longleftrightarrow> fnv s = fnv t"
  by (simp add: take_fnv fnv_eq_lanes prod_eq_iff)

text \<open>Both multipliers are odd, so a step loses nothing of either lane.\<close>

lemma lane1_cancel: "x * 16777619 = y * 16777619 \<longleftrightarrow> x = (y :: 32 word)"
proof
  assume "x * 16777619 = y * 16777619"
  then have "x * (16777619 * 899433627) = y * (16777619 * 899433627)"
    by (simp only: mult.assoc [symmetric])
  moreover have "(16777619 * 899433627 :: 32 word) = 1" by simp
  ultimately show "x = y" by (simp only: mult_1_right)
qed simp

lemma xor_cancel: "x XOR c = y XOR c \<longleftrightarrow> x = (y :: 32 word)"
proof
  assume "x XOR c = y XOR c"
  then have "(x XOR c) XOR c = (y XOR c) XOR c" by simp
  then show "x = y" by (simp add: xor.assoc)
qed simp

lemma fnv_step_fst_inject: "fst (fnv_step h c) = fst (fnv_step h' c) \<longleftrightarrow> fst h = fst h'"
  by (simp add: fnv_step_def lane1_cancel xor_cancel)

lemma foldl_fnv_fst_inject:
  "fst (foldl fnv_step h s) = fst (foldl fnv_step h' s) \<longleftrightarrow> fst h = fst h'"
  by (induction s arbitrary: h h') (simp_all add: fnv_step_fst_inject)

lemma ucast_ucast_16: "ucast (ucast c :: 32 word) = (c :: 16 word)"
  by (rule bit_word_eqI) (simp add: bit_ucast_iff)

lemma fnv_step_unit_inject: "fst (fnv_step h c) = fst (fnv_step h d) \<longleftrightarrow> c = d"
proof -
  have "fst h XOR ucast c = fst h XOR ucast d \<longleftrightarrow> ucast c = (ucast d :: 32 word)"
    by (simp only: xor.commute [of "fst h"] xor_cancel)
  also have "\<dots> \<longleftrightarrow> c = d"
    by (metis ucast_ucast_16)
  finally show ?thesis by (simp add: fnv_step_def lane1_cancel)
qed

lemma fnv_one_unit: "fnv (xs @ c # ys) = fnv (xs @ d # ys) \<longleftrightarrow> c = d"
  using foldl_fnv_fst_inject fnv_step_unit_inject
  by (auto simp: fnv_eq_lanes fnv_lanes_def prod_eq_iff)

text \<open>The first lane alone, and texts that continue alike.\<close>

lemma fst_foldl_fnv: "fst (foldl fnv_step h s) = foldl (\<lambda>x c. (x XOR ucast c) * 16777619) (fst h) s"
  by (induction s arbitrary: h) (simp_all add: fnv_step_def)

lemma fnv_prefix: "fst (fnv_lanes s) \<noteq> fst (fnv_lanes t) \<Longrightarrow> fnv (s @ u) \<noteq> fnv (t @ u)"
  unfolding fnv_eq_lanes fnv_lanes_def foldl_append using foldl_fnv_fst_inject by metis

end
