(* ===== verification/Engine.thy ===== *)
theory Engine
  imports Fingerprint
begin

text \<open>
  The state of the in-browser ledger engine (class \<open>SimEngine\<close> of \<open>web/app.tsx\<close>): its
  wallets, transactions, ledger entries and idempotency records, the posting of one ledger
  entry (\<open>post\<close>), the commit of a transaction as a debit and a credit (\<open>commit\<close>) and the
  seeding of the engine. The engine draws identifiers from \<open>crypto.randomUUID\<close> and reads the
  clock; both are given by an environment, and the state counts how often it used them.
\<close>

section \<open>Data\<close>

datatype tx_kind = Deposit | Withdrawal | Transfer
datatype tx_status = Posted | Rejected
datatype direction = Debit | Credit

fun kind_text :: "tx_kind \<Rightarrow> jstr" where
  "kind_text Deposit = js ''deposit''"
| "kind_text Withdrawal = js ''withdrawal''"
| "kind_text Transfer = js ''transfer''"

fun direction_text :: "direction \<Rightarrow> jstr" where
  "direction_text Debit = js ''debit''"
| "direction_text Credit = js ''credit''"

text \<open>Time stamps are held as their instant in milliseconds since the epoch.\<close>

record wallet =
  w_id :: jstr
  w_owner :: jstr
  w_currency :: jsval
  w_balance :: int
  w_version :: int
  w_created_at :: int

record transaction =
  t_id :: jstr
  t_kind :: tx_kind
  t_status :: tx_status
  t_amount :: int
  t_currency :: jsval
  t_from_wallet_id :: jsval
  t_to_wallet_id :: jsval
  t_idempotency_key :: jstr
  t_reference :: jsval
  t_created_at :: int

record ledger_entry =
  e_id :: jstr
  e_seq :: int
  e_transaction_id :: jstr
  e_wallet_id :: jstr
  e_direction :: direction
  e_amount :: int
  e_balance_after :: int
  e_prev_hash :: jstr
  e_hash :: jstr
  e_created_at :: int

record reconciliation =
  rc_wallet_id :: jstr
  rc_cached_balance :: int
  rc_ledger_balance :: int
  rc_entry_count :: nat
  rc_balanced :: bool
  rc_chain_valid :: bool
  rc_checked_at :: int

record health =
  h_status :: jstr
  h_version :: jstr
  h_uptime_s :: int
  h_db_status :: jstr
  h_driver :: jstr
  h_latency_hundredths :: int
  h_pool_in_use :: int
  h_pool_max :: int
  h_capabilities :: "jstr list"

text \<open>The bodies a handler answers with (\<open>unknown\<close> in the source).\<close>

datatype res_body =
    ErrorBody jstr jstr
  | WalletBody wallet
  | WalletsBody "wallet list"
  | TxBody transaction
  | TxsBody "transaction list"
  | EntriesBody "ledger_entry list"
  | ReconBody reconciliation
  | HealthBody health

record res =
  r_status :: int
  r_headers :: "(jstr, jstr) jsmap"
  r_body :: res_body

record idem_record =
  i_fingerprint :: jstr
  i_response :: res

record engine =
  wallets :: "(jstr, wallet) jsmap"
  txs :: "transaction list"
  entries :: "ledger_entry list"
  idem :: "(jstr, idem_record) jsmap"
  booted_at :: int
  seq :: int
  last_hash :: jstr
  drawn :: nat
  ticks :: nat

text \<open>
  What the engine takes from outside: the results of \<open>crypto.randomUUID()\<close> in the order of
  the calls, the readings of the clock in milliseconds, the time a stopwatch that was started at
  one tick shows at another (in tenths of a millisecond, as the code rounds it), and the results
  of \<open>Math.random()\<close> as numerators over \<open>2 ^ 53\<close>.
\<close>

record env =
  uuid :: "nat \<Rightarrow> jstr"
  clock :: "nat \<Rightarrow> int"
  lap :: "nat \<Rightarrow> nat \<Rightarrow> int"
  random :: "nat \<Rightarrow> int"

definition SYSTEM_ACCOUNT :: jstr where
  "SYSTEM_ACCOUNT = js ''wal_external_settlement''"

text \<open>\<open>rid(p)\<close>: the prefix and the first 24 hex digits of a fresh UUID.\<close>

definition id_part :: "jstr \<Rightarrow> jstr" where
  "id_part u = take 24 (filter (\<lambda>c. c \<noteq> 0x2D) u)"

definition rid :: "env \<Rightarrow> jstr \<Rightarrow> nat \<Rightarrow> jstr" where
  "rid E p n = p @ js ''_'' @ id_part (uuid E n)"

definition err :: "int \<Rightarrow> jstr \<Rightarrow> jstr \<Rightarrow> res" where
  "err status code message =
     \<lparr>r_status = status, r_headers = [(js ''content-type'', js ''application/json'')],
      r_body = ErrorBody code message\<rparr>"

section \<open>Posting a ledger entry\<close>

definition entry_text :: "jstr \<Rightarrow> int \<Rightarrow> jstr \<Rightarrow> jstr \<Rightarrow> direction \<Rightarrow> int \<Rightarrow> int \<Rightarrow> jstr" where
  "entry_text prev n tx w d amount balance =
     join (js ''|'') [prev, num_text n, tx, w, direction_text d, num_text amount, num_text balance]"

definition new_entry ::
  "env \<Rightarrow> jstr \<Rightarrow> jstr \<Rightarrow> direction \<Rightarrow> int \<Rightarrow> int \<Rightarrow> engine \<Rightarrow> ledger_entry" where
  "new_entry E tx w d amount balance s =
     \<lparr>e_id = rid E (js ''ent'') (drawn s), e_seq = seq s + 1, e_transaction_id = tx,
      e_wallet_id = w, e_direction = d, e_amount = amount, e_balance_after = balance,
      e_prev_hash = last_hash s,
      e_hash = fnv (entry_text (last_hash s) (seq s + 1) tx w d amount balance),
      e_created_at = clock E (ticks s)\<rparr>"

definition post ::
  "env \<Rightarrow> jstr \<Rightarrow> jstr \<Rightarrow> direction \<Rightarrow> int \<Rightarrow> int \<Rightarrow> engine \<Rightarrow> engine" where
  "post E tx w d amount balance s =
     (let e = new_entry E tx w d amount balance s
      in s\<lparr>seq := seq s + 1, ticks := ticks s + 1, last_hash := e_hash e,
           entries := entries s @ [e], drawn := drawn s + 1\<rparr>)"

section \<open>Committing a transaction\<close>

fun signed :: "direction \<Rightarrow> int \<Rightarrow> int" where
  "signed Debit a = - a"
| "signed Credit a = a"

definition adjust :: "direction \<Rightarrow> int \<Rightarrow> wallet \<Rightarrow> wallet" where
  "adjust d amount w =
     w\<lparr>w_balance := js_add (w_balance w) (signed d amount), w_version := w_version w + 1\<rparr>"

text \<open>
  \<open>id ? this.wallets.get(id) : null\<close>: the wallets are keyed by strings, so any other value
  finds nothing.
\<close>

definition wallet_ref :: "engine \<Rightarrow> jsval \<Rightarrow> (jstr \<times> wallet) option" where
  "wallet_ref s v =
     (case v of
        JStr k \<Rightarrow> if k = [] then None else map_option (\<lambda>w. (k, w)) (map_get (wallets s) k)
      | _ \<Rightarrow> None)"

text \<open>
  One side of a transaction: the wallet's balance and version change and an entry with the new
  balance is posted; without a wallet the entry goes to the settlement account.
\<close>

definition leg :: "env \<Rightarrow> transaction \<Rightarrow> direction \<Rightarrow> jsval \<Rightarrow> engine \<Rightarrow> engine" where
  "leg E t d account s =
     (case wallet_ref s account of
        None \<Rightarrow> post E (t_id t) SYSTEM_ACCOUNT d (t_amount t) 0 s
      | Some (k, w) \<Rightarrow>
          let w' = adjust d (t_amount t) w
          in post E (t_id t) (w_id w') d (t_amount t) (w_balance w')
               (s\<lparr>wallets := map_set k w' (wallets s)\<rparr>))"

definition commit :: "env \<Rightarrow> transaction \<Rightarrow> engine \<Rightarrow> engine" where
  "commit E t s =
     (let s1 = leg E t Debit (t_from_wallet_id t) s;
          s2 = leg E t Credit (t_to_wallet_id t) s1
      in s2\<lparr>txs := txs s2 @ [t]\<rparr>)"

section \<open>Seeding\<close>

definition from_of :: "tx_kind \<Rightarrow> jsval \<Rightarrow> jsval" where
  "from_of k body =
     (case k of Transfer \<Rightarrow> get_field body (js ''from_wallet_id'')
      | Withdrawal \<Rightarrow> get_field body (js ''wallet_id'') | Deposit \<Rightarrow> JNull)"

definition to_of :: "tx_kind \<Rightarrow> jsval \<Rightarrow> jsval" where
  "to_of k body =
     (case k of Transfer \<Rightarrow> get_field body (js ''to_wallet_id'')
      | Deposit \<Rightarrow> get_field body (js ''wallet_id'') | Withdrawal \<Rightarrow> JNull)"

text \<open>The engine before its constructor runs: field initialisers only.\<close>

definition blank_engine :: "env \<Rightarrow> engine" where
  "blank_engine E =
     \<lparr>wallets = [], txs = [], entries = [], idem = [], booted_at = clock E 0, seq = 0,
      last_hash = replicate 64 0x30, drawn = 0, ticks = 1\<rparr>"

definition seed_wallet :: "env \<Rightarrow> jstr \<Rightarrow> int \<Rightarrow> engine \<Rightarrow> wallet" where
  "seed_wallet E owner ago s =
     \<lparr>w_id = rid E (js ''wal'') (drawn s), w_owner = owner, w_currency = JStr (js ''USD''),
      w_balance = 0, w_version = 0, w_created_at = clock E (ticks s) - ago\<rparr>"

definition mk_wallet :: "env \<Rightarrow> jstr \<Rightarrow> int \<Rightarrow> engine \<Rightarrow> jstr \<times> engine" where
  "mk_wallet E owner ago s =
     (let w = seed_wallet E owner ago s
      in (w_id w, s\<lparr>wallets := map_set (w_id w) w (wallets s), drawn := drawn s + 1,
                    ticks := ticks s + 1\<rparr>))"

text \<open>\<open>body.amount as number\<close>: the seed bodies hold a number there.\<close>

definition as_number :: "jsval \<Rightarrow> int" where
  "as_number v = (case v of JNum n \<Rightarrow> n | _ \<Rightarrow> 0)"

definition sync_tx :: "env \<Rightarrow> tx_kind \<Rightarrow> jsval \<Rightarrow> engine \<Rightarrow> transaction" where
  "sync_tx E k body s =
     \<lparr>t_id = rid E (js ''txn'') (drawn s), t_kind = k, t_status = Posted,
      t_amount = as_number (get_field body (js ''amount'')), t_currency = JStr (js ''USD''),
      t_from_wallet_id = from_of k body, t_to_wallet_id = to_of k body,
      t_idempotency_key = js ''seed_'' @ num_text (int (length (txs s))),
      t_reference = coalesce (get_field body (js ''reference'')) (JStr []),
      t_created_at = clock E (ticks s)\<rparr>"

definition apply_sync :: "env \<Rightarrow> tx_kind \<Rightarrow> jsval \<Rightarrow> engine \<Rightarrow> engine" where
  "apply_sync E k body s =
     commit E (sync_tx E k body s) (s\<lparr>drawn := drawn s + 1, ticks := ticks s + 1\<rparr>)"

definition on_wallet :: "jstr \<Rightarrow> int \<Rightarrow> jstr \<Rightarrow> jsval" where
  "on_wallet a amount ref =
     JObj [(js ''wallet_id'', JStr a), (js ''amount'', JNum amount), (js ''reference'', JStr ref)]"

definition between :: "jstr \<Rightarrow> jstr \<Rightarrow> int \<Rightarrow> jstr \<Rightarrow> jsval" where
  "between a b amount ref =
     JObj [(js ''from_wallet_id'', JStr a), (js ''to_wallet_id'', JStr b),
           (js ''amount'', JNum amount), (js ''reference'', JStr ref)]"

definition day :: int where
  "day = 86400000"

definition seed :: "env \<Rightarrow> engine" where
  "seed E =
     (let (a, s1) = mk_wallet E (js ''Northwind Treasury'') (day * 9) (blank_engine E);
          (b, s2) = mk_wallet E (js ''Halcyon Payroll'') (day * 6) s1;
          (c, s3) = mk_wallet E (js ''Meridian Escrow'') (day * 2) s2;
          s4 = apply_sync E Deposit (on_wallet a 250000000 (js ''Series B wire'')) s3;
          s5 = apply_sync E Deposit (on_wallet b 18000000 (js ''Opening float'')) s4;
          s6 = apply_sync E Transfer
                 (between a b 42000000 (js ''Payroll funding '' @ [0x2014] @ js '' Mar'')) s5;
          s7 = apply_sync E Deposit (on_wallet c 7500000 (js ''Escrow deposit #4471'')) s6;
          s8 = apply_sync E Withdrawal (on_wallet b 31245018 (js ''Payroll run 2025-03'')) s7
      in apply_sync E Transfer (between a c 1250000 (js ''Escrow top-up'')) s8)"

end
