(* ===== verification/Ledger.thy ===== *)
theory Ledger
  imports Engine
begin

text \<open>
  The books of the engine. The well-formedness of its state (\<open>wf_books\<close>) says that wallets are
  keyed by their ids, that every cached balance is the fold of the wallet's entries, that no
  balance is negative, that entries are numbered and hash-chained from the genesis hash, that
  they pair up as one debit and one credit per transaction, and that the value held is what
  came in less what went out. \<open>commit\<close> keeps all of it.
\<close>

section \<open>What the code recomputes\<close>

definition entry_signed :: "ledger_entry \<Rightarrow> int" where
  "entry_signed e = signed (e_direction e) (e_amount e)"

text \<open>The \<open>reduce\<close> of the reconciliation.\<close>

definition ledger_balance :: "ledger_entry list \<Rightarrow> int" where
  "ledger_balance es = foldl (\<lambda>s e. js_add s (entry_signed e)) 0 es"

definition wallet_entries :: "jstr \<Rightarrow> ledger_entry list \<Rightarrow> ledger_entry list" where
  "wallet_entries k es = filter (\<lambda>e. e_wallet_id e = k) es"

text \<open>The chain check of the reconciliation: each entry names its predecessor's hash.\<close>

definition chain_valid :: "ledger_entry list \<Rightarrow> bool" where
  "chain_valid es = list_all (\<lambda>i. e_prev_hash (es ! i) = e_hash (es ! (i - 1))) [1..<length es]"

section \<open>Well-formed books\<close>

definition keyed :: "engine \<Rightarrow> bool" where
  "keyed s \<longleftrightarrow> distinct (map_keys (wallets s)) \<and> SYSTEM_ACCOUNT \<notin> set (map_keys (wallets s)) \<and>
     [] \<notin> set (map_keys (wallets s)) \<and> (\<forall>k w. map_get (wallets s) k = Some w \<longrightarrow> w_id w = k)"

definition solvent :: "engine \<Rightarrow> bool" where
  "solvent s \<longleftrightarrow> (\<forall>k w. map_get (wallets s) k = Some w \<longrightarrow> 0 \<le> w_balance w)"

definition reconciled :: "engine \<Rightarrow> bool" where
  "reconciled s \<longleftrightarrow>
     (\<forall>k w. map_get (wallets s) k = Some w \<longrightarrow>
        w_balance w = ledger_balance (wallet_entries k (entries s)) \<and>
        w_version w = int (length (wallet_entries k (entries s))))"

definition accounted :: "engine \<Rightarrow> bool" where
  "accounted s \<longleftrightarrow>
     (\<forall>e \<in> set (entries s). 0 < e_amount e \<and>
        (e_wallet_id e = SYSTEM_ACCOUNT \<or> e_wallet_id e \<in> set (map_keys (wallets s))))"

text \<open>The column \<open>balance_after\<close> is the running balance of the entry's wallet.\<close>

definition running :: "ledger_entry list \<Rightarrow> bool" where
  "running es \<longleftrightarrow>
     (\<forall>i < length es. e_wallet_id (es ! i) \<noteq> SYSTEM_ACCOUNT \<longrightarrow>
        e_balance_after (es ! i) =
          ledger_balance (wallet_entries (e_wallet_id (es ! i)) (take (Suc i) es)))"

definition entry_hash :: "ledger_entry \<Rightarrow> jstr" where
  "entry_hash e =
     fnv (entry_text (e_prev_hash e) (e_seq e) (e_transaction_id e) (e_wallet_id e)
       (e_direction e) (e_amount e) (e_balance_after e))"

text \<open>The full chain: sequence numbers and hashes recomputed from the first entry.\<close>

fun chained :: "int \<Rightarrow> jstr \<Rightarrow> ledger_entry list \<Rightarrow> int \<Rightarrow> jstr \<Rightarrow> bool" where
  "chained n h [] n' h' = (n = n' \<and> h = h')"
| "chained n h (e # es) n' h' =
     (e_seq e = n + 1 \<and> e_prev_hash e = h \<and> e_hash e = entry_hash e \<and>
      chained (n + 1) (e_hash e) es n' h')"

definition genesis :: jstr where
  "genesis = replicate 64 0x30"

definition chain_wf :: "engine \<Rightarrow> bool" where
  "chain_wf s \<longleftrightarrow> chained 0 genesis (entries s) (seq s) (last_hash s)"

text \<open>Entries come in pairs: the debit and the credit of one transaction.\<close>

fun chunks :: "'a list \<Rightarrow> ('a \<times> 'a) list" where
  "chunks (x # y # zs) = (x, y) # chunks zs"
| "chunks _ = []"

definition account_text :: "jsval \<Rightarrow> jstr" where
  "account_text v = (case v of JStr k \<Rightarrow> if k = [] then SYSTEM_ACCOUNT else k | _ \<Rightarrow> SYSTEM_ACCOUNT)"

definition pair_of :: "transaction \<Rightarrow> ledger_entry \<times> ledger_entry \<Rightarrow> bool" where
  "pair_of t p \<longleftrightarrow>
     e_transaction_id (fst p) = t_id t \<and> e_transaction_id (snd p) = t_id t \<and>
     e_direction (fst p) = Debit \<and> e_direction (snd p) = Credit \<and>
     e_amount (fst p) = t_amount t \<and> e_amount (snd p) = t_amount t \<and>
     e_wallet_id (fst p) = account_text (t_from_wallet_id t) \<and>
     e_wallet_id (snd p) = account_text (t_to_wallet_id t)"

definition paired :: "engine \<Rightarrow> bool" where
  "paired s \<longleftrightarrow> length (entries s) = 2 * length (txs s) \<and>
     list_all2 pair_of (txs s) (chunks (entries s))"

text \<open>Value held, and what crossed the border of the system through the settlement account.\<close>

definition held :: "engine \<Rightarrow> int" where
  "held s = (\<Sum>p\<leftarrow>wallets s. w_balance (snd p))"

definition border :: "direction \<Rightarrow> ledger_entry list \<Rightarrow> int" where
  "border d es =
     (\<Sum>e\<leftarrow>filter (\<lambda>e. e_wallet_id e = SYSTEM_ACCOUNT \<and> e_direction e = d) es. e_amount e)"

abbreviation paid_in :: "engine \<Rightarrow> int" where
  "paid_in s \<equiv> border Debit (entries s)"

abbreviation paid_out :: "engine \<Rightarrow> int" where
  "paid_out s \<equiv> border Credit (entries s)"

definition conserved :: "engine \<Rightarrow> bool" where
  "conserved s \<longleftrightarrow> (paid_in s \<le> 2 ^ 53 \<longrightarrow> held s = paid_in s - paid_out s)"

definition wf_books :: "engine \<Rightarrow> bool" where
  "wf_books s \<longleftrightarrow> keyed s \<and> solvent s \<and> reconciled s \<and> accounted s \<and> running (entries s) \<and>
     chain_wf s \<and> paired s \<and> conserved s"

section \<open>The fields a posting and a leg change\<close>

lemma post_fields [engine_simps]:
  "wallets (post E tx w d a b s) = wallets s"
  "txs (post E tx w d a b s) = txs s"
  "entries (post E tx w d a b s) = entries s @ [new_entry E tx w d a b s]"
  "idem (post E tx w d a b s) = idem s"
  "booted_at (post E tx w d a b s) = booted_at s"
  "seq (post E tx w d a b s) = seq s + 1"
  "last_hash (post E tx w d a b s) = e_hash (new_entry E tx w d a b s)"
  "drawn (post E tx w d a b s) = drawn s + 1"
  "ticks (post E tx w d a b s) = ticks s + 1"
  by (simp_all add: post_def Let_def)

lemma new_entry_fields [simp]:
  "e_seq (new_entry E tx w d a b s) = seq s + 1"
  "e_transaction_id (new_entry E tx w d a b s) = tx"
  "e_wallet_id (new_entry E tx w d a b s) = w"
  "e_direction (new_entry E tx w d a b s) = d"
  "e_amount (new_entry E tx w d a b s) = a"
  "e_balance_after (new_entry E tx w d a b s) = b"
  "e_prev_hash (new_entry E tx w d a b s) = last_hash s"
  "e_hash (new_entry E tx w d a b s) = entry_hash (new_entry E tx w d a b s)"
  by (simp_all add: new_entry_def entry_hash_def)

lemma adjust_fields [simp]:
  "w_id (adjust d a w) = w_id w"
  "w_owner (adjust d a w) = w_owner w"
  "w_currency (adjust d a w) = w_currency w"
  "w_created_at (adjust d a w) = w_created_at w"
  "w_balance (adjust d a w) = js_add (w_balance w) (signed d a)"
  "w_version (adjust d a w) = w_version w + 1"
  by (simp_all add: adjust_def)

lemma wallet_ref_SomeD:
  "wallet_ref s v = Some (k, w) \<Longrightarrow> v = JStr k \<and> k \<noteq> [] \<and> map_get (wallets s) k = Some w"
  by (auto simp: wallet_ref_def split: jsval.splits if_splits)

lemma wallet_ref_wallets: "wallets s = wallets s' \<Longrightarrow> wallet_ref s = wallet_ref s'"
  by (rule ext) (simp add: wallet_ref_def split: jsval.split)

lemma leg_None [engine_simps]:
  "wallet_ref s v = None \<Longrightarrow> leg E t d v s = post E (t_id t) SYSTEM_ACCOUNT d (t_amount t) 0 s"
  by (simp add: leg_def)

lemma leg_Some [engine_simps]:
  "wallet_ref s v = Some (k, w) \<Longrightarrow>
   leg E t d v s = post E (t_id t) (w_id w) d (t_amount t) (w_balance (adjust d (t_amount t) w))
     (s\<lparr>wallets := map_set k (adjust d (t_amount t) w) (wallets s)\<rparr>)"
  by (simp add: leg_def Let_def)

lemma leg_counters [engine_simps]:
  "txs (leg E t d v s) = txs s"
  "idem (leg E t d v s) = idem s"
  "booted_at (leg E t d v s) = booted_at s"
  "seq (leg E t d v s) = seq s + 1"
  "drawn (leg E t d v s) = drawn s + 1"
  "ticks (leg E t d v s) = ticks s + 1"
  by (cases "wallet_ref s v"; auto simp: engine_simps)+

lemma leg_keys [engine_simps]: "map_keys (wallets (leg E t d v s)) = map_keys (wallets s)"
proof (cases "wallet_ref s v")
  case (Some p)
  then obtain k w where p: "wallet_ref s v = Some (k, w)" by (cases p) auto
  then have "map_get (wallets s) k = Some w" by (auto dest: wallet_ref_SomeD)
  then show ?thesis by (simp add: engine_simps p jsmap.keys_put_old)
qed (simp add: engine_simps)

lemma commit_fields [engine_simps]:
  "txs (commit E t s) = txs s @ [t]"
  "idem (commit E t s) = idem s"
  "booted_at (commit E t s) = booted_at s"
  "seq (commit E t s) = seq s + 2"
  "drawn (commit E t s) = drawn s + 2"
  "ticks (commit E t s) = ticks s + 2"
  "map_keys (wallets (commit E t s)) = map_keys (wallets s)"
  by (simp_all add: commit_def Let_def engine_simps)

section \<open>One leg keeps the books\<close>

lemma ledger_balance_snoc [simp]:
  "ledger_balance (es @ [e]) = js_add (ledger_balance es) (entry_signed e)"
  by (simp add: ledger_balance_def)

lemma ledger_balance_Nil [simp]: "ledger_balance [] = 0"
  by (simp add: ledger_balance_def)

lemma wallet_entries_snoc [simp]:
  "wallet_entries k (es @ [e]) = wallet_entries k es @ (if e_wallet_id e = k then [e] else [])"
  by (simp add: wallet_entries_def)

lemma entry_signed_new [simp]:
  "entry_signed (new_entry E tx w d a b s) = signed d a"
  by (simp add: entry_signed_def)

lemma keyedD:
  "keyed s \<Longrightarrow> map_get (wallets s) k = Some w \<Longrightarrow> k \<noteq> SYSTEM_ACCOUNT \<and> k \<noteq> [] \<and> w_id w = k"
  unfolding keyed_def using jsmap.get_some_key by metis

lemma wallet_refD:
  "keyed s \<Longrightarrow> wallet_ref s v = Some (k, w) \<Longrightarrow>
   map_get (wallets s) k = Some w \<and> k \<noteq> SYSTEM_ACCOUNT \<and> w_id w = k"
  using wallet_ref_SomeD keyedD by blast

text \<open>A leg on a wallet: what it does to the wallets and the entries.\<close>

lemma leg_on_wallet:
  assumes "keyed s" and ref: "wallet_ref s v = Some (k, w)"
  shows "wallets (leg E t d v s) = map_set k (adjust d (t_amount t) w) (wallets s)"
    and "entries (leg E t d v s) = entries s @
           [new_entry E (t_id t) k d (t_amount t) (w_balance (adjust d (t_amount t) w)) s]"
  using wallet_refD [OF assms] by (simp_all add: engine_simps ref new_entry_def)

lemma leg_keyed [wf_intro]: "keyed s \<Longrightarrow> keyed (leg E t d v s)"
proof (cases "wallet_ref s v")
  case (Some p)
  moreover assume k: "keyed s"
  ultimately obtain k w where "wallet_ref s v = Some (k, w)" by (cases p) auto
  note leg = leg_on_wallet [OF k this] and ref = wallet_refD [OF k this]
  have "map_get (map_set k (adjust d (t_amount t) w) (wallets s)) k' = Some w' \<Longrightarrow> w_id w' = k'" for k' w'
    using ref keyedD [OF \<open>keyed s\<close>, of k' w'] by (auto simp: jsmap.get_put split: if_splits)
  moreover have "map_keys (map_set k (adjust d (t_amount t) w) (wallets s)) = map_keys (wallets s)"
    using ref by (blast intro: jsmap.keys_put_old)
  ultimately show ?thesis
    using \<open>keyed s\<close> unfolding keyed_def leg(1) by simp
qed (simp add: engine_simps keyed_def)

lemma leg_reconciled [wf_intro]:
  assumes k: "keyed s" and r: "reconciled s"
  shows "reconciled (leg E t d v s)"
proof (cases "wallet_ref s v")
  case None
  then show ?thesis
    using r keyedD [OF k] unfolding reconciled_def by (auto simp only: engine_simps
      wallet_entries_snoc new_entry_fields append_Nil2 if_False split: if_splits)
next
  case (Some p)
  then obtain k' w where "wallet_ref s v = Some (k', w)" by (cases p) auto
  note leg = leg_on_wallet [OF k this] and ref = wallet_refD [OF k this]
  from r ref show ?thesis
    unfolding reconciled_def leg by (auto simp: jsmap.get_put split: if_splits)
qed

lemma leg_accounted [wf_intro]:
  assumes k: "keyed s" and a: "accounted s" and pos: "0 < t_amount t"
  shows "accounted (leg E t d v s)"
proof (cases "wallet_ref s v")
  case None
  then show ?thesis using a pos by (auto simp: engine_simps accounted_def)
next
  case (Some p)
  then obtain k' w where "wallet_ref s v = Some (k', w)" by (cases p) auto
  note leg = leg_on_wallet [OF k this] and ref = wallet_refD [OF k this]
  have "k' \<in> set (map_keys (wallets s))" using ref by (blast intro: jsmap.get_some_key)
  with a pos show ?thesis unfolding accounted_def leg_keys leg(2) by auto
qed

lemma running_snoc:
  "running (es @ [e]) \<longleftrightarrow> running es \<and>
     (e_wallet_id e \<noteq> SYSTEM_ACCOUNT \<longrightarrow>
        e_balance_after e = ledger_balance (wallet_entries (e_wallet_id e) (es @ [e])))"
  by (auto simp: running_def nth_append less_Suc_eq)

lemma leg_running [wf_intro]:
  assumes k: "keyed s" and r: "reconciled s" and run: "running (entries s)"
  shows "running (entries (leg E t d v s))"
proof (cases "wallet_ref s v")
  case None
  then show ?thesis using run by (simp add: engine_simps running_snoc)
next
  case (Some p)
  then obtain k' w where "wallet_ref s v = Some (k', w)" by (cases p) auto
  note leg = leg_on_wallet [OF k this] and ref = wallet_refD [OF k this]
  have "w_balance w = ledger_balance (wallet_entries k' (entries s))"
    using r ref by (simp add: reconciled_def)
  with run show ?thesis unfolding leg(2) by (simp add: running_snoc)
qed

lemma chained_snoc:
  "chained n h (es @ [e]) n' h' \<longleftrightarrow>
     (\<exists>m g. chained n h es m g \<and> e_seq e = m + 1 \<and> e_prev_hash e = g \<and> e_hash e = entry_hash e \<and>
        n' = m + 1 \<and> h' = e_hash e)"
  by (induction es arbitrary: n h) auto

lemma post_chain: "chain_wf s \<Longrightarrow> chain_wf (post E tx w d a b s)"
  by (auto simp: chain_wf_def engine_simps chained_snoc)

lemma leg_chain [wf_intro]: "chain_wf s \<Longrightarrow> chain_wf (leg E t d v s)"
proof (cases "wallet_ref s v")
  case (Some p)
  moreover assume "chain_wf s"
  moreover have "chain_wf (s\<lparr>wallets := m\<rparr>) = chain_wf s" for m by (simp add: chain_wf_def)
  ultimately show ?thesis by (cases p) (simp add: leg_Some post_chain)
qed (simp add: engine_simps post_chain)

text \<open>A debit that the balance covers and a credit of a positive amount leave no debt.\<close>

definition covered :: "engine \<Rightarrow> direction \<Rightarrow> jsval \<Rightarrow> int \<Rightarrow> bool" where
  "covered s d v a \<longleftrightarrow>
     (d = Debit \<longrightarrow> (\<forall>k w. wallet_ref s v = Some (k, w) \<longrightarrow> a \<le> w_balance w))"

lemma leg_solvent [wf_intro]:
  assumes k: "keyed s" and sol: "solvent s" and pos: "0 < t_amount t"
    and cov: "covered s d v (t_amount t)"
  shows "solvent (leg E t d v s)"
proof (cases "wallet_ref s v")
  case None
  then show ?thesis using sol by (simp add: engine_simps solvent_def)
next
  case (Some p)
  then obtain k' w where ref: "wallet_ref s v = Some (k', w)" by (cases p) auto
  note leg = leg_on_wallet [OF k ref]
  have "0 \<le> w_balance w" using sol wallet_refD [OF k ref] by (auto simp: solvent_def)
  then have "0 \<le> js_add (w_balance w) (signed d (t_amount t))"
    using cov ref pos
    by (cases d) (auto simp: covered_def intro: num.debit_nonneg num.credit_nonneg)
  with sol show ?thesis unfolding solvent_def leg(1) by (simp add: jsmap.get_put)
qed

section \<open>A commit keeps the books\<close>

text \<open>
  What the guards of \<open>money\<close> establish before they commit: a positive amount, a balance that
  covers it, and accounts that are absent or exist.
\<close>

definition resolved :: "engine \<Rightarrow> jsval \<Rightarrow> bool" where
  "resolved s v \<longleftrightarrow> (truthy v \<longrightarrow> wallet_ref s v \<noteq> None)"

definition valid_tx :: "engine \<Rightarrow> transaction \<Rightarrow> bool" where
  "valid_tx s t \<longleftrightarrow> 0 < t_amount t \<and> covered s Debit (t_from_wallet_id t) (t_amount t) \<and>
     resolved s (t_from_wallet_id t) \<and> resolved s (t_to_wallet_id t)"

lemma wallet_ref_None_iff:
  "wallet_ref s v = None \<longleftrightarrow> (\<forall>k. v = JStr k \<longrightarrow> k = [] \<or> k \<notin> set (map_keys (wallets s)))"
  by (auto simp: wallet_ref_def jsmap.get_None_iff split: jsval.split)

lemma wallet_ref_None_leg [engine_simps]:
  "wallet_ref (leg E t d u s) v = None \<longleftrightarrow> wallet_ref s v = None"
  by (simp only: wallet_ref_None_iff leg_keys)

lemma resolved_leg [engine_simps]: "resolved (leg E t d u s) v \<longleftrightarrow> resolved s v"
  by (simp add: resolved_def wallet_ref_None_leg)

lemma account_text_resolved:
  "resolved s v \<Longrightarrow>
   account_text v = (case wallet_ref s v of None \<Rightarrow> SYSTEM_ACCOUNT | Some (k, w) \<Rightarrow> k)"
  by (auto simp: resolved_def account_text_def wallet_ref_def split: jsval.splits option.splits)

lemma leg_entry:
  assumes "keyed s" and "resolved s v"
  obtains e where "entries (leg E t d v s) = entries s @ [e]"
    and "e_transaction_id e = t_id t" and "e_direction e = d" and "e_amount e = t_amount t"
    and "e_wallet_id e = account_text v"
proof (cases "wallet_ref s v")
  case None
  then show ?thesis using that assms(2) by (simp add: engine_simps account_text_resolved)
next
  case (Some p)
  then obtain k w where ref: "wallet_ref s v = Some (k, w)" by (cases p) auto
  then show ?thesis
    using that leg_on_wallet(2) [OF assms(1) ref] assms(2) by (simp add: account_text_resolved)
qed

text \<open>The two entries of a commit.\<close>

lemma commit_entries:
  assumes "keyed s" and "resolved s (t_from_wallet_id t)" and "resolved s (t_to_wallet_id t)"
  obtains d c where "entries (commit E t s) = entries s @ [d, c]" and "pair_of t (d, c)"
proof -
  let ?s1 = "leg E t Debit (t_from_wallet_id t) s"
  obtain d where d: "entries ?s1 = entries s @ [d]"
      "e_transaction_id d = t_id t" "e_direction d = Debit" "e_amount d = t_amount t"
      "e_wallet_id d = account_text (t_from_wallet_id t)"
    using leg_entry [OF assms(1,2)] by metis
  have "keyed ?s1" "resolved ?s1 (t_to_wallet_id t)"
    using assms by (auto intro: wf_intro simp: resolved_leg)
  then obtain c where "entries (leg E t Credit (t_to_wallet_id t) ?s1) = entries ?s1 @ [c]"
      "e_transaction_id c = t_id t" "e_direction c = Credit" "e_amount c = t_amount t"
      "e_wallet_id c = account_text (t_to_wallet_id t)"
    using leg_entry by metis
  with d show ?thesis
    by (intro that [of d c]) (simp_all add: commit_def Let_def pair_of_def)
qed

lemma chunks_snoc2: "even (length xs) \<Longrightarrow> chunks (xs @ [a, b]) = chunks xs @ [(a, b)]"
  by (induction xs rule: chunks.induct) auto

lemma commit_paired:
  assumes "keyed s" and "resolved s (t_from_wallet_id t)" and "resolved s (t_to_wallet_id t)"
    and p: "paired s"
  shows "paired (commit E t s)"
proof -
  obtain d c where "entries (commit E t s) = entries s @ [d, c]" "pair_of t (d, c)"
    using commit_entries [OF assms(1-3)] by metis
  with p show ?thesis
    by (auto simp: paired_def commit_fields chunks_snoc2 intro: list_all2_appendI)
qed

subsection \<open>Conservation\<close>

lemma border_snoc [simp]:
  "border d (es @ [e]) =
   border d es + (if e_wallet_id e = SYSTEM_ACCOUNT \<and> e_direction e = d then e_amount e else 0)"
  by (simp add: border_def)

lemma border_nonneg: "\<forall>e \<in> set es. 0 < e_amount e \<Longrightarrow> 0 \<le> border d es"
  by (induction es rule: rev_induct) (auto simp: border_def)

lemma leg_border:
  assumes "keyed s" and "resolved s v"
  shows "border d' (entries (leg E t d v s)) =
         border d' (entries s) + (if wallet_ref s v = None \<and> d = d' then t_amount t else 0)"
proof (cases "wallet_ref s v")
  case (Some p)
  then obtain k w where ref: "wallet_ref s v = Some (k, w)" by (cases p) auto
  show ?thesis
    using wallet_refD [OF assms(1) ref] unfolding leg_on_wallet(2) [OF assms(1) ref]
    by (simp add: ref)
qed (simp add: engine_simps)

lemma balance_le_held:
  assumes "keyed s" and sol: "solvent s" and w: "map_get (wallets s) k = Some w"
  shows "w_balance w \<le> held s"
proof -
  have "distinct (map_keys (wallets s))" using assms(1) by (simp add: keyed_def)
  then have "\<forall>p \<in> set (wallets s). 0 \<le> w_balance (snd p)"
    using sol by (auto simp: solvent_def)
  moreover have "(k, w) \<in> set (wallets s)" using w by (rule map_of_SomeD)
  ultimately have "w_balance (snd (k, w)) \<le> sum_list (map (\<lambda>p. w_balance (snd p)) (wallets s))"
    by (intro member_le_sum_list) force+
  then show ?thesis by (simp add: held_def)
qed

lemma leg_held:
  assumes "keyed s" and ref: "wallet_ref s v = Some (k, w)"
  shows "held (leg E t d v s) = held s - w_balance w + js_add (w_balance w) (signed d (t_amount t))"
proof -
  have "distinct (map_keys (wallets s))" using assms(1) by (simp add: keyed_def)
  then show ?thesis
    using sum_map_set [of "wallets s" k w w_balance] wallet_refD [OF assms]
    unfolding held_def leg_on_wallet(1) [OF assms] by simp
qed

text \<open>While the sums stay below \<open>2 ^ 53\<close>, a leg moves exactly the amount.\<close>

lemma debit_held:
  assumes "keyed s" and "solvent s" and "0 < t_amount t" and "covered s Debit v (t_amount t)"
    and "held s \<le> 2 ^ 53"
  shows "held (leg E t Debit v s) = held s - (if wallet_ref s v = None then 0 else t_amount t)"
proof (cases "wallet_ref s v")
  case (Some p)
  then obtain k w where ref: "wallet_ref s v = Some (k, w)" by (cases p) auto
  have "w_balance w \<le> held s" and "t_amount t \<le> w_balance w"
    using balance_le_held assms(1,2) wallet_refD [OF assms(1) ref] assms(4) ref
    by (blast, simp add: covered_def)
  then have "js_add (w_balance w) (- t_amount t) = w_balance w - t_amount t"
    using assms(3,5) by (intro num.move_exact(1) [of _ 0]) auto
  then show ?thesis using leg_held [OF assms(1) ref, of E t Debit] ref by simp
qed (simp add: engine_simps held_def)

lemma credit_held:
  assumes "keyed s" and "solvent s" and "0 < t_amount t" and "held s + t_amount t \<le> 2 ^ 53"
  shows "held (leg E t Credit v s) = held s + (if wallet_ref s v = None then 0 else t_amount t)"
proof (cases "wallet_ref s v")
  case (Some p)
  then obtain k w where ref: "wallet_ref s v = Some (k, w)" by (cases p) auto
  have w: "map_get (wallets s) k = Some w" using wallet_refD [OF assms(1) ref] by simp
  then have "w_balance w \<le> held s" and "0 \<le> w_balance w"
    using balance_le_held assms(1,2) by (blast, simp add: solvent_def)
  then have "js_add (w_balance w) (t_amount t) = w_balance w + t_amount t"
    using assms(3,4) by (intro num.add_exact) simp
  then show ?thesis using leg_held [OF assms(1) ref, of E t Credit] ref by simp
qed (simp add: engine_simps held_def)

lemma commit_unfold:
  "commit E t s =
     (leg E t Credit (t_to_wallet_id t) (leg E t Debit (t_from_wallet_id t) s))
       \<lparr>txs := txs s @ [t]\<rparr>"
  by (simp add: commit_def Let_def leg_counters)

lemma commit_books:
  "wallets (commit E t s) =
     wallets (leg E t Credit (t_to_wallet_id t) (leg E t Debit (t_from_wallet_id t) s))"
  "entries (commit E t s) =
     entries (leg E t Credit (t_to_wallet_id t) (leg E t Debit (t_from_wallet_id t) s))"
  "last_hash (commit E t s) =
     last_hash (leg E t Credit (t_to_wallet_id t) (leg E t Debit (t_from_wallet_id t) s))"
  "held (commit E t s) =
     held (leg E t Credit (t_to_wallet_id t) (leg E t Debit (t_from_wallet_id t) s))"
  by (simp_all add: commit_unfold held_def)

lemma covered_credit [simp]: "covered s Credit v a"
  by (simp add: covered_def)

lemma commit_conserved:
  assumes k: "keyed s" and sol: "solvent s" and acc: "accounted s" and c: "conserved s"
    and v: "valid_tx s t"
  shows "conserved (commit E t s)"
  unfolding conserved_def
proof
  let ?s1 = "leg E t Debit (t_from_wallet_id t) s"
  let ?a = "t_amount t"
  let ?in = "if wallet_ref s (t_from_wallet_id t) = None then ?a else 0"
  let ?out = "if wallet_ref s (t_to_wallet_id t) = None then ?a else 0"
  assume lim: "paid_in (commit E t s) \<le> 2 ^ 53"
  have res: "resolved s (t_from_wallet_id t)" "resolved s (t_to_wallet_id t)" and a: "0 < ?a"
    and cov: "covered s Debit (t_from_wallet_id t) ?a"
    using v by (auto simp: valid_tx_def)
  have k1: "keyed ?s1" and sol1: "solvent ?s1"
    using k sol a cov by (auto intro: wf_intro)
  have b1: "border d' (entries ?s1) = border d' (entries s) + (if d' = Debit then ?in else 0)" for d'
    using leg_border [OF k res(1)] by simp
  have b2: "border d' (entries (commit E t s)) =
      border d' (entries s) + (if d' = Debit then ?in else 0) + (if d' = Credit then ?out else 0)" for d'
    unfolding commit_books
    using leg_border [OF k1, of "t_to_wallet_id t" d' E t Credit] res(2)
    by (auto simp: b1 resolved_leg wallet_ref_None_leg)
  have lim0: "paid_in s + ?in \<le> 2 ^ 53" using lim by (simp only: b2) simp
  then have "paid_in s \<le> 2 ^ 53" using a by (auto split: if_splits)
  then have h: "held s = paid_in s - paid_out s" using c by (simp add: conserved_def)
  have out: "0 \<le> paid_out s" using acc by (intro border_nonneg) (simp add: accounted_def)
  have h1: "held ?s1 = held s - (?a - ?in)"
    using debit_held [OF k sol a cov] h out \<open>paid_in s \<le> 2 ^ 53\<close> by simp
  have "held ?s1 + ?a \<le> 2 ^ 53" using h1 h out lim0 by linarith
  then have "held (commit E t s) = held ?s1 + (?a - ?out)"
    unfolding commit_books using credit_held [OF k1 sol1 a] by (simp add: wallet_ref_None_leg)
  then show "held (commit E t s) = paid_in (commit E t s) - paid_out (commit E t s)"
    by (simp only: b2 h h1) simp
qed

theorem commit_wf [wf_intro]: "wf_books s \<Longrightarrow> valid_tx s t \<Longrightarrow> wf_books (commit E t s)"
proof -
  assume wf: "wf_books s" and v: "valid_tx s t"
  let ?s1 = "leg E t Debit (t_from_wallet_id t) s"
  let ?s2 = "leg E t Credit (t_to_wallet_id t) ?s1"
  have s: "keyed s" "solvent s" "reconciled s" "accounted s" "running (entries s)" "chain_wf s"
      "paired s" "conserved s"
    using wf by (simp_all add: wf_books_def)
  have t: "0 < t_amount t" "covered s Debit (t_from_wallet_id t) (t_amount t)"
      "resolved s (t_from_wallet_id t)" "resolved s (t_to_wallet_id t)"
    using v by (simp_all add: valid_tx_def)
  have "keyed ?s2" "solvent ?s2" "reconciled ?s2" "accounted ?s2" "running (entries ?s2)"
      "chain_wf ?s2"
    using s t by (auto intro!: wf_intro)
  then have "keyed (commit E t s)" "solvent (commit E t s)" "reconciled (commit E t s)"
      "accounted (commit E t s)" "running (entries (commit E t s))" "chain_wf (commit E t s)"
    by (simp_all add: commit_unfold keyed_def solvent_def reconciled_def accounted_def chain_wf_def)
  moreover have "paired (commit E t s)" using s t by (intro commit_paired)
  moreover have "conserved (commit E t s)" using s v by (intro commit_conserved)
  ultimately show ?thesis by (simp add: wf_books_def)
qed

section \<open>Consequences of well-formed books\<close>

lemma chained_links:
  "chained n h es n' h' \<Longrightarrow> i < length es \<Longrightarrow>
   e_prev_hash (es ! i) = (if i = 0 then h else e_hash (es ! (i - 1)))"
proof (induction es arbitrary: n h i)
  case (Cons e es)
  then show ?case by (cases i) (auto simp: nth_Cons' split: if_splits)
qed simp

lemma chained_seq: "chained n h es n' h' \<Longrightarrow> i < length es \<Longrightarrow> e_seq (es ! i) = n + 1 + int i"
proof (induction es arbitrary: n h i)
  case (Cons e es)
  then show ?case by (cases i) auto
qed simp

lemma chained_hash: "chained n h es n' h' \<Longrightarrow> e \<in> set es \<Longrightarrow> e_hash e = entry_hash e"
  by (induction es arbitrary: n h) auto

lemma chained_length: "chained n h es n' h' \<Longrightarrow> n' = n + int (length es)"
proof (induction es arbitrary: n h)
  case (Cons e es)
  from Cons.prems have "chained (n + 1) (e_hash e) es n' h'" unfolding chained.simps by blast
  from Cons.IH [OF this] show ?case by simp
qed simp

lemma chain_wf_valid: "chain_wf s \<Longrightarrow> chain_valid (entries s)"
  unfolding chain_wf_def chain_valid_def list_all_iff by (auto dest: chained_links)

text \<open>Every transaction's two entries cancel, so all entries together sum to zero.\<close>

lemma pairs_cancel:
  "list_all2 pair_of ts (chunks es) \<Longrightarrow> length es = 2 * length ts \<Longrightarrow>
   (\<Sum>e\<leftarrow>es. entry_signed e) = 0"
proof (induction es arbitrary: ts rule: chunks.induct)
  case (1 x y zs)
  then show ?case by (cases ts) (auto simp: pair_of_def entry_signed_def)
qed auto

end
