(* ===== verification/Money_Movement.thy ===== *)
theory Money_Movement
  imports Ledger
begin

text \<open>
  The handler behind \<open>POST /deposits\<close>, \<open>/withdrawals\<close> and \<open>/transfers\<close> (\<open>SimEngine.money\<close>),
  cut where the code suspends: \<open>validate\<close> runs before the locks are taken, \<open>crit_begin\<close> from
  the moment they are held up to the simulated row-lock delay, \<open>crit_end\<close> after it. A replay
  of a key, a reused key with another payload, unknown wallets, insufficient funds and the
  \<open>TypeError\<close> of a movement without any wallet are values of the model.
\<close>

section \<open>The handler\<close>

text \<open>What the critical section of a request works on.\<close>

record plan =
  p_kind :: tx_kind
  p_key :: jstr
  p_fingerprint :: jstr
  p_amount :: int
  p_from :: jsval
  p_to :: jsval
  p_reference :: jsval

text \<open>A handler returns a response or ends with an exception.\<close>

datatype outcome = Returned res | Threw

definition fingerprint :: "tx_kind \<Rightarrow> jsval \<Rightarrow> jstr" where
  "fingerprint k body = take 16 (fnv (kind_text k @ js ''|'' @ canonical body))"

definition validate :: "tx_kind \<Rightarrow> (jstr, jstr) jsmap \<Rightarrow> jsval \<Rightarrow> res + plan" where
  "validate k headers body =
     (case map_get headers (js ''idempotency-key'') of
        None \<Rightarrow> Inl (err 400 (js ''idempotency_key_required'')
                  (js ''Idempotency-Key header is required for money movement''))
      | Some key \<Rightarrow>
          if key = [] then
            Inl (err 400 (js ''idempotency_key_required'')
                  (js ''Idempotency-Key header is required for money movement''))
          else
            case get_field body (js ''amount'') of
              JNum amount \<Rightarrow>
                if amount \<le> 0 then
                  Inl (err 400 (js ''validation_failed'')
                        (js ''amount must be a positive integer in minor units''))
                else if k = Transfer \<and> strict_eq (from_of k body) (to_of k body) then
                  Inl (err 400 (js ''validation_failed'') (js ''cannot transfer to the same wallet''))
                else
                  Inr \<lparr>p_kind = k, p_key = key, p_fingerprint = fingerprint k body,
                       p_amount = amount, p_from = from_of k body, p_to = to_of k body,
                       p_reference = coalesce (get_field body (js ''reference'')) (JStr [])\<rparr>
            | _ \<Rightarrow> Inl (err 400 (js ''validation_failed'')
                        (js ''amount must be a positive integer in minor units'')))"

text \<open>\<open>this.wallets.get(v)\<close>.\<close>

definition get_wallet :: "engine \<Rightarrow> jsval \<Rightarrow> wallet option" where
  "get_wallet s v = (case v of JStr k \<Rightarrow> map_get (wallets s) k | _ \<Rightarrow> None)"

definition missing :: "engine \<Rightarrow> jsval \<Rightarrow> bool" where
  "missing s v \<longleftrightarrow> truthy v \<and> get_wallet s v = None"

definition replay :: "res \<Rightarrow> res" where
  "replay r = r\<lparr>r_headers := map_set (js ''idempotent-replayed'') (js ''true'') (r_headers r)\<rparr>"

definition key_reused :: "jstr \<Rightarrow> res" where
  "key_reused fp = err 422 (js ''idempotency_key_reused'')
     (js ''Idempotency-Key was first used with a different payload (fingerprint '' @ fp @
      js ''). Request rejected; no funds moved.'')"

text \<open>\<open>Some r\<close>: the request is answered at once; \<open>None\<close>: it goes on to the row-lock delay.\<close>

definition crit_begin :: "plan \<Rightarrow> engine \<Rightarrow> res option" where
  "crit_begin p s =
     (case map_get (idem s) (p_key p) of
        Some prior \<Rightarrow>
          Some (if i_fingerprint prior \<noteq> p_fingerprint p then key_reused (i_fingerprint prior)
                else replay (i_response prior))
      | None \<Rightarrow>
          if missing s (p_from p) \<or> missing s (p_to p)
          then Some (err 404 (js ''wallet_not_found'') (js ''one or more wallets do not exist''))
          else None)"

definition insufficient :: "wallet \<Rightarrow> int \<Rightarrow> res" where
  "insufficient w amount = err 422 (js ''insufficient_funds'')
     (js ''wallet '' @ w_id w @ js '' has '' @ num_text (w_balance w) @ js '' available, '' @
      num_text amount @ js '' requested'')"

definition made_tx :: "env \<Rightarrow> plan \<Rightarrow> wallet \<Rightarrow> engine \<Rightarrow> transaction" where
  "made_tx E p w s =
     \<lparr>t_id = rid E (js ''txn'') (drawn s), t_kind = p_kind p, t_status = Posted,
      t_amount = p_amount p, t_currency = w_currency w, t_from_wallet_id = p_from p,
      t_to_wallet_id = p_to p, t_idempotency_key = p_key p, t_reference = p_reference p,
      t_created_at = clock E (ticks s)\<rparr>"

definition accepted :: "plan \<Rightarrow> transaction \<Rightarrow> res" where
  "accepted p t =
     \<lparr>r_status = 201,
      r_headers = [(js ''content-type'', js ''application/json''),
                   (js ''idempotency-fingerprint'', p_fingerprint p)],
      r_body = TxBody t\<rparr>"

definition post_tx :: "env \<Rightarrow> plan \<Rightarrow> wallet \<Rightarrow> engine \<Rightarrow> engine \<times> res" where
  "post_tx E p w s =
     (let t = made_tx E p w s;
          s1 = commit E t (s\<lparr>drawn := drawn s + 1, ticks := ticks s + 1\<rparr>);
          r = accepted p t
      in (s1\<lparr>idem := map_set (p_key p) \<lparr>i_fingerprint = p_fingerprint p, i_response = r\<rparr> (idem s1)\<rparr>,
          r))"

text \<open>
  After the delay: the overdraft check and the commit. Without any wallet the currency of
  \<open>(from ?? to)\<close> is read from \<open>null\<close>, after the transaction's id was drawn.
\<close>

definition crit_end :: "env \<Rightarrow> plan \<Rightarrow> engine \<Rightarrow> engine \<times> outcome" where
  "crit_end E p s =
     (let from = (if truthy (p_from p) then get_wallet s (p_from p) else None);
          to = (if truthy (p_to p) then get_wallet s (p_to p) else None)
      in case from of
           Some w \<Rightarrow>
             if w_balance w < p_amount p then (s, Returned (insufficient w (p_amount p)))
             else map_prod id Returned (post_tx E p w s)
         | None \<Rightarrow>
             (case to of
                None \<Rightarrow> (s\<lparr>drawn := drawn s + 1\<rparr>, Threw)
              | Some w \<Rightarrow> map_prod id Returned (post_tx E p w s)))"

text \<open>The critical section and the whole handler, run without interruption.\<close>

definition critical :: "env \<Rightarrow> plan \<Rightarrow> engine \<Rightarrow> engine \<times> outcome" where
  "critical E p s =
     (case crit_begin p s of Some r \<Rightarrow> (s, Returned r) | None \<Rightarrow> crit_end E p s)"

definition money ::
  "env \<Rightarrow> tx_kind \<Rightarrow> (jstr, jstr) jsmap \<Rightarrow> jsval \<Rightarrow> engine \<Rightarrow> engine \<times> outcome" where
  "money E k headers body s =
     (case validate k headers body of Inl r \<Rightarrow> (s, Returned r) | Inr p \<Rightarrow> critical E p s)"

section \<open>What validation establishes\<close>

lemma validate_InrD:
  assumes "validate k headers body = Inr p"
  shows "p_kind p = k" and "0 < p_amount p" and "p_key p \<noteq> []"
    and "map_get headers (js ''idempotency-key'') = Some (p_key p)"
    and "p_fingerprint p = fingerprint k body"
    and "get_field body (js ''amount'') = JNum (p_amount p)"
    and "p_from p = from_of k body" and "p_to p = to_of k body"
  using assms by (auto simp: validate_def split: option.splits jsval.splits if_splits)

lemma get_wallet_ref: "keyed s \<Longrightarrow> truthy v \<Longrightarrow> wallet_ref s v = (case v of JStr k \<Rightarrow>
    map_option (\<lambda>w. (k, w)) (map_get (wallets s) k) | _ \<Rightarrow> None)"
  by (auto simp: wallet_ref_def split: jsval.split)

lemma get_wallet_eq_ref:
  "truthy v \<Longrightarrow> get_wallet s v = map_option snd (wallet_ref s v)"
  by (auto simp: get_wallet_def wallet_ref_def option.map_comp comp_def option.map_ident
      split: jsval.split)

lemma not_missing: "\<not> missing s v \<longleftrightarrow> resolved s v"
  by (auto simp: missing_def resolved_def get_wallet_eq_ref)

section \<open>The books after a movement\<close>

lemma wf_frame [simp]:
  "wf_books (s\<lparr>drawn := m\<rparr>) \<longleftrightarrow> wf_books s"
  "wf_books (s\<lparr>ticks := n\<rparr>) \<longleftrightarrow> wf_books s"
  "wf_books (s\<lparr>idem := i\<rparr>) \<longleftrightarrow> wf_books s"
  by (simp_all add: wf_books_def keyed_def solvent_def reconciled_def accounted_def chain_wf_def
      paired_def conserved_def held_def)

lemma wallet_ref_frame [simp]:
  "wallet_ref (s\<lparr>drawn := m\<rparr>) = wallet_ref s"
  "wallet_ref (s\<lparr>ticks := n\<rparr>) = wallet_ref s"
  "wallet_ref (s\<lparr>idem := i\<rparr>) = wallet_ref s"
  by (rule wallet_ref_wallets, simp)+

lemma valid_tx_frame [simp]:
  "valid_tx (s\<lparr>drawn := m, ticks := n\<rparr>) t \<longleftrightarrow> valid_tx s t"
  by (simp add: valid_tx_def covered_def resolved_def)

lemma made_tx_fields [simp]:
  "t_amount (made_tx E p w s) = p_amount p"
  "t_from_wallet_id (made_tx E p w s) = p_from p"
  "t_to_wallet_id (made_tx E p w s) = p_to p"
  "t_idempotency_key (made_tx E p w s) = p_key p"
  "t_kind (made_tx E p w s) = p_kind p"
  "t_id (made_tx E p w s) = rid E (js ''txn'') (drawn s)"
  by (simp_all add: made_tx_def)

lemma post_tx_fields [engine_simps]:
  "txs (fst (post_tx E p w s)) = txs s @ [made_tx E p w s]"
  "map_keys (wallets (fst (post_tx E p w s))) = map_keys (wallets s)"
  "idem (fst (post_tx E p w s)) =
     map_set (p_key p) \<lparr>i_fingerprint = p_fingerprint p, i_response = accepted p (made_tx E p w s)\<rparr>
       (idem s)"
  "drawn (fst (post_tx E p w s)) = drawn s + 3"
  "ticks (fst (post_tx E p w s)) = ticks s + 3"
  "booted_at (fst (post_tx E p w s)) = booted_at s"
  "snd (post_tx E p w s) = accepted p (made_tx E p w s)"
  by (simp_all add: post_tx_def Let_def commit_fields)

text \<open>The three ends of the critical section.\<close>

lemma crit_end_cases:
  obtains (rejected) w where "crit_end E p s = (s, Returned (insufficient w (p_amount p)))"
      "truthy (p_from p)" "get_wallet s (p_from p) = Some w" "w_balance w < p_amount p"
  | (posted) w where "crit_end E p s = (fst (post_tx E p w s), Returned (accepted p (made_tx E p w s)))"
      "covered s Debit (p_from p) (p_amount p)"
  | (threw) "crit_end E p s = (s\<lparr>drawn := drawn s + 1\<rparr>, Threw)"
      "truthy (p_from p) \<Longrightarrow> get_wallet s (p_from p) = None"
      "truthy (p_to p) \<Longrightarrow> get_wallet s (p_to p) = None"
proof (cases "if truthy (p_from p) then get_wallet s (p_from p) else None")
  case (Some w)
  then have "truthy (p_from p)" "get_wallet s (p_from p) = Some w" by (auto split: if_splits)
  then show ?thesis
    using rejected [of w] posted [of w]
    by (cases "w_balance w < p_amount p")
      (auto simp: crit_end_def map_prod_def post_tx_fields covered_def get_wallet_eq_ref split_beta)
next
  case None
  then have debtor: "wallet_ref s (p_from p) = None"
    by (auto simp: get_wallet_eq_ref wallet_ref_def split: if_splits jsval.splits)
  show ?thesis
    using None debtor threw posted
    by (cases "if truthy (p_to p) then get_wallet s (p_to p) else None")
      (auto simp: crit_end_def map_prod_def post_tx_fields covered_def split_beta split: if_splits)
qed

lemma post_tx_wf:
  assumes "wf_books s" and "valid_tx s (made_tx E p w s)"
  shows "wf_books (fst (post_tx E p w s))"
  using assms commit_wf [of "s\<lparr>drawn := drawn s + 1, ticks := ticks s + 1\<rparr>" "made_tx E p w s" E]
  by (simp add: post_tx_def Let_def)

lemma crit_end_wf [wf_intro]:
  assumes wf: "wf_books s" and pos: "0 < p_amount p"
    and res: "resolved s (p_from p)" "resolved s (p_to p)"
  shows "wf_books (fst (crit_end E p s))"
proof (cases rule: crit_end_cases [of E p s])
  case (posted w)
  then have "valid_tx s (made_tx E p w s)"
    using pos res by (simp add: valid_tx_def)
  then show ?thesis using posted wf post_tx_wf by simp
qed (use wf in simp_all)

lemma crit_begin_NoneD:
  "crit_begin p s = None \<Longrightarrow>
   map_get (idem s) (p_key p) = None \<and> resolved s (p_from p) \<and> resolved s (p_to p)"
  by (auto simp: crit_begin_def not_missing split: option.splits if_splits)

lemma critical_wf [wf_intro]: "wf_books s \<Longrightarrow> 0 < p_amount p \<Longrightarrow> wf_books (fst (critical E p s))"
  by (auto simp: critical_def split: option.split dest!: crit_begin_NoneD intro!: wf_intro)

lemma money_wf [wf_intro]: "wf_books s \<Longrightarrow> wf_books (fst (money E k headers body s))"
  by (auto simp: money_def split: sum.split dest: validate_InrD(2) intro!: wf_intro)

section \<open>Idempotency records\<close>

text \<open>
  After the first \<open>n\<close> transactions (the seed), there is one idempotency record per
  transaction, under its key and in the same order, and the record answers with it.
\<close>

definition answers :: "transaction \<Rightarrow> idem_record \<Rightarrow> bool" where
  "answers t r \<longleftrightarrow> r_status (i_response r) = 201 \<and> r_body (i_response r) = TxBody t \<and>
     map_get (r_headers (i_response r)) (js ''idempotency-fingerprint'') = Some (i_fingerprint r) \<and>
     map_get (r_headers (i_response r)) (js ''idempotent-replayed'') = None"

definition idem_wf :: "nat \<Rightarrow> engine \<Rightarrow> bool" where
  "idem_wf n s \<longleftrightarrow> n \<le> length (txs s) \<and> distinct (map_keys (idem s)) \<and>
     list_all2 (\<lambda>t p. t_idempotency_key t = fst p \<and> answers t (snd p)) (drop n (txs s)) (idem s)"

lemma answers_accepted [simp]: "answers t \<lparr>i_fingerprint = p_fingerprint p, i_response = accepted p t\<rparr>"
  by (simp add: answers_def accepted_def)

lemma idem_wf_frame [simp]:
  "idem_wf n (s\<lparr>drawn := m\<rparr>) \<longleftrightarrow> idem_wf n s"
  by (simp add: idem_wf_def)

lemma post_tx_idem:
  assumes i: "idem_wf n s" and new: "map_get (idem s) (p_key p) = None"
  shows "idem_wf n (fst (post_tx E p w s))"
  using i new
  by (auto simp: idem_wf_def post_tx_fields map_set_new jsmap.get_None_iff
      intro!: list_all2_appendI)

lemma crit_end_idem:
  assumes "idem_wf n s" and "map_get (idem s) (p_key p) = None"
  shows "idem_wf n (fst (crit_end E p s))"
proof (cases rule: crit_end_cases [of E p s])
  case (posted w)
  then show ?thesis using post_tx_idem [OF assms] by simp
qed (use assms in simp_all)

lemma money_idem: "idem_wf n s \<Longrightarrow> idem_wf n (fst (money E k headers body s))"
  by (auto simp: money_def critical_def split: sum.split option.split
      dest!: crit_begin_NoneD intro: crit_end_idem)

lemma idem_wf_keys:
  "idem_wf n s \<Longrightarrow> map t_idempotency_key (drop n (txs s)) = map_keys (idem s)"
  unfolding idem_wf_def list_all2_conv_all_nth by (intro nth_equalityI) auto

lemma idem_wf_answer:
  assumes "idem_wf n s" and "map_get (idem s) k = Some r"
  obtains t where "t \<in> set (drop n (txs s))" and "t_idempotency_key t = k" and "answers t r"
proof -
  have "(k, r) \<in> set (idem s)" using assms(2) by (rule map_of_SomeD)
  then obtain i where i: "i < length (idem s)" "idem s ! i = (k, r)" by (auto simp: in_set_conv_nth)
  then show ?thesis
    using assms(1) that [of "drop n (txs s) ! i"]
    by (auto simp: idem_wf_def list_all2_conv_all_nth simp del: nth_drop drop_drop)
qed

text \<open>A change of one code unit of the canonical text changes the fingerprint.\<close>

lemma one_unit_fingerprint:
  assumes "canonical b = xs @ c # ys" and "canonical b' = xs @ d # ys" and "c \<noteq> d"
  shows "fingerprint k b \<noteq> fingerprint k b'"
  using assms fnv_one_unit [of "kind_text k @ js ''|'' @ xs" c ys d]
  by (simp add: fingerprint_def fingerprint_eq_fnv)

end
