(* ===== verification/Balance_Spec.thy ===== *)
theory Balance_Spec
  imports Money_Movement
begin

text \<open>
  An abstract bank: what a client sees of the engine is the balance of every wallet, in the
  order of creation. \<open>balances\<close> abstracts the engine's state to it, and a commit of the engine
  is two moves of the abstract bank. The bank's arithmetic is a parameter: with \<open>js_add\<close> the
  refinement holds always, with exact addition while the value paid in stays below \<open>2 ^ 53\<close>.
\<close>

type_synonym bank = "(jstr, int) jsmap"

definition balances :: "engine \<Rightarrow> bank" where
  "balances s = map (\<lambda>p. (fst p, w_balance (snd p))) (wallets s)"

definition bank_account :: "bank \<Rightarrow> jsval \<Rightarrow> (jstr \<times> int) option" where
  "bank_account b v =
     (case v of
        JStr k \<Rightarrow> if k = [] then None else map_option (\<lambda>x. (k, x)) (map_get b k)
      | _ \<Rightarrow> None)"

definition bank_move ::
  "(int \<Rightarrow> int \<Rightarrow> int) \<Rightarrow> direction \<Rightarrow> jsval \<Rightarrow> int \<Rightarrow> bank \<Rightarrow> bank" where
  "bank_move add d v a b =
     (case bank_account b v of None \<Rightarrow> b | Some (k, x) \<Rightarrow> map_set k (add x (signed d a)) b)"

definition bank_transfer ::
  "(int \<Rightarrow> int \<Rightarrow> int) \<Rightarrow> jsval \<Rightarrow> jsval \<Rightarrow> int \<Rightarrow> bank \<Rightarrow> bank" where
  "bank_transfer add u v a b = bank_move add Credit v a (bank_move add Debit u a b)"

definition bank_total :: "bank \<Rightarrow> int" where
  "bank_total b = (\<Sum>p\<leftarrow>b. snd p)"

section \<open>The abstraction\<close>

lemma map_get_balances: "map_get (balances s) k = map_option w_balance (map_get (wallets s) k)"
proof -
  have "balances s = map (\<lambda>(k, w). (k, w_balance w)) (wallets s)"
    by (simp add: balances_def split_beta)
  then show ?thesis by (simp add: map_of_map)
qed

lemma balances_keys [simp]: "map_keys (balances s) = map_keys (wallets s)"
  by (simp add: balances_def)

lemma balances_set:
  "map (\<lambda>p. (fst p, w_balance (snd p))) (map_set k w m) =
   map_set k (w_balance w) (map (\<lambda>p. (fst p, w_balance (snd p))) m)"
  by (induction m) auto

lemma bank_account_balances:
  "bank_account (balances s) v = map_option (\<lambda>(k, w). (k, w_balance w)) (wallet_ref s v)"
  by (auto simp: bank_account_def wallet_ref_def map_get_balances option.map_comp comp_def
      split: jsval.split)

lemma bank_total_balances: "bank_total (balances s) = held s"
  by (simp add: bank_total_def balances_def held_def comp_def)

lemma balances_leg: "balances (leg E t d v s) = bank_move js_add d v (t_amount t) (balances s)"
proof (cases "wallet_ref s v")
  case None
  then show ?thesis
    by (simp add: engine_simps balances_def bank_move_def bank_account_balances [unfolded balances_def])
next
  case (Some p)
  then obtain k w where ref: "wallet_ref s v = Some (k, w)" by (cases p) auto
  then show ?thesis
    by (simp add: leg_Some engine_simps balances_def balances_set bank_move_def
        bank_account_balances [unfolded balances_def])
qed

text \<open>The commit of the engine is the transfer of the bank.\<close>

lemma balances_commit:
  "balances (commit E t s) =
   bank_transfer js_add (t_from_wallet_id t) (t_to_wallet_id t) (t_amount t) (balances s)"
proof -
  have "balances (commit E t s) =
      balances (leg E t Credit (t_to_wallet_id t) (leg E t Debit (t_from_wallet_id t) s))"
    by (simp add: balances_def commit_books)
  then show ?thesis by (simp add: balances_leg bank_transfer_def)
qed

definition bank_covers :: "bank \<Rightarrow> jsval \<Rightarrow> int \<Rightarrow> bool" where
  "bank_covers b v a \<longleftrightarrow> (case bank_account b v of None \<Rightarrow> True | Some (k, x) \<Rightarrow> a \<le> x)"

definition bank_knows :: "bank \<Rightarrow> jsval \<Rightarrow> bool" where
  "bank_knows b v \<longleftrightarrow> (truthy v \<longrightarrow> bank_account b v \<noteq> None)"

lemma valid_tx_balances:
  "valid_tx s t \<longleftrightarrow> 0 < t_amount t \<and> bank_covers (balances s) (t_from_wallet_id t) (t_amount t) \<and>
     bank_knows (balances s) (t_from_wallet_id t) \<and> bank_knows (balances s) (t_to_wallet_id t)"
  by (auto simp: valid_tx_def covered_def resolved_def bank_covers_def bank_knows_def
      bank_account_balances split: option.splits)

section \<open>Exactness below the limit\<close>

lemma bank_total_set:
  assumes "distinct (map_keys b)" and "map_get b k = Some x"
  shows "bank_total (map_set k y b) = bank_total b - x + y"
  using sum_map_set [OF assms, of "\<lambda>z. z" y] by (simp add: bank_total_def)

lemma bank_le_total:
  assumes "\<forall>p \<in> set b. 0 \<le> snd p" and "map_get b k = Some x"
  shows "x \<le> bank_total b"
proof -
  have "(k, x) \<in> set b" using assms(2) by (rule map_of_SomeD)
  then have "snd (k, x) \<le> sum_list (map snd b)"
    using assms(1) by (intro member_le_sum_list) force+
  then show ?thesis by (simp add: bank_total_def)
qed

lemma bank_account_SomeD: "bank_account b v = Some (k, x) \<Longrightarrow> map_get b k = Some x"
  by (auto simp: bank_account_def split: jsval.splits if_splits)

lemma bank_move_exact:
  assumes "\<forall>p \<in> set b. 0 \<le> snd p" and "0 < a"
    and "d = Debit \<Longrightarrow> bank_covers b v a" and "bank_total b + (if d = Credit then a else 0) \<le> 2 ^ 53"
  shows "bank_move js_add d v a b = bank_move (+) d v a b"
proof (cases "bank_account b v")
  case (Some p)
  then obtain k x where ref: "bank_account b v = Some (k, x)" by (cases p) auto
  then have x: "map_get b k = Some x" by (rule bank_account_SomeD)
  have "x \<le> bank_total b" using assms(1) x by (rule bank_le_total)
  moreover have "0 \<le> x" using assms(1) map_of_SomeD [OF x] by force
  ultimately have "\<bar>x + signed d a\<bar> \<le> 2 ^ 53"
    using assms(2-4) ref by (cases d) (auto simp: bank_covers_def)
  then have "js_add x (signed d a) = x + signed d a" by (rule num.add_exact)
  then show ?thesis by (simp add: bank_move_def ref)
qed (simp add: bank_move_def)

lemma bank_move_nonneg:
  assumes "\<forall>p \<in> set b. 0 \<le> snd p" and "0 < a" and "d = Debit \<Longrightarrow> bank_covers b v a"
    and dist: "distinct (map_keys b)"
  shows "\<forall>p \<in> set (bank_move (+) d v a b). 0 \<le> snd p"
proof (cases "bank_account b v")
  case (Some p)
  then obtain k x where ref: "bank_account b v = Some (k, x)" by (cases p) auto
  have "0 \<le> x" using assms(1) map_of_SomeD [OF bank_account_SomeD [OF ref]] by force
  then have "0 \<le> x + signed d a" using assms(2,3) ref by (cases d) (auto simp: bank_covers_def)
  moreover have "set (map_set k y b) \<subseteq> insert (k, y) (set b)" for y
    by (induction b) auto
  ultimately show ?thesis using assms(1) ref by (fastforce simp: bank_move_def)
qed (simp add: bank_move_def assms)

lemma bank_move_total:
  assumes "distinct (map_keys b)"
  shows "bank_total (bank_move (+) d v a b) =
         bank_total b + (if bank_account b v = None then 0 else signed d a)"
proof (cases "bank_account b v")
  case (Some p)
  then obtain k x where ref: "bank_account b v = Some (k, x)" by (cases p) auto
  then show ?thesis
    using bank_total_set [OF assms bank_account_SomeD [OF ref]] by (simp add: bank_move_def)
qed (simp add: bank_move_def)

lemma bank_move_keys: "map_keys (bank_move add d v a b) = map_keys b"
proof (cases "bank_account b v")
  case (Some p)
  then obtain k x where ref: "bank_account b v = Some (k, x)" by (cases p) auto
  show ?thesis
    using jsmap.keys_put_old [OF bank_account_SomeD [OF ref]] by (simp add: bank_move_def ref)
qed (simp add: bank_move_def)

text \<open>A transfer of the bank is exact while the total, with what it brings in, fits.\<close>

lemma bank_transfer_exact:
  assumes nn: "\<forall>p \<in> set b. 0 \<le> snd p" and dist: "distinct (map_keys b)" and a: "0 < a"
    and cov: "bank_covers b u a"
    and lim: "bank_total b + (if bank_account b u = None then a else 0) \<le> 2 ^ 53"
  shows "bank_transfer js_add u v a b = bank_transfer (+) u v a b"
proof -
  let ?b1 = "bank_move (+) Debit u a b"
  have "bank_total b \<le> 2 ^ 53" using lim a by (auto split: if_splits)
  then have 1: "bank_move js_add Debit u a b = ?b1"
    using nn a cov by (intro bank_move_exact) auto
  have "\<forall>p \<in> set ?b1. 0 \<le> snd p" using bank_move_nonneg nn a cov dist by blast
  moreover have "bank_total ?b1 + a \<le> 2 ^ 53"
    using lim by (simp only: bank_move_total [OF dist]) (auto split: if_splits)
  ultimately have "bank_move js_add Credit v a ?b1 = bank_move (+) Credit v a ?b1"
    using a by (intro bank_move_exact) auto
  then show ?thesis by (simp add: bank_transfer_def 1)
qed

lemma balances_nonneg: "keyed s \<Longrightarrow> solvent s \<Longrightarrow> \<forall>p \<in> set (balances s). 0 \<le> snd p"
  by (auto simp: balances_def solvent_def keyed_def)

lemma balances_commit_exact:
  assumes wf: "wf_books s" and v: "valid_tx s t" and lim: "paid_in (commit E t s) \<le> 2 ^ 53"
  shows "balances (commit E t s) =
         bank_transfer (+) (t_from_wallet_id t) (t_to_wallet_id t) (t_amount t) (balances s)"
proof -
  have s: "keyed s" "solvent s" "accounted s" "conserved s" using wf by (simp_all add: wf_books_def)
  have t: "0 < t_amount t" "bank_covers (balances s) (t_from_wallet_id t) (t_amount t)"
    using v by (simp_all add: valid_tx_balances)
  have r: "resolved s (t_from_wallet_id t)" "resolved s (t_to_wallet_id t)"
    using v by (simp_all add: valid_tx_def)
  let ?in = "if wallet_ref s (t_from_wallet_id t) = None then t_amount t else 0"
  have k1: "keyed (leg E t Debit (t_from_wallet_id t) s)" using s(1) by (rule leg_keyed)
  have in1: "paid_in (commit E t s) = paid_in s + ?in"
    using leg_border [OF s(1) r(1), of Debit E t Debit]
      leg_border [OF k1, of "t_to_wallet_id t" Debit E t Credit] r(2)
    by (simp add: commit_books resolved_leg)
  have "0 \<le> paid_out s" using s(3) by (intro border_nonneg) (simp add: accounted_def)
  moreover have "paid_in s \<le> 2 ^ 53" using lim in1 t(1) by (auto split: if_splits)
  then have "held s = paid_in s - paid_out s" using s(4) by (simp add: conserved_def)
  ultimately have "held s + ?in \<le> 2 ^ 53" using lim in1 by linarith
  then have "bank_total (balances s) +
      (if bank_account (balances s) (t_from_wallet_id t) = None then t_amount t else 0) \<le> 2 ^ 53"
    by (simp add: bank_total_balances bank_account_balances)
  then have "bank_transfer js_add (t_from_wallet_id t) (t_to_wallet_id t) (t_amount t) (balances s) =
      bank_transfer (+) (t_from_wallet_id t) (t_to_wallet_id t) (t_amount t) (balances s)"
    using s t by (intro bank_transfer_exact balances_nonneg) (simp_all add: keyed_def)
  then show ?thesis by (simp add: balances_commit)
qed

end
