(* ===== verification/Doubles.thy ===== *)
theory Doubles
  imports Js_Number
begin

text \<open>
  Doubles that are not whole: a significand of 53 bits over a power of two, rounded to even, with
  the sums, products and quotients of the program and their texts with one or two decimals
  (\<open>toFixed\<close> takes the exact value of the double). The facts: a whole number over 10 or 100 is
  shown exactly as long as it is below \<open>2 ^ 46\<close> times the divisor, and a share that is shown is
  the nearest tenth of a percent as long as the whole is at most \<open>2 ^ 40\<close>.
\<close>

section \<open>Division\<close>

text \<open>The quotient rounded to a whole number, ties to even.\<close>

definition quot_even :: "nat \<Rightarrow> nat \<Rightarrow> nat" where
  "quot_even a b =
     (let q = a div b; r = a mod b in if 2 * r < b \<or> 2 * r = b \<and> even q then q else q + 1)"

text \<open>How many bits after the point give the quotient 53 significant bits.\<close>

function frac_bits :: "nat \<Rightarrow> nat \<Rightarrow> nat" where
  "frac_bits a b = (if a = 0 \<or> b * 2 ^ 52 \<le> a then 0 else Suc (frac_bits (2 * a) b))"
  by auto
termination by (relation "measure (\<lambda>(a, b). b * 2 ^ 52 - a)") auto

declare frac_bits.simps [simp del]

text \<open>A double as a significand \<open>m\<close> and the bits \<open>k\<close> after the point: \<open>m / 2 ^ k\<close>.\<close>

type_synonym double = "nat \<times> nat"

definition js_div :: "nat \<Rightarrow> nat \<Rightarrow> double" where
  "js_div a b =
     (if b * 2 ^ 52 \<le> a then
        let e = excess (a div b) in (quot_even a (b * 2 ^ e) * 2 ^ e, 0)
      else let k = frac_bits a b in (quot_even (a * 2 ^ k) b, k))"

section \<open>Two decimals\<close>

text \<open>The hundredths nearest to the double, the larger ones when two are.\<close>

definition hundredths_of :: "double \<Rightarrow> nat" where
  "hundredths_of d = (case d of (m, k) \<Rightarrow> (200 * m + 2 ^ k) div 2 ^ Suc k)"

definition toFixed2 :: "double \<Rightarrow> jstr" where
  "toFixed2 d = (let n = hundredths_of d in dec (n div 100) @ 0x2E # pad_start 2 (dec (n mod 100)))"

section \<open>Exact decimals\<close>

lemma quot_even_bounds:
  assumes "0 < b"
  shows "2 * a \<le> 2 * b * quot_even a b + b" and "2 * b * quot_even a b \<le> 2 * a + b"
proof -
  define q where "q = a div b"
  define r where "r = a mod b"
  have "a = b * q + r" by (simp add: q_def r_def)
  then have a: "2 * a = 2 * b * q + 2 * r" by (simp add: distrib_left mult.assoc)
  have r: "r < b" using assms by (simp add: r_def)
  have q: "quot_even a b = (if 2 * r < b \<or> 2 * r = b \<and> even q then q else q + 1)"
    by (simp add: quot_even_def q_def r_def Let_def)
  have "2 * b * (q + 1) = 2 * b * q + 2 * b" by (simp add: distrib_left)
  then show "2 * a \<le> 2 * b * quot_even a b + b" and "2 * b * quot_even a b \<le> 2 * a + b"
    using a r unfolding q by (cases "2 * r < b \<or> 2 * r = b \<and> even q"; auto)+
qed

lemma frac_bits_many: "a \<noteq> 0 \<Longrightarrow> a * 2 ^ j < b * 2 ^ 52 \<Longrightarrow> j < frac_bits a b"
proof (induction a b arbitrary: j rule: frac_bits.induct)
  case (1 a b)
  have "a * 1 \<le> a * 2 ^ j" by (intro mult_le_mono2) simp
  then have small: "\<not> b * 2 ^ 52 \<le> a" using 1(3) by linarith
  then have s: "frac_bits a b = Suc (frac_bits (2 * a) b)" using 1(2) by (subst frac_bits.simps) simp
  show ?case
  proof (cases j)
    case (Suc i)
    then have "2 * a * 2 ^ i < b * 2 ^ 52" using 1(3) by (simp add: mult.commute mult.left_commute)
    then show ?thesis using 1(1) [of i] 1(2) small s Suc by simp
  qed (simp add: s)
qed

text \<open>A whole number over \<open>c\<close>, shown in steps of \<open>1 / c\<close>, is the number.\<close>

lemma steps_exact:
  assumes c: "0 < c" "c < 128" and n: "n < c * 2 ^ 46" and d: "js_div n c = (m, k)"
  shows "(2 * c * m + 2 ^ k) div 2 ^ Suc k = n"
proof (cases "n = 0")
  case True
  then show ?thesis using c(1) d by (simp add: js_div_def Let_def quot_even_def frac_bits.simps)
next
  case False
  have "n * 2 ^ 6 < c * 2 ^ 52" using n by simp
  then have "6 < frac_bits n c" using False by (intro frac_bits_many)
  moreover have "n * 1 \<le> n * 2 ^ 6" by (intro mult_le_mono2) simp
  then have "\<not> c * 2 ^ 52 \<le> n" using \<open>n * 2 ^ 6 < c * 2 ^ 52\<close> by linarith
  ultimately have mk: "m = quot_even (n * 2 ^ k) c" "6 < k" using d by (auto simp: js_div_def Let_def)
  then have "2 ^ 7 \<le> (2 ^ k :: nat)" by (intro power_increasing) simp_all
  then have p: "c < (2 ^ k :: nat)" using c(2) by simp
  have "2 * (n * 2 ^ k) \<le> 2 * c * m + c" "2 * c * m \<le> 2 * (n * 2 ^ k) + c"
    unfolding mk(1) by (rule quot_even_bounds [OF c(1)])+
  then have "n * 2 ^ Suc k \<le> 2 * c * m + 2 ^ k" "2 * c * m + 2 ^ k < Suc n * 2 ^ Suc k"
    using p by (simp_all add: algebra_simps)
  then show ?thesis by (intro div_nat_eqI) (simp_all add: mult.commute)
qed

lemma hundredths_exact: "n < 100 * 2 ^ 46 \<Longrightarrow> hundredths_of (js_div n 100) = n"
  using steps_exact [of 100 n] by (cases "js_div n 100") (simp add: hundredths_of_def)

section \<open>Whole part\<close>

text \<open>\<open>Math.floor\<close> of a double.\<close>

definition js_floor :: "double \<Rightarrow> nat" where
  "js_floor d = fst d div 2 ^ snd d"

text \<open>A quotient by 100 is not rounded up to the next whole number.\<close>

lemma floor_exact:
  assumes n: "n \<le> 2 ^ 53"
  shows "js_floor (js_div n 100) = n div 100"
proof (cases "n = 0")
  case True
  then show ?thesis by (simp add: js_floor_def js_div_def Let_def quot_even_def frac_bits.simps)
next
  case False
  have "n * 2 ^ 5 < 100 * 2 ^ 52" using n by simp
  then have k: "5 < frac_bits n 100" using False by (intro frac_bits_many)
  define m where "m = quot_even (n * 2 ^ frac_bits n 100) 100"
  define K :: nat where "K = 2 ^ frac_bits n 100"
  have d: "js_div n 100 = (m, frac_bits n 100)" using n by (simp add: js_div_def m_def Let_def)
  have "(2 :: nat) ^ 6 \<le> K" unfolding K_def using k by (intro power_increasing) simp_all
  then have K: "64 \<le> K" by simp
  have b: "2 * (n * K) \<le> 200 * m + 100" "200 * m \<le> 2 * (n * K) + 100"
    using quot_even_bounds [of 100 "n * K"] by (simp_all add: m_def K_def)
  define q where "q = n div 100"
  have q: "100 * q \<le> n" "n \<le> 100 * q + 99" by (simp_all add: q_def)
  define a where "a = q * K"
  have "100 * q * K \<le> n * K" "n * K \<le> (100 * q + 99) * K"
    by (intro mult_le_mono1 q)+
  then have "100 * a \<le> n * K" "n * K \<le> 100 * a + 99 * K" by (simp_all only: a_def add_mult_distrib mult.assoc)
  then have "a \<le> m" "m < a + K" using b K by linarith+
  then have "m div K = q" by (intro div_nat_eqI) (simp_all add: a_def mult.commute)
  then show ?thesis by (simp add: js_floor_def d K_def q_def)
qed

section \<open>Products and one decimal\<close>

text \<open>A whole number times a double, rounded to 53 bits; with 1 this is the rounding alone.\<close>

definition js_times :: "nat \<Rightarrow> double \<Rightarrow> double" where
  "js_times c d =
     (case d of (m, k) \<Rightarrow> let e = excess (c * m) in (quot_even (c * m) (2 ^ e) * 2 ^ e, k))"

definition tenths_of :: "double \<Rightarrow> nat" where
  "tenths_of d = (case d of (m, k) \<Rightarrow> (20 * m + 2 ^ k) div 2 ^ Suc k)"

definition toFixed1 :: "double \<Rightarrow> jstr" where
  "toFixed1 d = (let n = tenths_of d in dec (n div 10) @ 0x2E # dec (n mod 10))"

definition at_most :: "double \<Rightarrow> nat \<Rightarrow> bool" where
  "at_most d c \<longleftrightarrow> fst d \<le> c * 2 ^ snd d"

text \<open>Order, sum, difference, product and quotient of doubles; a difference is not below zero here.\<close>

definition not_after :: "double \<Rightarrow> double \<Rightarrow> bool" where
  "not_after d e \<longleftrightarrow> fst d * 2 ^ snd e \<le> fst e * 2 ^ snd d"

definition later :: "double \<Rightarrow> double \<Rightarrow> double" where
  "later d e = (if not_after d e then e else d)"

definition dbl_plus :: "double \<Rightarrow> double \<Rightarrow> double" where
  "dbl_plus d e = js_times 1 (fst d * 2 ^ snd e + fst e * 2 ^ snd d, snd d + snd e)"

definition dbl_minus :: "double \<Rightarrow> double \<Rightarrow> double" where
  "dbl_minus d e = js_times 1 (fst d * 2 ^ snd e - fst e * 2 ^ snd d, snd d + snd e)"

definition dbl_mult :: "double \<Rightarrow> double \<Rightarrow> double" where
  "dbl_mult d e = js_times (fst d) (fst e, snd d + snd e)"

definition dbl_quot :: "double \<Rightarrow> double \<Rightarrow> double" where
  "dbl_quot d e = js_div (fst d * 2 ^ snd e) (fst e * 2 ^ snd d)"

lemma not_after_refl [simp]: "not_after d d"
  by (simp add: not_after_def)

lemma not_after_total: "\<not> not_after d e \<Longrightarrow> not_after e d"
  by (simp add: not_after_def)

lemma not_after_trans:
  assumes "not_after d e" and "not_after e f"
  shows "not_after d f"
proof -
  let ?d = "(2 :: nat) ^ snd d" and ?e = "(2 :: nat) ^ snd e" and ?f = "(2 :: nat) ^ snd f"
  have "fst d * ?f * ?e = fst d * ?e * ?f" by (simp only: ac_simps)
  also have "\<dots> \<le> fst e * ?d * ?f" using assms(1) by (intro mult_le_mono1) (simp only: not_after_def)
  also have "\<dots> = fst e * ?f * ?d" by (simp only: ac_simps)
  also have "\<dots> \<le> fst f * ?e * ?d" using assms(2) by (intro mult_le_mono1) (simp only: not_after_def)
  also have "\<dots> = fst f * ?d * ?e" by (simp only: ac_simps)
  finally have "fst d * ?f \<le> fst f * ?d" unfolding mult_le_cancel2 by simp
  then show ?thesis by (simp add: not_after_def)
qed

lemma tenths_exact: "n < 10 * 2 ^ 46 \<Longrightarrow> tenths_of (js_div n 10) = n"
  using steps_exact [of 10 n] by (cases "js_div n 10") (simp add: tenths_of_def)

lemma quot_even_le: "0 < b \<Longrightarrow> a \<le> b * c \<Longrightarrow> quot_even a b \<le> c"
proof (rule ccontr)
  assume b: "0 < b" and a: "a \<le> b * c" and "\<not> quot_even a b \<le> c"
  then have "b * (c + 1) \<le> b * quot_even a b" by (intro mult_le_mono2) simp
  then have "2 * (b * c) + 2 * b \<le> 2 * b * quot_even a b" by (simp add: algebra_simps)
  also have "\<dots> \<le> 2 * a + b" by (rule quot_even_bounds(2) [OF b])
  finally show False using a b by linarith
qed

lemma excess_bound: "x < 2 ^ (53 + j) \<Longrightarrow> excess x \<le> j"
proof (induction j arbitrary: x)
  case (Suc j)
  then have "x < 2 ^ (53 + j) * 2" by (simp add: power_add)
  then have "x div 2 < 2 ^ (53 + j)" by (rule less_mult_imp_div_less)
  then show ?case using Suc.IH by (subst excess.simps) simp
qed simp

lemma js_div_le_1: "0 < b \<Longrightarrow> a \<le> b \<Longrightarrow> at_most (js_div a b) 1"
proof -
  assume b: "0 < b" and a: "a \<le> b"
  have "b * 1 < b * 2 ^ 52" using b by (intro mult_strict_left_mono) simp_all
  then have "\<not> b * 2 ^ 52 \<le> a" using a by linarith
  moreover have "quot_even (a * 2 ^ k) b \<le> 2 ^ k" for k using b a by (intro quot_even_le) simp_all
  ultimately show ?thesis by (simp add: js_div_def at_most_def Let_def)
qed

lemma dbl_quot_le: "0 < fst e \<Longrightarrow> not_after d e \<Longrightarrow> at_most (dbl_quot d e) 1"
  unfolding dbl_quot_def not_after_def by (intro js_div_le_1) simp_all

lemma js_times_le:
  assumes "at_most d b" and "c * b \<le> 2 ^ 52"
  shows "at_most (js_times c d) (c * b)"
proof -
  obtain m k where d: "d = (m, k)" by fastforce
  define e where "e = excess (c * m)"
  have m: "c * m \<le> c * b * 2 ^ k" using assms(1) by (simp add: at_most_def d)
  also have "\<dots> \<le> 2 ^ 52 * 2 ^ k" using assms(2) by (rule mult_le_mono1)
  also have "\<dots> < 2 ^ (53 + k)" by (simp add: power_add)
  finally have "e \<le> k" unfolding e_def by (rule excess_bound)
  then have k: "(2 :: nat) ^ k = 2 ^ e * 2 ^ (k - e)" by (simp flip: power_add)
  have "quot_even (c * m) (2 ^ e) \<le> c * b * 2 ^ (k - e)" using m k by (intro quot_even_le) (simp_all add: mult.left_commute)
  then have "quot_even (c * m) (2 ^ e) * 2 ^ e \<le> c * b * 2 ^ (k - e) * 2 ^ e" by (rule mult_le_mono1)
  then show ?thesis by (simp add: js_times_def at_most_def d k e_def [symmetric] Let_def mult.commute mult.left_commute)
qed

lemma tenths_le: "at_most d c \<Longrightarrow> tenths_of d \<le> 10 * c"
proof -
  assume "at_most d c"
  obtain m k where d: "d = (m, k)" by fastforce
  have "20 * m \<le> 20 * (c * 2 ^ k)" using \<open>at_most d c\<close> by (simp add: at_most_def d)
  then have "20 * m + 2 ^ k < 20 * (c * 2 ^ k) + 2 * 2 ^ k" by (intro add_le_less_mono) simp_all
  then have "20 * m + 2 ^ k < (10 * c + 1) * 2 ^ Suc k" by (simp add: add_mult_distrib mult.assoc)
  then have "(20 * m + 2 ^ k) div 2 ^ Suc k < 10 * c + 1" by (rule less_mult_imp_div_less)
  then show ?thesis by (simp add: tenths_of_def d)
qed

text \<open>The tenths of a percent of a share are the nearest ones to the exact share.\<close>

lemma product_close:
  fixes m P r :: nat
  defines "P \<equiv> 2 ^ excess (100 * m)"
  assumes "js_times 100 (m, k) = (r, k)" and "m \<le> 2 ^ k" and "52 \<le> k"
  shows "200 * m \<le> 2 * r + P" and "2 * r \<le> 200 * m + P" and "2 ^ 52 * P \<le> 100 * 2 ^ k"
proof -
  have r: "r = quot_even (100 * m) P * P" using assms(2) by (simp add: js_times_def P_def Let_def)
  have "0 < P" by (simp add: P_def)
  have "2 * (100 * m) \<le> 2 * P * quot_even (100 * m) P + P" "2 * P * quot_even (100 * m) P \<le> 2 * (100 * m) + P"
    by (rule quot_even_bounds [OF \<open>0 < P\<close>])+
  then show "200 * m \<le> 2 * r + P" "2 * r \<le> 200 * m + P" by (simp_all add: r mult.commute mult.left_commute)
  show "2 ^ 52 * P \<le> 100 * 2 ^ k"
  proof (cases "100 * m < 2 ^ 53")
    case True
    have "(2 :: nat) ^ 52 * P = 2 ^ 52" using True by (simp add: P_def)
    also have "\<dots> \<le> 2 ^ k" using assms(4) by (intro power_increasing) simp_all
    finally show ?thesis by simp
  next
    case False
    then have "2 ^ 52 \<le> 100 * m div P" unfolding P_def by (intro excess_quotient) simp
    then have "2 ^ 52 * P \<le> 100 * m" using \<open>0 < P\<close> by (simp only: less_eq_div_iff_mult_less_eq)
    then show ?thesis using assms(3) by linarith
  qed
qed

lemma share_nearest:
  assumes t: "0 < t" "t \<le> 2 ^ 40" and b: "b \<le> t"
  defines "n \<equiv> tenths_of (js_times 100 (js_div b t))"
  shows "2 * t * n \<le> 2000 * b + t" and "2000 * b \<le> 2 * t * n + t"
proof -
  define K :: nat where "K = 2 ^ frac_bits b t"
  define m where "m = quot_even (b * K) t"
  define P :: nat where "P = 2 ^ excess (100 * m)"
  obtain r where d: "js_times 100 (m, frac_bits b t) = (r, frac_bits b t)" by (simp add: js_times_def Let_def)
  have "t * 1 < t * 2 ^ 52" using t by (intro mult_strict_left_mono) simp_all
  then have "\<not> t * 2 ^ 52 \<le> b" using b by linarith
  then have div: "js_div b t = (m, frac_bits b t)" by (simp add: js_div_def m_def K_def Let_def)
  have n: "n = (20 * r + K) div (2 * K)" by (simp add: n_def div d tenths_of_def K_def)
  have "2 * t * n \<le> 2000 * b + t \<and> 2000 * b \<le> 2 * t * n + t"
  proof (cases "b = 0")
    case True
    then have "K = 1" "m = 0" using t(1) by (simp_all add: K_def m_def frac_bits.simps quot_even_def Let_def)
    moreover have "r = 0" using d \<open>m = 0\<close> by (simp add: js_times_def quot_even_def Let_def)
    ultimately show ?thesis using True n t by simp
  next
    case False
    have "b * 2 ^ 51 \<le> t * 2 ^ 51" using b by (rule mult_le_mono1)
    also have "\<dots> < t * 2 ^ 52" using t(1) by (intro mult_strict_left_mono) simp_all
    finally have "b * 2 ^ 51 < t * 2 ^ 52" .
    then have k: "52 \<le> frac_bits b t" using frac_bits_many [OF False, of 51 t] by simp
    have "(2 :: nat) ^ 52 \<le> K" unfolding K_def using k by (intro power_increasing) simp_all
    have mK: "m \<le> 2 ^ frac_bits b t" unfolding m_def using t b by (intro quot_even_le) (simp_all add: K_def)
    note close = product_close [OF d mK k, folded P_def K_def]
    have q: "2 * (b * K) \<le> 2 * t * m + t" "2 * t * m \<le> 2 * (b * K) + t"
      unfolding m_def by (rule quot_even_bounds [OF t(1)])+
    have f: "n * (2 * K) \<le> 20 * r + K" "20 * r + K < (n + 1) * (2 * K)"
      using div_times_less_eq_dividend [of "20 * r + K" "2 * K"] dividend_less_div_times [of "2 * K" "20 * r + K"]
      by (simp_all add: n K_def)
    have small: "1000 * t + 10 * (t * P) < K"
    proof -
      have "t * (2 ^ 52 * P) \<le> 2 ^ 40 * (100 * K)" using t(2) close(3) by (rule mult_le_mono)
      then have "1024 * (t * P) \<le> 25 * K" by (simp add: ac_simps)
      moreover have "1000 * t * 2 ^ 12 \<le> 1000 * K" using t(2) \<open>2 ^ 52 \<le> K\<close> by simp
      moreover have "0 < K" using \<open>2 ^ 52 \<le> K\<close> by simp
      ultimately show ?thesis by simp
    qed
    have "t * (n * (2 * K)) \<le> t * (20 * r + K)" "t * (20 * r + K) < t * ((n + 1) * (2 * K))"
      using f t(1) by simp_all
    moreover have "10 * t * (2 * r) \<le> 10 * t * (200 * m + P)" "10 * t * (200 * m) \<le> 10 * t * (2 * r + P)"
      using close by simp_all
    ultimately have "2 * t * n * K < (2000 * b + t + 1) * K" "2000 * b * K < (2 * t * n + t + 1) * K"
      using small q by (simp_all add: algebra_simps)
    then have "2 * t * n < 2000 * b + t + 1" "2000 * b < 2 * t * n + t + 1" unfolding mult_less_cancel2 by blast+
    then show ?thesis by simp
  qed
  then show "2 * t * n \<le> 2000 * b + t" and "2000 * b \<le> 2 * t * n + t" by simp_all
qed

end
