(* ===== verification/Routes.thy ===== *)
theory Routes
  imports Balance_Spec Doubles
begin

text \<open>
  The HTTP surface of the engine (\<open>SimEngine.handle\<close>): routing by method and path, the
  read-only answers, the creation of a wallet and the reconciliation. \<open>dispatch\<close> is what runs
  before a money request takes its locks; \<open>handle\<close> runs a request to its end without
  interruption. The lemmas show that every request keeps the books well-formed and what the
  creation of a wallet does.
\<close>

section \<open>Requests and answers\<close>

datatype http_method = GET | POST

record request =
  q_method :: http_method
  q_path :: jstr
  q_headers :: "(jstr, jstr) jsmap"
  q_body :: jsval

definition ok :: "res_body \<Rightarrow> int \<Rightarrow> (jstr, jstr) jsmap \<Rightarrow> res" where
  "ok b status extra =
     \<lparr>r_status = status,
      r_headers = fold (\<lambda>(k, v). map_set k v) extra [(js ''content-type'', js ''application/json'')],
      r_body = b\<rparr>"

text \<open>\<open>/^\/wallets\/([\w]+)suffix$/\<close>: the id, when the path has this form.\<close>

definition match_wallet :: "jstr \<Rightarrow> jstr \<Rightarrow> jstr option" where
  "match_wallet suffix p =
     (let rest = drop 9 p; i = takeWhile is_word_char rest
      in if take 9 p = js ''/wallets/'' \<and> i \<noteq> [] \<and> drop (length i) rest = suffix
         then Some i else None)"

definition kind_route :: "jstr \<Rightarrow> tx_kind option" where
  "kind_route p =
     map_of [(js ''/deposits'', Deposit), (js ''/withdrawals'', Withdrawal),
             (js ''/transfers'', Transfer)] p"

definition wallet_not_found :: "jstr \<Rightarrow> res" where
  "wallet_not_found i =
     err 404 (js ''wallet_not_found'') (js ''wallet '' @ i @ js '' does not exist'')"

definition method_text :: "http_method \<Rightarrow> jstr" where
  "method_text m = (case m of GET \<Rightarrow> js ''GET'' | POST \<Rightarrow> js ''POST'')"

text \<open>The literals 0.6 and 1.4 are the doubles with these significands.\<close>

definition health_of :: "env \<Rightarrow> engine \<Rightarrow> health" where
  "health_of E s =
     \<lparr>h_status = js ''ok'', h_version = js ''v1.4.2-sim'',
      h_uptime_s = (clock E (ticks s) - booted_at s + 500) div 1000,
      h_db_status = js ''up'', h_driver = js ''postgres 16 (simulated)'',
      h_latency_hundredths = int (hundredths_of (dbl_plus (5404319552844595, 53)
        (dbl_mult (nat (random E (2 * ticks s)), 53) (6305039478318694, 52)))),
      h_pool_in_use = (random E (2 * ticks s + 1) * 4) div 2 ^ 53 + 1,
      h_pool_max = 25,
      h_capabilities = [js ''double_entry'', js ''idempotency_keys'', js ''payload_fingerprinting'',
        js ''row_level_locking'', js ''overdraft_protection'', js ''hash_chained_entries'',
        js ''serializable_isolation'']\<rparr>"

definition create_wallet :: "env \<Rightarrow> jsval \<Rightarrow> engine \<Rightarrow> engine \<times> res" where
  "create_wallet E body s =
     (let owner = trim (js_string (coalesce (get_field body (js ''owner'')) (JStr [])))
      in if owner = [] then (s, err 400 (js ''validation_failed'') (js ''owner is required''))
         else
           let i = rid E (js ''wal'') (drawn s);
               w = \<lparr>w_id = i, w_owner = owner,
                    w_currency = coalesce (get_field body (js ''currency'')) (JStr (js ''USD'')),
                    w_balance = 0, w_version = 0, w_created_at = clock E (ticks s)\<rparr>
           in (s\<lparr>wallets := map_set i w (wallets s), drawn := drawn s + 1, ticks := ticks s + 1\<rparr>,
               ok (WalletBody w) 201 [(js ''location'', js ''/api/v1/wallets/'' @ i)]))"

definition reconcile :: "env \<Rightarrow> wallet \<Rightarrow> engine \<Rightarrow> reconciliation" where
  "reconcile E w s =
     (let es = wallet_entries (w_id w) (entries s); ledger = ledger_balance es
      in \<lparr>rc_wallet_id = w_id w, rc_cached_balance = w_balance w, rc_ledger_balance = ledger,
          rc_entry_count = length es, rc_balanced = (ledger = w_balance w),
          rc_chain_valid = chain_valid (entries s), rc_checked_at = clock E (ticks s)\<rparr>)"

definition touches :: "jstr \<Rightarrow> transaction \<Rightarrow> bool" where
  "touches i t \<longleftrightarrow> strict_eq (t_from_wallet_id t) (JStr i) \<or> strict_eq (t_to_wallet_id t) (JStr i)"

text \<open>\<open>Inl\<close>: answered without a lock; \<open>Inr\<close>: a money movement with its plan.\<close>

definition answer :: "engine \<Rightarrow> res \<Rightarrow> (engine \<times> outcome) + plan" where
  "answer s r = Inl (s, Returned r)"

definition reconcile_route :: "env \<Rightarrow> jstr \<Rightarrow> engine \<Rightarrow> (engine \<times> outcome) + plan" where
  "reconcile_route E i s =
     (case map_get (wallets s) i of
        None \<Rightarrow> answer s (wallet_not_found i)
      | Some w \<Rightarrow> answer (s\<lparr>ticks := ticks s + 1\<rparr>) (ok (ReconBody (reconcile E w s)) 200 []))"

datatype route =
    RHealth
  | RWallets
  | RCreate
  | RWallet jstr
  | RTransactions jstr
  | REntries jstr
  | RReconcile jstr
  | RMoney tx_kind
  | RNone

text \<open>The chain of tests of \<open>handle\<close>, in its order; only the first and last look at the method.\<close>

definition route_of :: "http_method \<Rightarrow> jstr \<Rightarrow> route" where
  "route_of m p =
     (if m = GET \<and> p = js ''/health'' then RHealth
      else if m = GET \<and> p = js ''/wallets'' then RWallets
      else if m = POST \<and> p = js ''/wallets'' then RCreate
      else
        case if m = GET then match_wallet [] p else None of Some i \<Rightarrow> RWallet i
        | None \<Rightarrow> (case match_wallet (js ''/transactions'') p of Some i \<Rightarrow> RTransactions i
        | None \<Rightarrow> (case match_wallet (js ''/entries'') p of Some i \<Rightarrow> REntries i
        | None \<Rightarrow> (case match_wallet (js ''/reconcile'') p of Some i \<Rightarrow> RReconcile i
        | None \<Rightarrow> (case if m = POST then kind_route p else None of Some k \<Rightarrow> RMoney k
        | None \<Rightarrow> RNone)))))"

definition dispatch :: "env \<Rightarrow> request \<Rightarrow> engine \<Rightarrow> (engine \<times> outcome) + plan" where
  "dispatch E q s =
     (case route_of (q_method q) (strip_prefix (js ''/api/v1'') (q_path q)) of
        RHealth \<Rightarrow> answer (s\<lparr>ticks := ticks s + 1\<rparr>) (ok (HealthBody (health_of E s)) 200 [])
      | RWallets \<Rightarrow> answer s (ok (WalletsBody (map snd (wallets s))) 200 [])
      | RCreate \<Rightarrow> Inl (map_prod id Returned (create_wallet E (q_body q) s))
      | RWallet i \<Rightarrow>
          answer s (case map_get (wallets s) i of
                      Some w \<Rightarrow> ok (WalletBody w) 200 [] | None \<Rightarrow> wallet_not_found i)
      | RTransactions i \<Rightarrow> answer s (ok (TxsBody (rev (filter (touches i) (txs s)))) 200 [])
      | REntries i \<Rightarrow> answer s (ok (EntriesBody (rev (wallet_entries i (entries s)))) 200 [])
      | RReconcile i \<Rightarrow> reconcile_route E i s
      | RMoney k \<Rightarrow>
          (case validate k (q_headers q) (coalesce (q_body q) (JObj [])) of
             Inl r \<Rightarrow> answer s r | Inr p \<Rightarrow> Inr p)
      | RNone \<Rightarrow>
          answer s (err 404 (js ''route_not_found'')
            (js ''no route for '' @ method_text (q_method q) @ js '' '' @ q_path q)))"

definition handle :: "env \<Rightarrow> request \<Rightarrow> engine \<Rightarrow> engine \<times> outcome" where
  "handle E q s = (case dispatch E q s of Inl a \<Rightarrow> a | Inr p \<Rightarrow> critical E p s)"

text \<open>A sequence of requests, each run to its end before the next.\<close>

definition serve :: "env \<Rightarrow> request \<Rightarrow> engine \<Rightarrow> engine" where
  "serve E q s = fst (handle E q s)"

fun serve_all :: "env \<Rightarrow> request list \<Rightarrow> engine \<Rightarrow> engine \<times> outcome list" where
  "serve_all E [] s = (s, [])"
| "serve_all E (q # qs) s =
     (let (s1, r) = handle E q s; (s2, rs) = serve_all E qs s1 in (s2, r # rs))"

section \<open>Fresh identifiers\<close>

text \<open>
  What the engine relies on from \<open>crypto.randomUUID\<close>: its first \<open>n\<close> results carry 24 hex digits
  (here: word characters) each, and no two of them agree on these.
\<close>

definition fresh_ids :: "env \<Rightarrow> nat \<Rightarrow> bool" where
  "fresh_ids E n \<longleftrightarrow>
     (\<forall>i < n. length (id_part (uuid E i)) = 24 \<and> list_all is_word_char (id_part (uuid E i))) \<and>
     inj_on (\<lambda>i. id_part (uuid E i)) {..<n}"

definition own_ids :: "env \<Rightarrow> engine \<Rightarrow> bool" where
  "own_ids E s \<longleftrightarrow>
     (\<forall>k \<in> set (map_keys (wallets s)). \<exists>i < drawn s. k = rid E (js ''wal'') i)"

lemma rid_inject [simp]: "rid E p i = rid E p j \<longleftrightarrow> id_part (uuid E i) = id_part (uuid E j)"
  by (simp add: rid_def)

lemma fresh_idsD:
  "fresh_ids E n \<Longrightarrow> i < n \<Longrightarrow> j < n \<Longrightarrow> id_part (uuid E i) = id_part (uuid E j) \<longleftrightarrow> i = j"
  by (auto simp: fresh_ids_def inj_on_def)

lemma rid_not_system: "fresh_ids E n \<Longrightarrow> i < n \<Longrightarrow> rid E (js ''wal'') i \<noteq> SYSTEM_ACCOUNT"
proof -
  assume "fresh_ids E n" "i < n"
  then have "length (rid E (js ''wal'') i) = 28" by (simp add: fresh_ids_def rid_def)
  moreover have "length SYSTEM_ACCOUNT = 23" by (simp add: SYSTEM_ACCOUNT_def)
  ultimately show ?thesis by auto
qed

lemma fresh_wallet_id:
  assumes "fresh_ids E n" and "own_ids E s" and "drawn s < n"
  shows "rid E (js ''wal'') (drawn s) \<notin> set (map_keys (wallets s))"
proof
  assume "rid E (js ''wal'') (drawn s) \<in> set (map_keys (wallets s))"
  then obtain i where "i < drawn s" "rid E (js ''wal'') (drawn s) = rid E (js ''wal'') i"
    using assms(2) by (auto simp: own_ids_def)
  then show False using fresh_idsD [OF assms(1), of "drawn s" i] assms(3) by simp
qed

section \<open>A new wallet keeps the books\<close>

lemma wallet_entries_none:
  "accounted s \<Longrightarrow> k \<notin> set (map_keys (wallets s)) \<Longrightarrow> k \<noteq> SYSTEM_ACCOUNT \<Longrightarrow>
   wallet_entries k (entries s) = []"
  by (auto simp: accounted_def wallet_entries_def filter_empty_conv)

lemma new_wallet_wf:
  assumes wf: "wf_books s" and k: "k \<notin> set (map_keys (wallets s))" "k \<noteq> SYSTEM_ACCOUNT" "k \<noteq> []"
    and w: "w_id w = k" "w_balance w = 0" "w_version w = 0"
  shows "wf_books (s\<lparr>wallets := map_set k w (wallets s)\<rparr>)"
proof -
  let ?s = "s\<lparr>wallets := map_set k w (wallets s)\<rparr>"
  have s: "keyed s" "solvent s" "reconciled s" "accounted s" using wf by (simp_all add: wf_books_def)
  have get: "map_get (wallets ?s) j = (if j = k then Some w else map_get (wallets s) j)" for j
    by (simp add: jsmap.get_put)
  have keys: "map_keys (wallets ?s) = map_keys (wallets s) @ [k]"
    using k(1) by (simp add: jsmap.keys_put)
  have "keyed ?s" using s(1) k w(1) unfolding keyed_def keys get by auto
  moreover have "solvent ?s" using s(2) w(2) unfolding solvent_def get by auto
  moreover have "reconciled ?s"
    using s(3) w wallet_entries_none [OF s(4) k(1,2)] unfolding reconciled_def get by auto
  moreover have "accounted ?s" using s(4) unfolding accounted_def keys by auto
  moreover have "held ?s = held s"
  proof -
    have "map_get (wallets s) k = None" using k(1) by (simp only: jsmap.get_None_iff) simp
    then show ?thesis using w(2) by (simp add: held_def map_set_new)
  qed
  ultimately show ?thesis
    using wf by (simp add: wf_books_def chain_wf_def paired_def conserved_def)
qed

section \<open>Every request keeps the books\<close>

text \<open>
  What holds of an engine that was seeded with \<open>n\<close> transactions and served requests since, for
  as long as it draws identifiers within the bound \<open>N\<close> of the environment.
\<close>

definition sound :: "env \<Rightarrow> nat \<Rightarrow> engine \<Rightarrow> bool" where
  "sound E n s \<longleftrightarrow> wf_books s \<and> own_ids E s \<and> idem_wf n s"

lemma answer_simps [simp]: "answer s r = Inl (s, Returned r)"
  by (simp add: answer_def)

text \<open>The cases of \<open>dispatch\<close>: nothing but the clock, a new wallet, or a plan.\<close>

abbreviation q_route :: "request \<Rightarrow> route" where
  "q_route q \<equiv> route_of (q_method q) (strip_prefix (js ''/api/v1'') (q_path q))"

lemma dispatch_cases:
  obtains (read) m r where "dispatch E q s = Inl (s\<lparr>ticks := m\<rparr>, Returned r)" "ticks s \<le> m"
  | (create) "dispatch E q s = Inl (map_prod id Returned (create_wallet E (q_body q) s))"
      "q_route q = RCreate"
  | (move) k p where "dispatch E q s = Inr p" "q_route q = RMoney k"
      "validate k (q_headers q) (coalesce (q_body q) (JObj [])) = Inr p"
proof (cases "q_route q")
  case (RMoney k)
  then show ?thesis
    using read [of "ticks s"] move
    by (cases "validate k (q_headers q) (coalesce (q_body q) (JObj []))") (auto simp: dispatch_def)
next
  case (RReconcile i)
  then show ?thesis
    using read [of "ticks s"] read [of "ticks s + 1"]
    by (cases "map_get (wallets s) i") (auto simp: dispatch_def reconcile_route_def)
next
  case RHealth
  then show ?thesis using read [of "ticks s + 1"] by (simp add: dispatch_def)
next
  case RCreate
  then show ?thesis using create by (simp add: dispatch_def)
qed (use read [of "ticks s"] in \<open>simp add: dispatch_def\<close>)+

lemma wf_ticks [simp]: "wf_books (s\<lparr>ticks := m\<rparr>) = wf_books s" "own_ids E (s\<lparr>ticks := m\<rparr>) = own_ids E s"
  "idem_wf n (s\<lparr>ticks := m\<rparr>) = idem_wf n s"
  by (simp_all add: own_ids_def idem_wf_def)

lemma create_wallet_cases:
  obtains (rejected) "create_wallet E body s =
      (s, err 400 (js ''validation_failed'') (js ''owner is required''))"
  | (created) w where "create_wallet E body s =
      (s\<lparr>wallets := map_set (w_id w) w (wallets s), drawn := drawn s + 1, ticks := ticks s + 1\<rparr>,
       ok (WalletBody w) 201 [(js ''location'', js ''/api/v1/wallets/'' @ w_id w)])"
    "w_id w = rid E (js ''wal'') (drawn s)" "w_balance w = 0" "w_version w = 0" "w_owner w \<noteq> []"
  using rejected created
  by (cases "trim (js_string (coalesce (get_field body (js ''owner'')) (JStr []))) = []")
    (auto simp: create_wallet_def Let_def)

lemma create_wallet_sound:
  assumes E: "fresh_ids E N" and s: "sound E n s" and N: "drawn (fst (create_wallet E body s)) \<le> N"
  shows "sound E n (fst (create_wallet E body s))"
proof (cases rule: create_wallet_cases [of E body s])
  case (created w)
  then have d: "drawn s < N" using N by simp
  have k: "w_id w \<notin> set (map_keys (wallets s))" "w_id w \<noteq> SYSTEM_ACCOUNT" "w_id w \<noteq> []"
    using fresh_wallet_id [OF E _ d] rid_not_system [OF E d] s created
    by (auto simp: sound_def) (simp add: rid_def)
  let ?s = "s\<lparr>wallets := map_set (w_id w) w (wallets s)\<rparr>"
  have "wf_books ?s" using s k created by (intro new_wallet_wf) (auto simp: sound_def)
  moreover have "map_keys (wallets ?s) = map_keys (wallets s) @ [w_id w]"
    using k(1) by (simp add: jsmap.keys_put)
  then have "own_ids E (?s\<lparr>drawn := drawn s + 1\<rparr>)"
    using s created(2) by (auto simp: sound_def own_ids_def less_Suc_eq)
  ultimately show ?thesis
    using s created(1) by (simp add: sound_def idem_wf_def)
qed (use s in simp)

lemma crit_end_drawn: "drawn s \<le> drawn (fst (crit_end E p s))"
  by (cases rule: crit_end_cases [of E p s]) (auto simp: post_tx_fields)

lemma crit_end_keys [engine_simps]:
  "map_keys (wallets (fst (crit_end E p s))) = map_keys (wallets s)"
  by (cases rule: crit_end_cases [of E p s]) (auto simp: post_tx_fields)

lemma crit_end_sound:
  assumes "sound E n s" and "0 < p_amount p" and "map_get (idem s) (p_key p) = None"
    and "resolved s (p_from p)" and "resolved s (p_to p)"
  shows "sound E n (fst (crit_end E p s))"
proof -
  have "own_ids E (fst (crit_end E p s))"
    using assms(1) crit_end_drawn [of s E p] unfolding sound_def own_ids_def crit_end_keys
    by (meson order_less_le_trans)
  then show ?thesis using assms by (auto simp: sound_def intro: crit_end_wf crit_end_idem)
qed

lemma critical_sound:
  "sound E n s \<Longrightarrow> 0 < p_amount p \<Longrightarrow> sound E n (fst (critical E p s))"
  by (auto simp: critical_def split: option.split dest: crit_begin_NoneD intro: crit_end_sound)

lemma critical_drawn: "drawn s \<le> drawn (fst (critical E p s))"
  by (auto simp: critical_def crit_end_drawn split: option.split)

lemma serve_drawn: "drawn s \<le> drawn (serve E q s)"
proof (cases rule: dispatch_cases [of E q s])
  case create
  then show ?thesis
    by (cases rule: create_wallet_cases [of E "q_body q" s]) (auto simp: serve_def handle_def)
qed (auto simp: serve_def handle_def critical_drawn)

lemma serve_sound:
  assumes E: "fresh_ids E N" and s: "sound E n s" and N: "drawn (serve E q s) \<le> N"
  shows "sound E n (serve E q s)"
proof (cases rule: dispatch_cases [of E q s])
  case create
  then show ?thesis using create_wallet_sound [OF E s] N by (simp add: serve_def handle_def)
next
  case (move k p)
  then show ?thesis
    using critical_sound [OF s] validate_InrD(2) [OF move(3)] by (simp add: serve_def handle_def)
qed (use s in \<open>simp add: serve_def handle_def sound_def\<close>)

text \<open>
  The contract \<open>preserved\<close> on the requests: while the identifiers drawn stay within the bound,
  the engine is sound after any number of requests.
\<close>

definition sound_within :: "env \<Rightarrow> nat \<Rightarrow> nat \<Rightarrow> engine \<Rightarrow> bool" where
  "sound_within E N n s \<longleftrightarrow> (fresh_ids E N \<and> drawn s \<le> N \<longrightarrow> sound E n s)"

interpretation served: preserved "serve E" "sound_within E N n" for E N n
  by unfold_locales (metis sound_within_def serve_sound serve_drawn order_trans)

lemma serve_all_fold: "fst (serve_all E qs s) = fold (serve E) qs s"
  by (induction qs arbitrary: s) (auto simp: serve_def split_beta Let_def)

end
