(* ===== verification/Seeding.thy ===== *)
theory Seeding
  imports Routes
begin

text \<open>
  The engine its constructor builds: three wallets and six transactions. The proofs follow
  the balances through the seed with the abstract bank, and give the start of every run: the
  seeded engine is sound, holds the stated balances and has no idempotency record. The theory
  also provides a concrete environment, for the witnesses.
\<close>

definition seeding :: "env \<Rightarrow> bank \<Rightarrow> nat \<Rightarrow> nat \<Rightarrow> engine \<Rightarrow> bool" where
  "seeding E b n d s \<longleftrightarrow> wf_books s \<and> own_ids E s \<and> idem s = [] \<and> balances s = b \<and>
     length (txs s) = n \<and> drawn s = d \<and> paid_in s \<le> int n * 2 ^ 28 \<and>
     sum_list (map e_amount (entries s)) \<le> int n * 2 ^ 29"

lemma blank_fields [simp]:
  "wallets (blank_engine E) = []" "txs (blank_engine E) = []" "idem (blank_engine E) = []"
  "entries (blank_engine E) = []" "drawn (blank_engine E) = 0" "seq (blank_engine E) = 0"
  "last_hash (blank_engine E) = genesis"
  by (simp_all add: blank_engine_def genesis_def)

lemma wf_blank: "wf_books (blank_engine E)"
  by (simp add: wf_books_def keyed_def solvent_def reconciled_def accounted_def running_def chain_wf_def
      paired_def conserved_def held_def border_def)

lemma seeding_blank: "seeding E [] 0 0 (blank_engine E)"
  using wf_blank by (simp add: seeding_def own_ids_def balances_def border_def)

lemma own_ids_mono:
  assumes own: "own_ids E s" and keys: "map_keys (wallets s') = map_keys (wallets s)"
    and d: "drawn s \<le> drawn s'"
  shows "own_ids E s'"
  unfolding own_ids_def keys
proof
  fix k assume "k \<in> set (map_keys (wallets s))"
  then obtain i where "i < drawn s" "k = rid E (js ''wal'') i" using own unfolding own_ids_def by blast
  then show "\<exists>i < drawn s'. k = rid E (js ''wal'') i" using d order_less_le_trans by blast
qed

lemma mk_wallet_seeding:
  assumes E: "fresh_ids E N" and s: "seeding E b n d s" and d: "d < N"
  shows "fst (mk_wallet E owner ago s) = rid E (js ''wal'') d"
    and "seeding E (b @ [(rid E (js ''wal'') d, 0)]) n (Suc d) (snd (mk_wallet E owner ago s))"
proof -
  let ?i = "rid E (js ''wal'') d"
  have own: "own_ids E s" and wf: "wf_books s" and dr: "drawn s = d" and b: "balances s = b"
    and i: "idem s = []" and n: "length (txs s) = n" and paid: "paid_in s \<le> int n * 2 ^ 28"
    and amounts: "sum_list (map e_amount (entries s)) \<le> int n * 2 ^ 29"
    using s by (auto simp: seeding_def)
  define w where "w = seed_wallet E owner ago s"
  have w: "w_id w = ?i" "w_balance w = 0" "w_version w = 0"
    by (simp_all add: w_def seed_wallet_def dr)
  then have mk: "mk_wallet E owner ago s = (?i, s\<lparr>wallets := map_set ?i w (wallets s)\<rparr>
      \<lparr>drawn := Suc d, ticks := ticks s + 1\<rparr>)"
    by (simp add: mk_wallet_def Let_def dr w_def [symmetric])
  then show "fst (mk_wallet E owner ago s) = ?i" by simp
  have k: "?i \<notin> set (map_keys (wallets s))" "?i \<noteq> SYSTEM_ACCOUNT" "?i \<noteq> []"
    using fresh_wallet_id [OF E own] rid_not_system [OF E d] d
    by (auto simp: dr) (simp add: rid_def)
  let ?s = "s\<lparr>wallets := map_set ?i w (wallets s)\<rparr>"
  have wf': "wf_books ?s" using wf k w by (intro new_wallet_wf)
  have "map_get (wallets s) ?i = None" using k(1) by (simp only: jsmap.get_None_iff) simp
  then have ws: "map_set ?i w (wallets s) = wallets s @ [(?i, w)]" by (rule map_set_new)
  have "own_ids E (?s\<lparr>drawn := Suc d\<rparr>)"
    using own by (auto simp: own_ids_def ws dr less_Suc_eq)
  then show "seeding E (b @ [(?i, 0)]) n (Suc d) (snd (mk_wallet E owner ago s))"
    using wf' i n b w(2) paid amounts by (simp add: seeding_def mk balances_def ws)
qed

lemma balances_frame [simp]:
  "balances (s\<lparr>drawn := m\<rparr>) = balances s" "balances (s\<lparr>ticks := m\<rparr>) = balances s"
  "balances (s\<lparr>idem := i\<rparr>) = balances s"
  by (simp_all add: balances_def)

text \<open>One seeding step, on the balances.\<close>

definition sync_ok :: "tx_kind \<Rightarrow> jsval \<Rightarrow> bank \<Rightarrow> bool" where
  "sync_ok k body b \<longleftrightarrow>
     (let a = as_number (get_field body (js ''amount''))
      in 0 < a \<and> a \<le> 2 ^ 28 \<and> bank_covers b (from_of k body) a \<and> bank_knows b (from_of k body) \<and>
         bank_knows b (to_of k body))"

definition sync_bank :: "tx_kind \<Rightarrow> jsval \<Rightarrow> bank \<Rightarrow> bank" where
  "sync_bank k body b =
     bank_transfer js_add (from_of k body) (to_of k body)
       (as_number (get_field body (js ''amount''))) b"

lemma commit_paid_in:
  assumes "keyed s" and "valid_tx s t"
  shows "paid_in (commit E t s) \<le> paid_in s + t_amount t"
proof -
  have v: "0 < t_amount t" "resolved s (t_from_wallet_id t)" "resolved s (t_to_wallet_id t)"
    using assms(2) by (simp_all add: valid_tx_def)
  have "keyed (leg E t Debit (t_from_wallet_id t) s)" using assms(1) by (rule leg_keyed)
  then show ?thesis
    using leg_border [OF assms(1) v(2), of Debit E t Debit] v(1)
      leg_border [of "leg E t Debit (t_from_wallet_id t) s" "t_to_wallet_id t" Debit E t Credit] v(3)
    by (auto simp: commit_books resolved_leg split: if_splits)
qed

lemma apply_sync_seeding:
  assumes s: "seeding E b n d s" and okay: "sync_ok k body b"
  shows "seeding E (sync_bank k body b) (Suc n) (d + 3) (apply_sync E k body s)"
proof -
  define t where "t = sync_tx E k body s"
  have t: "t_amount t = as_number (get_field body (js ''amount''))"
      "t_from_wallet_id t = from_of k body" "t_to_wallet_id t = to_of k body"
    by (simp_all add: t_def sync_tx_def)
  let ?s = "s\<lparr>drawn := drawn s + 1, ticks := ticks s + 1\<rparr>"
  have bal: "balances ?s = b" using s by (simp add: seeding_def)
  have valid: "valid_tx ?s t"
    unfolding valid_tx_balances bal t using okay by (simp add: sync_ok_def Let_def)
  then have wf: "wf_books (commit E t ?s)"
    using s by (intro commit_wf) (simp_all add: seeding_def)
  have "own_ids E (commit E t ?s)"
  proof (rule own_ids_mono [of E s])
    show "own_ids E s" using s by (simp add: seeding_def)
  qed (simp_all only: commit_fields, simp_all)
  moreover have "balances (commit E t ?s) = sync_bank k body b"
    by (simp only: balances_commit bal t sync_bank_def)
  moreover have "paid_in (commit E t ?s) \<le> paid_in ?s + t_amount t"
    using s by (intro commit_paid_in valid) (simp add: seeding_def wf_books_def keyed_def)
  then have "paid_in (commit E t ?s) \<le> int (Suc n) * 2 ^ 28"
    using s okay t(1) by (simp add: seeding_def sync_ok_def Let_def algebra_simps)
  moreover have "sum_list (map e_amount (entries (commit E t ?s))) \<le> int (Suc n) * 2 ^ 29"
  proof -
    have "keyed ?s" "resolved ?s (t_from_wallet_id t)" "resolved ?s (t_to_wallet_id t)"
      using s valid by (simp_all add: seeding_def wf_books_def keyed_def valid_tx_def)
    from commit_entries [OF this] obtain u v where
      "entries (commit E t ?s) = entries s @ [u, v]" "pair_of t (u, v)" by auto
    then show ?thesis
      using s okay t(1) by (simp add: seeding_def sync_ok_def Let_def pair_of_def algebra_simps)
  qed
  ultimately show ?thesis
    using s wf by (simp add: seeding_def apply_sync_def t_def [symmetric] commit_fields)
qed

lemma sync_step:
  assumes "seeding E b n d s" and "sync_ok k body b"
    and "sync_bank k body b = b'" and "Suc n = n'" and "d + 3 = d'"
  shows "seeding E b' n' d' (apply_sync E k body s)"
  using apply_sync_seeding [OF assms(1,2)] assms(3-5) by simp

section \<open>The seeded engine\<close>

definition seed_bank :: "jstr \<Rightarrow> jstr \<Rightarrow> jstr \<Rightarrow> bank" where
  "seed_bank a b c = [(a, 206750000), (b, 28754982), (c, 8750000)]"

lemma from_to_on_wallet [simp]:
  "from_of Deposit (on_wallet i x r) = JNull" "to_of Deposit (on_wallet i x r) = JStr i"
  "from_of Withdrawal (on_wallet i x r) = JStr i" "to_of Withdrawal (on_wallet i x r) = JNull"
  "get_field (on_wallet i x r) (js ''amount'') = JNum x"
  by (simp_all add: from_of_def to_of_def on_wallet_def)

lemma from_to_between [simp]:
  "from_of Transfer (between i j x r) = JStr i" "to_of Transfer (between i j x r) = JStr j"
  "get_field (between i j x r) (js ''amount'') = JNum x"
  by (simp_all add: from_of_def to_of_def between_def)

lemmas bank_eval = sync_ok_def sync_bank_def Let_def as_number_def bank_covers_def bank_knows_def
  bank_account_def bank_transfer_def bank_move_def num.add_exact

lemma seed_seeding:
  assumes E: "fresh_ids E 21"
  shows "seeding E (seed_bank (rid E (js ''wal'') 0) (rid E (js ''wal'') 1) (rid E (js ''wal'') 2))
           6 21 (seed E)"
proof -
  define a where "a = rid E (js ''wal'') 0"
  define b where "b = rid E (js ''wal'') 1"
  define c where "c = rid E (js ''wal'') 2"
  have ne: "a \<noteq> []" "b \<noteq> []" "c \<noteq> []" by (simp_all add: a_def b_def c_def rid_def)
  have dist: "a \<noteq> b" "a \<noteq> c" "b \<noteq> c" "b \<noteq> a" "c \<noteq> a" "c \<noteq> b"
    using fresh_idsD [OF E, of 0 1] fresh_idsD [OF E, of 0 2] fresh_idsD [OF E, of 1 2]
    by (simp_all add: a_def b_def c_def)
  define s1 where "s1 = snd (mk_wallet E (js ''Northwind Treasury'') (day * 9) (blank_engine E))"
  define s2 where "s2 = snd (mk_wallet E (js ''Halcyon Payroll'') (day * 6) s1)"
  define s3 where "s3 = snd (mk_wallet E (js ''Meridian Escrow'') (day * 2) s2)"
  note mk = mk_wallet_seeding [OF E]
  have 1: "seeding E [(a, 0)] 0 1 s1" and a: "fst (mk_wallet E (js ''Northwind Treasury'') (day * 9) (blank_engine E)) = a"
    using mk [OF seeding_blank] by (simp_all add: a_def s1_def)
  have 2: "seeding E [(a, 0), (b, 0)] 0 2 s2" and b: "fst (mk_wallet E (js ''Halcyon Payroll'') (day * 6) s1) = b"
    using mk [OF 1] by (simp_all add: b_def s2_def numeral_2_eq_2)
  have 3: "seeding E [(a, 0), (b, 0), (c, 0)] 0 3 s3" and c: "fst (mk_wallet E (js ''Meridian Escrow'') (day * 2) s2) = c"
    using mk [OF 2] by (simp_all add: c_def s3_def numeral_3_eq_3)
  note eval = sync_step [OF _ _ _ refl refl]
  define s4 where "s4 = apply_sync E Deposit (on_wallet a 250000000 (js ''Series B wire'')) s3"
  define s5 where "s5 = apply_sync E Deposit (on_wallet b 18000000 (js ''Opening float'')) s4"
  define s6 where "s6 = apply_sync E Transfer
    (between a b 42000000 (js ''Payroll funding '' @ [0x2014] @ js '' Mar'')) s5"
  define s7 where "s7 = apply_sync E Deposit (on_wallet c 7500000 (js ''Escrow deposit #4471'')) s6"
  define s8 where "s8 = apply_sync E Withdrawal (on_wallet b 31245018 (js ''Payroll run 2025-03'')) s7"
  define s9 where "s9 = apply_sync E Transfer (between a c 1250000 (js ''Escrow top-up'')) s8"
  have 4: "seeding E [(a, 250000000), (b, 0), (c, 0)] 1 6 s4"
    unfolding s4_def by (rule sync_step [OF 3]) (use ne dist in \<open>simp_all add: bank_eval\<close>)
  have 5: "seeding E [(a, 250000000), (b, 18000000), (c, 0)] 2 9 s5"
    unfolding s5_def by (rule sync_step [OF 4]) (use ne dist in \<open>simp_all add: bank_eval\<close>)
  have 6: "seeding E [(a, 208000000), (b, 60000000), (c, 0)] 3 12 s6"
    unfolding s6_def by (rule sync_step [OF 5]) (use ne dist in \<open>simp_all add: bank_eval\<close>)
  have 7: "seeding E [(a, 208000000), (b, 60000000), (c, 7500000)] 4 15 s7"
    unfolding s7_def by (rule sync_step [OF 6]) (use ne dist in \<open>simp_all add: bank_eval\<close>)
  have 8: "seeding E [(a, 208000000), (b, 28754982), (c, 7500000)] 5 18 s8"
    unfolding s8_def by (rule sync_step [OF 7]) (use ne dist in \<open>simp_all add: bank_eval\<close>)
  have 9: "seeding E [(a, 206750000), (b, 28754982), (c, 8750000)] 6 21 s9"
    unfolding s9_def by (rule sync_step [OF 8]) (use ne dist in \<open>simp_all add: bank_eval\<close>)
  have "seed E = s9"
    unfolding seed_def s1_def s2_def s3_def s4_def s5_def s6_def s7_def s8_def s9_def
      a [symmetric] b [symmetric] c [symmetric]
    by (simp add: split_beta Let_def)
  with 9 show ?thesis by (simp add: seed_bank_def a_def b_def c_def)
qed

lemma seed_sound: "fresh_ids E 21 \<Longrightarrow> sound E 6 (seed E)"
  using seed_seeding [of E] by (simp add: seeding_def sound_def idem_wf_def)

section \<open>A concrete environment\<close>

text \<open>
  UUIDs that number the draws in their first 20 hex digits, in the 8-4-4-4-12 form; a clock
  that advances one millisecond a reading; a random source that always gives 0.
\<close>

definition demo_digits :: "nat \<Rightarrow> jstr" where
  "demo_digits n = pad_start 20 (hex n) @ replicate 12 0x30"

definition demo_uuid :: "nat \<Rightarrow> jstr" where
  "demo_uuid n =
     (let h = demo_digits n
      in join (js ''-'') [take 8 h, take 4 (drop 8 h), take 4 (drop 12 h), take 4 (drop 16 h), drop 20 h])"

definition demo_env :: env where
  "demo_env = \<lparr>uuid = demo_uuid, clock = (\<lambda>n. 1742000000000 + int n),
     lap = (\<lambda>m n. 10 * (int n - int m)), random = (\<lambda>n. 0)\<rparr>"

lemma hex_digit_char [simp]: "d < 16 \<Longrightarrow> is_word_char (hex_digit d) \<and> hex_digit d \<noteq> 0x2D"
proof -
  assume "d < 16"
  then have "d \<in> set [0..<16]" by simp
  moreover have "\<forall>d \<in> set [0..<16]. is_word_char (hex_digit d) \<and> hex_digit d \<noteq> 0x2D"
    by (simp add: upt_rec hex_digit_def is_word_char_def is_digit_def)
  ultimately show ?thesis by blast
qed

lemma hex_chars: "c \<in> set (hex n) \<Longrightarrow> is_word_char c \<and> c \<noteq> 0x2D"
proof (induction n rule: hex.induct)
  case (1 n)
  then show ?case by (cases "n < 16") (auto simp: hex.simps [of n])
qed

lemma pad_hex_chars: "c \<in> set (pad_start k (hex n)) \<Longrightarrow> is_word_char c \<and> c \<noteq> 0x2D"
  using hex_chars [of c n]
  by (auto simp: pad_start_def is_word_char_def is_digit_def)

lemma demo_digits_chars: "c \<in> set (demo_digits n) \<Longrightarrow> is_word_char c \<and> c \<noteq> 0x2D"
  using pad_hex_chars [of c 20 n] by (auto simp: demo_digits_def is_word_char_def is_digit_def)

lemma demo_digits_length: "n < 16 ^ 20 \<Longrightarrow> length (demo_digits n) = 32"
  using hex_length_le [of n 20] by (simp add: demo_digits_def)

lemma strip_demo: "filter (\<lambda>c. c \<noteq> 0x2D) (demo_uuid n) = demo_digits n"
proof -
  define h where "h = demo_digits n"
  have "\<forall>c \<in> set h. c \<noteq> 0x2D" using demo_digits_chars by (auto simp: h_def)
  then have keep: "filter (\<lambda>c. c \<noteq> 0x2D) (take a (drop b h)) = take a (drop b h)" for a b
    by (auto simp: filter_id_conv dest: in_set_takeD in_set_dropD)
  have "filter (\<lambda>c. c \<noteq> 0x2D) (demo_uuid n) =
      take 8 h @ take 4 (drop 8 h) @ take 4 (drop 12 h) @ take 4 (drop 16 h) @ drop 20 h"
    using keep [of 8 0] keep [of 4 8] keep [of 4 12] keep [of 4 16] keep [of "length h" 20]
    by (simp add: demo_uuid_def h_def [symmetric] Let_def js_def)
  also have "\<dots> = h"
    by (simp add: drop_drop [symmetric] add.commute append_take_drop_id
        flip: append_assoc take_add)
  finally show ?thesis by (simp add: h_def)
qed

lemma id_part_demo: "id_part (demo_uuid n) = take 24 (demo_digits n)"
  by (simp add: id_part_def strip_demo)

lemma demo_prefix_inject:
  assumes "m < 16 ^ 20" and "n < 16 ^ 20" and "take 20 (demo_digits m) = take 20 (demo_digits n)"
  shows "m = n"
proof -
  have "take 20 (demo_digits k) = pad_start 20 (hex k)" if "k < 16 ^ 20" for k
    using hex_length_le [OF that] by (simp add: demo_digits_def)
  then show ?thesis using assms by (metis hex_value_pad)
qed

lemma fresh_demo: "N \<le> 16 ^ 20 \<Longrightarrow> fresh_ids demo_env N"
proof -
  assume N: "N \<le> 16 ^ 20"
  have id: "id_part (uuid demo_env i) = take 24 (demo_digits i)" for i
    by (simp add: demo_env_def id_part_demo)
  have "length (id_part (uuid demo_env i)) = 24" if "i < N" for i
    using that N demo_digits_length [of i] by (simp add: id)
  moreover have "list_all is_word_char (id_part (uuid demo_env i))" for i
    using demo_digits_chars by (auto simp: id list_all_iff dest: in_set_takeD)
  moreover have "inj_on (\<lambda>i. id_part (uuid demo_env i)) {..<N}"
  proof (rule inj_onI)
    fix i j assume "i \<in> {..<N}" "j \<in> {..<N}" "id_part (uuid demo_env i) = id_part (uuid demo_env j)"
    then have "i < 16 ^ 20" "j < 16 ^ 20" "take 20 (take 24 (demo_digits i)) = take 20 (take 24 (demo_digits j))"
      using N by (simp_all add: id)
    then show "i = j" using demo_prefix_inject by simp
  qed
  ultimately show ?thesis by (simp add: fresh_ids_def)
qed

text \<open>A bound on the draws that leaves room for any demonstration.\<close>

lemma fresh_demo_small: "fresh_ids demo_env 1000000"
  by (rule fresh_demo) simp

end
