(* ===== verification/Locks.thy ===== *)
theory Locks
  imports Seeding
begin

text \<open>
  The engine's locks. A \<open>Mutex\<close> is a chain of promises: every call of \<open>lock\<close> appends one, and
  the caller goes on when all the promises before its own are resolved. The model keeps, per
  call, whether its release function has run. What users rely on is the interface of a fair
  queue (locale \<open>fifo_lock\<close>), which the promise chain implements. The lock table creates a
  mutex on first use; \<open>ordered\<close> is the order in which \<open>withLocks\<close> takes the locks.
\<close>

section \<open>The mutex\<close>

record mutex =
  resolved_by :: "bool list"

definition new_mutex :: mutex where
  "new_mutex = \<lparr>resolved_by = []\<rparr>"

text \<open>\<open>lock\<close>: the ticket (the number of the call) and the longer chain.\<close>

definition lock :: "mutex \<Rightarrow> nat \<times> mutex" where
  "lock m = (length (resolved_by m), m\<lparr>resolved_by := resolved_by m @ [False]\<rparr>)"

text \<open>The promise \<open>lock\<close> returned is resolved: every earlier call has released.\<close>

definition granted :: "mutex \<Rightarrow> nat \<Rightarrow> bool" where
  "granted m k \<longleftrightarrow> list_all (\<lambda>b. b) (take k (resolved_by m))"

definition release :: "nat \<Rightarrow> mutex \<Rightarrow> mutex" where
  "release k m = m\<lparr>resolved_by := (resolved_by m)[k := True]\<rparr>"

text \<open>The tickets not yet released, in order: the queue the chain stands for.\<close>

definition pending :: "mutex \<Rightarrow> nat list" where
  "pending m = filter (\<lambda>k. \<not> resolved_by m ! k) [0..<length (resolved_by m)]"

section \<open>The interface of a fair lock\<close>

locale fifo_lock =
  fixes fresh :: 'm
    and take_ticket :: "'m \<Rightarrow> nat \<times> 'm"
    and may_enter :: "'m \<Rightarrow> nat \<Rightarrow> bool"
    and give_back :: "nat \<Rightarrow> 'm \<Rightarrow> 'm"
    and queue :: "'m \<Rightarrow> nat list"
  assumes queue_fresh: "queue fresh = []"
    and queue_distinct: "distinct (queue m)"
    and ticket_new: "fst (take_ticket m) \<notin> set (queue m)"
    and queue_take: "queue (snd (take_ticket m)) = queue m @ [fst (take_ticket m)]"
    and enter_head: "k \<in> set (queue m) \<Longrightarrow> may_enter m k \<longleftrightarrow> hd (queue m) = k"
    and queue_give: "queue (give_back k m) = filter (\<lambda>j. j \<noteq> k) (queue m)"
begin

text \<open>At most one ticket holder may enter.\<close>

lemma exclusive:
  "j \<in> set (queue m) \<Longrightarrow> k \<in> set (queue m) \<Longrightarrow> may_enter m j \<Longrightarrow> may_enter m k \<Longrightarrow> j = k"
  by (simp add: enter_head)

text \<open>Somebody may enter when anybody waits.\<close>

lemma head_enters: "queue m \<noteq> [] \<Longrightarrow> hd (queue m) \<in> set (queue m) \<and> may_enter m (hd (queue m))"
  by (simp add: enter_head)

text \<open>Who may enter still may after others took or gave back tickets.\<close>

lemma enter_after_take:
  "k \<in> set (queue m) \<Longrightarrow> may_enter (snd (take_ticket m)) k \<longleftrightarrow> may_enter m k"
  by (cases "queue m") (auto simp: enter_head queue_take)

lemma enter_after_give:
  assumes "k \<in> set (queue m)" and "may_enter m k" and "j \<noteq> k"
  shows "may_enter (give_back j m) k"
proof -
  have "hd (queue m) = k" using assms by (simp add: enter_head)
  then obtain ks where "queue m = k # ks" using assms(1) by (cases "queue m") auto
  then show ?thesis using assms(3) by (simp add: enter_head queue_give)
qed

text \<open>First come, first served: when the head gives back, the next one may enter.\<close>

lemma next_enters:
  assumes "queue m = j # k # ks"
  shows "may_enter (give_back j m) k"
proof -
  have "queue (give_back j m) = k # ks"
    using queue_distinct [of m] assms by (auto simp: queue_give filter_id_conv)
  then show ?thesis by (simp add: enter_head)
qed

end

lemma pending_snoc: "pending (m\<lparr>resolved_by := resolved_by m @ [False]\<rparr>) = pending m @ [length (resolved_by m)]"
proof -
  have "filter (\<lambda>k. \<not> (resolved_by m @ [False]) ! k) [0..<length (resolved_by m)] = pending m"
    unfolding pending_def by (rule filter_cong) (auto simp: nth_append)
  then show ?thesis by (simp add: pending_def)
qed

lemma hd_filter_upt:
  assumes "k < n" and "P k"
  shows "hd (filter P [0..<n]) = k \<longleftrightarrow> (\<forall>i < k. \<not> P i)"
proof
  have split: "[0..<n] = [0..<k] @ k # [Suc k..<n]"
    using upt_add_eq_append [of 0 k "n - k"] upt_conv_Cons [of k n] assms(1) by simp
  { assume "\<forall>i < k. \<not> P i"
    then have "filter P [0..<k] = []" by (auto simp: filter_empty_conv)
    then show "hd (filter P [0..<n]) = k" using assms(2) by (simp add: split) }
  assume h: "hd (filter P [0..<n]) = k"
  show "\<forall>i < k. \<not> P i"
  proof (rule ccontr)
    assume "\<not> ?thesis"
    then have "filter P [0..<k] \<noteq> []" by (auto simp: filter_empty_conv)
    then have "hd (filter P [0..<n]) \<in> set (filter P [0..<k])"
      unfolding split filter_append by (metis hd_append2 hd_in_set)
    then show False using h by simp
  qed
qed

lemma granted_head:
  assumes "k \<in> set (pending m)"
  shows "granted m k \<longleftrightarrow> hd (pending m) = k"
proof -
  have k: "k < length (resolved_by m)" "\<not> resolved_by m ! k"
    using assms by (auto simp: pending_def)
  have "granted m k \<longleftrightarrow> (\<forall>i < k. resolved_by m ! i)"
    using k by (simp add: granted_def list_all_length)
  also have "\<dots> \<longleftrightarrow> hd (pending m) = k"
    using hd_filter_upt [of k "length (resolved_by m)" "\<lambda>k. \<not> resolved_by m ! k"] k
    by (simp add: pending_def)
  finally show ?thesis .
qed

interpretation mutex: fifo_lock new_mutex lock granted release pending
proof unfold_locales
  fix m k
  show "pending new_mutex = []" by (simp add: pending_def new_mutex_def)
  show "distinct (pending m)" by (simp add: pending_def)
  show "fst (lock m) \<notin> set (pending m)" by (simp add: lock_def pending_def)
  show "pending (snd (lock m)) = pending m @ [fst (lock m)]" by (simp add: lock_def pending_snoc)
  show "pending (release k m) = filter (\<lambda>j. j \<noteq> k) (pending m)"
    unfolding pending_def release_def
    by (cases "k < length (resolved_by m)")
      (auto simp: nth_list_update list_update_beyond intro!: filter_cong split: if_splits)
  show "k \<in> set (pending m) \<Longrightarrow> granted m k \<longleftrightarrow> hd (pending m) = k" by (rule granted_head)
qed

section \<open>Lock names and their order\<close>

text \<open>
  A lock is found by the value that names it: primitive values are equal when they are the
  same value, an object or array only equals itself, so its name carries the request and the
  slot it came from (and its text, for the order).
\<close>

datatype lock_name = Prim jsval | Ref nat nat jstr

definition name_of :: "nat \<Rightarrow> nat \<Rightarrow> jsval \<Rightarrow> lock_name" where
  "name_of i slot v =
     (case v of JArr _ \<Rightarrow> Ref i slot (js_string v) | JObj _ \<Rightarrow> Ref i slot (js_string v) | _ \<Rightarrow> Prim v)"

text \<open>The text the default \<open>sort\<close> compares.\<close>

fun name_text :: "lock_name \<Rightarrow> jstr" where
  "name_text (Prim v) = js_string v"
| "name_text (Ref i slot t) = t"

definition idem_name :: "jstr \<Rightarrow> lock_name" where
  "idem_name key = Prim (JStr (js ''idem:'' @ key))"

definition lock_names :: "nat \<Rightarrow> plan \<Rightarrow> lock_name list" where
  "lock_names i p =
     idem_name (p_key p) #
     (if truthy (p_from p) then [name_of i 0 (p_from p)] else []) @
     (if truthy (p_to p) then [name_of i 1 (p_to p)] else [])"

text \<open>\<open>[...new Set(ids)].sort()\<close>.\<close>

definition ordered :: "nat \<Rightarrow> plan \<Rightarrow> lock_name list" where
  "ordered i p = sort_key name_text (dedup (lock_names i p))"

lemma set_ordered: "set (ordered i p) = set (lock_names i p)"
  by (simp add: ordered_def)

lemma distinct_ordered: "distinct (ordered i p)"
  by (simp add: ordered_def distinct_sort)

lemma idem_in_ordered: "idem_name (p_key p) \<in> set (ordered i p)"
  by (simp add: set_ordered lock_names_def)

lemma length_ordered: "0 < length (ordered i p)" "length (ordered i p) \<le> 3"
proof -
  have "length (dedup xs) \<le> length xs" for xs :: "lock_name list"
    by (metis card_length distinct_card distinct_dedup set_dedup)
  then have "length (ordered i p) \<le> length (lock_names i p)" by (simp add: ordered_def)
  then show "length (ordered i p) \<le> 3" by (simp add: lock_names_def split: if_splits)
  show "0 < length (ordered i p)" using idem_in_ordered [of p i] by (cases "ordered i p") auto
qed

text \<open>Identifiers of the declared type: strings, or nothing.\<close>

definition string_ids :: "plan \<Rightarrow> bool" where
  "string_ids p \<longleftrightarrow> (\<forall>v \<in> {p_from p, p_to p}. truthy v \<longrightarrow> (\<exists>s. v = JStr s))"

lemma ordered_strict:
  assumes "string_ids p"
  shows "sorted (map name_text (ordered i p))" and "inj_on name_text (set (ordered i p))"
proof -
  show "sorted (map name_text (ordered i p))" by (simp add: ordered_def)
  have "\<forall>n \<in> set (ordered i p). \<exists>s. n = Prim (JStr s)"
    using assms by (auto simp: set_ordered lock_names_def idem_name_def string_ids_def name_of_def)
  then show "inj_on name_text (set (ordered i p))"
    by (intro inj_onI) (metis js_string.simps(6) name_text.simps(1))
qed

section \<open>The lock table\<close>

type_synonym lock_table = "(lock_name, mutex) jsmap"

text \<open>\<open>lockFor\<close>: a name that was never locked has a new mutex.\<close>

definition lock_for :: "lock_table \<Rightarrow> lock_name \<Rightarrow> mutex" where
  "lock_for tab n = (case map_get tab n of None \<Rightarrow> new_mutex | Some m \<Rightarrow> m)"

definition release_all :: "(lock_name \<times> nat) list \<Rightarrow> lock_table \<Rightarrow> lock_table" where
  "release_all hs tab =
     foldl (\<lambda>tab (n, k). map_set n (release k (lock_for tab n)) tab) tab (rev hs)"

lemma lock_for_set [simp]: "lock_for (map_set n m tab) n' = (if n' = n then m else lock_for tab n')"
  by (simp add: lock_for_def jsmap.get_put)

lemma lock_for_Nil [simp]: "lock_for [] n = new_mutex"
  by (simp add: lock_for_def)

text \<open>Releasing removes exactly the given tickets from the queues.\<close>

lemma pending_release_fold:
  "pending (lock_for (foldl (\<lambda>tab (n, k). map_set n (release k (lock_for tab n)) tab) tab hs) n) =
   filter (\<lambda>k. (n, k) \<notin> set hs) (pending (lock_for tab n))"
proof (induction hs arbitrary: tab)
  case (Cons h hs)
  show ?case
    by (cases h) (auto simp: Cons mutex.queue_give intro!: filter_cong)
qed simp

lemma pending_release_all:
  "pending (lock_for (release_all hs tab) n) =
   filter (\<lambda>k. (n, k) \<notin> set hs) (pending (lock_for tab n))"
  by (simp add: release_all_def pending_release_fold)

end
