(* ===== verification/Concurrency.thy ===== *)
theory Concurrency
  imports Locks
begin

text \<open>
  Concurrent requests. Each call of \<open>handle\<close> is a thread that runs from one \<open>await\<close> to the next:
  the network delay, each lock of \<open>withLocks\<close>, the simulated row-lock delay. The scheduler may
  resume any thread whose promise is resolved, so every interleaving of the event loop is an
  \<open>execution\<close>. Proved here: the locks exclude each other, every execution does the work of a
  sequential one, and with string identifiers no set of requests deadlocks.
\<close>

section \<open>Threads\<close>

datatype phase =
    Ready
  | Acquiring plan "(lock_name \<times> nat) list" lock_name nat "lock_name list"
  | Holding plan "(lock_name \<times> nat) list"
  | Finished outcome

record sys =
  eng :: engine
  table :: lock_table
  threads :: "(request \<times> phase) list"

definition set_phase :: "nat \<Rightarrow> phase \<Rightarrow> sys \<Rightarrow> sys" where
  "set_phase i ph s = s\<lparr>threads := (threads s)[i := (fst (threads s ! i), ph)]\<rparr>"

text \<open>The last step of a handler: its effect on the engine and the release of its locks.\<close>

definition finish :: "nat \<Rightarrow> (lock_name \<times> nat) list \<Rightarrow> engine \<times> outcome \<Rightarrow> sys \<Rightarrow> sys" where
  "finish i hs a s =
     set_phase i (Finished (snd a)) (s\<lparr>eng := fst a, table := release_all hs (table s)\<rparr>)"

text \<open>One round of the loop of \<open>withLocks\<close>: ask for the next lock, or start the critical section.\<close>

definition next_lock ::
  "nat \<Rightarrow> plan \<Rightarrow> (lock_name \<times> nat) list \<Rightarrow> lock_name list \<Rightarrow> sys \<Rightarrow> sys" where
  "next_lock i p hs todo s =
     (case todo of
        n # ns \<Rightarrow>
          (let (k, m) = lock (lock_for (table s) n)
           in set_phase i (Acquiring p hs n k ns) (s\<lparr>table := map_set n m (table s)\<rparr>))
      | [] \<Rightarrow>
          (case crit_begin p (eng s) of
             Some r \<Rightarrow> finish i hs (eng s, Returned r) s
           | None \<Rightarrow> set_phase i (Holding p hs) s))"

text \<open>Resume thread \<open>i\<close>; \<open>None\<close>: there is nothing to resume, or its lock is not granted.\<close>

definition advance :: "env \<Rightarrow> nat \<Rightarrow> sys \<Rightarrow> sys option" where
  "advance E i s =
     (if length (threads s) \<le> i then None
      else case threads s ! i of
        (q, Ready) \<Rightarrow>
          Some (case dispatch E q (eng s) of
                  Inl a \<Rightarrow> finish i [] a s
                | Inr p \<Rightarrow> next_lock i p [] (ordered i p) s)
      | (q, Acquiring p hs n k todo) \<Rightarrow>
          if granted (lock_for (table s) n) k then Some (next_lock i p (hs @ [(n, k)]) todo s)
          else None
      | (q, Holding p hs) \<Rightarrow> Some (finish i hs (crit_end E p (eng s)) s)
      | (q, Finished r) \<Rightarrow> None)"

fun done_with :: "phase \<Rightarrow> outcome option" where
  "done_with (Finished r) = Some r"
| "done_with ph = None"

abbreviation phase_of :: "sys \<Rightarrow> nat \<Rightarrow> phase" where
  "phase_of s i \<equiv> snd (threads s ! i)"

definition start :: "engine \<Rightarrow> request list \<Rightarrow> sys" where
  "start e qs = \<lparr>eng = e, table = [], threads = map (\<lambda>q. (q, Ready)) qs\<rparr>"

text \<open>
  \<open>execution E s sched order t\<close>: resuming the threads of \<open>sched\<close> one after the other leads from
  \<open>s\<close> to \<open>t\<close>, and the threads of \<open>order\<close> finished on the way, in this order.
\<close>

inductive execution :: "env \<Rightarrow> sys \<Rightarrow> nat list \<Rightarrow> nat list \<Rightarrow> sys \<Rightarrow> bool" for E s where
  idle: "execution E s [] [] s"
| resume: "execution E s sched order t \<Longrightarrow> advance E i t = Some u \<Longrightarrow>
    execution E s (sched @ [i]) (if done_with (phase_of u i) = None then order else order @ [i]) u"

inductive_cases execution_NilE [elim!]: "execution E s [] order t"
inductive_cases execution_snocE: "execution E s (sched @ [i]) order t"

text \<open>The same as a function of the schedule, to evaluate examples.\<close>

fun run :: "env \<Rightarrow> nat list \<Rightarrow> nat list \<Rightarrow> sys \<Rightarrow> (nat list \<times> sys) option" where
  "run E [] order s = Some (order, s)"
| "run E (i # sched) order s =
     (case advance E i s of None \<Rightarrow> None
      | Some t \<Rightarrow> run E sched (if done_with (phase_of t i) = None then order else order @ [i]) t)"

lemma run_execution:
  "execution E s sched0 order0 t \<Longrightarrow> run E sched order0 t = Some (order, u) \<Longrightarrow>
   execution E s (sched0 @ sched) order u"
proof (induction sched arbitrary: sched0 order0 t)
  case (Cons i sched)
  then obtain v where v: "advance E i t = Some v"
      "run E sched (if done_with (phase_of v i) = None then order0 else order0 @ [i]) v = Some (order, u)"
    by (auto split: option.splits)
  show ?case using Cons.IH [OF execution.resume [OF Cons.prems(1) v(1)] v(2)] by simp
qed simp

section \<open>The steps\<close>

lemma set_phase_simps [simp]:
  "eng (set_phase i ph s) = eng s" "table (set_phase i ph s) = table s"
  "length (threads (set_phase i ph s)) = length (threads s)"
  "i < length (threads s) \<Longrightarrow> threads (set_phase i ph s) ! i = (fst (threads s ! i), ph)"
  "j \<noteq> i \<Longrightarrow> threads (set_phase i ph s) ! j = threads s ! j"
  by (simp_all add: set_phase_def)

lemma finish_simps [simp]:
  "eng (finish i hs a s) = fst a" "table (finish i hs a s) = release_all hs (table s)"
  "length (threads (finish i hs a s)) = length (threads s)"
  "i < length (threads s) \<Longrightarrow>
     threads (finish i hs a s) ! i = (fst (threads s ! i), Finished (snd a))"
  "j \<noteq> i \<Longrightarrow> threads (finish i hs a s) ! j = threads s ! j"
  by (simp_all add: finish_def set_phase_def)

text \<open>The plan of a request does not depend on the engine's state.\<close>

definition plans :: "request \<Rightarrow> plan \<Rightarrow> bool" where
  "plans q p \<longleftrightarrow>
     (\<exists>k. q_route q = RMoney k \<and> validate k (q_headers q) (coalesce (q_body q) (JObj [])) = Inr p)"

lemma dispatch_plan: "dispatch E q s = Inr p \<longleftrightarrow> plans q p"
  by (cases rule: dispatch_cases [of E q s])
    (auto simp: plans_def dispatch_def reconcile_route_def split: route.splits option.splits sum.splits)

lemma plans_amount: "plans q p \<Longrightarrow> 0 < p_amount p"
  by (auto simp: plans_def dest: validate_InrD(2))

lemma handle_plan: "plans q p \<Longrightarrow> handle E q s = critical E p s"
  using dispatch_plan [of E q s p] by (simp add: handle_def)

fun owned :: "phase \<Rightarrow> (lock_name \<times> nat) list" where
  "owned Ready = []"
| "owned (Acquiring p hs n k todo) = hs @ [(n, k)]"
| "owned (Holding p hs) = hs"
| "owned (Finished r) = []"

text \<open>
  The steps of a thread, by what they do to its phase: it is answered at once, it asks for a
  lock, it is answered or starts to work when it has all locks, it ends its work.
\<close>

lemma advance_cases:
  assumes "advance E i s = Some t"
  obtains (answered) q a where "i < length (threads s)" "threads s ! i = (q, Ready)"
      "dispatch E q (eng s) = Inl a" "t = finish i [] a s"
  | (first) q p n ns where "i < length (threads s)" "threads s ! i = (q, Ready)" "plans q p"
      "ordered i p = n # ns" "t = next_lock i p [] (n # ns) s"
  | (another) q p hs n k n' ns where "i < length (threads s)"
      "threads s ! i = (q, Acquiring p hs n k (n' # ns))" "granted (lock_for (table s) n) k"
      "t = next_lock i p (hs @ [(n, k)]) (n' # ns) s"
  | (refused) q p hs n k r where "i < length (threads s)"
      "threads s ! i = (q, Acquiring p hs n k [])" "granted (lock_for (table s) n) k"
      "crit_begin p (eng s) = Some r" "t = finish i (hs @ [(n, k)]) (eng s, Returned r) s"
  | (enters) q p hs n k where "i < length (threads s)"
      "threads s ! i = (q, Acquiring p hs n k [])" "granted (lock_for (table s) n) k"
      "crit_begin p (eng s) = None" "t = set_phase i (Holding p (hs @ [(n, k)])) s"
  | (leaves) q p hs where "i < length (threads s)" "threads s ! i = (q, Holding p hs)"
      "t = finish i hs (crit_end E p (eng s)) s"
proof -
  obtain q ph where th: "threads s ! i = (q, ph)" by (cases "threads s ! i")
  have i: "i < length (threads s)" using assms by (auto simp: advance_def split: if_splits)
  show ?thesis
  proof (cases ph)
    case Ready
    show ?thesis
    proof (cases "dispatch E q (eng s)")
      case (Inl a)
      then show ?thesis using answered th i Ready assms by (simp add: advance_def)
    next
      case (Inr p)
      obtain n ns where "ordered i p = n # ns" using length_ordered(1) [of i p] by (cases "ordered i p") auto
      then show ?thesis
        using first th i Ready assms Inr dispatch_plan [of E q "eng s" p] by (simp add: advance_def)
    qed
  next
    case (Acquiring p hs n k todo)
    then have "granted (lock_for (table s) n) k" "t = next_lock i p (hs @ [(n, k)]) todo s"
      using th i assms by (auto simp: advance_def split: if_splits)
    then show ?thesis
      using th i Acquiring another refused enters
      by (cases todo; cases "crit_begin p (eng s)") (simp_all add: next_lock_def)
  qed (use th i assms leaves in \<open>simp_all add: advance_def\<close>)
qed

section \<open>Which thread has which ticket\<close>

text \<open>
  The tickets in the queues are those of the threads, each of one thread only. Stated for any
  table and any assignment of tickets, so that the steps are function updates.
\<close>

definition matched :: "lock_table \<Rightarrow> (nat \<Rightarrow> (lock_name \<times> nat) list) \<Rightarrow> bool" where
  "matched tab own \<longleftrightarrow>
     (\<forall>n k. k \<in> set (pending (lock_for tab n)) \<longleftrightarrow> (\<exists>i. (n, k) \<in> set (own i))) \<and>
     (\<forall>n k i j. (n, k) \<in> set (own i) \<longrightarrow> (n, k) \<in> set (own j) \<longrightarrow> i = j)"

definition all_granted :: "lock_table \<Rightarrow> (lock_name \<times> nat) list \<Rightarrow> bool" where
  "all_granted tab hs \<longleftrightarrow> (\<forall>(n, k) \<in> set hs. granted (lock_for tab n) k)"

lemma matchedD: "matched tab own \<Longrightarrow> (n, k) \<in> set (own i) \<Longrightarrow> k \<in> set (pending (lock_for tab n))"
  by (auto simp: matched_def)

lemma matched_unique:
  "matched tab own \<Longrightarrow> (n, k) \<in> set (own i) \<Longrightarrow> (n, k) \<in> set (own j) \<Longrightarrow> i = j"
  unfolding matched_def by blast

lemma matched_take:
  assumes "matched tab own"
  shows "matched (map_set n (snd (lock (lock_for tab n))) tab)
           (own(i := own i @ [(n, fst (lock (lock_for tab n)))]))"
proof -
  let ?k = "fst (lock (lock_for tab n))"
  let ?own = "own(i := own i @ [(n, ?k)])"
  have new: "(n, ?k) \<notin> set (own j)" for j
    using matchedD [OF assms, of n ?k j] mutex.ticket_new by blast
  have own: "(n', k') \<in> set (?own j) \<longleftrightarrow> (n', k') \<in> set (own j) \<or> j = i \<and> n' = n \<and> k' = ?k" for n' k' j
    by auto
  have "k' \<in> set (pending (lock_for (map_set n (snd (lock (lock_for tab n))) tab) n')) \<longleftrightarrow>
      k' \<in> set (pending (lock_for tab n')) \<or> n' = n \<and> k' = ?k" for n' k'
    by (auto simp: mutex.queue_take)
  then show ?thesis
    using assms new unfolding matched_def own by blast
qed

lemma matched_release:
  "matched tab own \<Longrightarrow> matched (release_all (own i) tab) (own(i := []))"
  unfolding matched_def pending_release_all by (auto split: if_splits)

lemma granted_take:
  assumes "matched tab own" and "set hs \<subseteq> set (own j)" and "all_granted tab hs"
  shows "all_granted (map_set n (snd (lock (lock_for tab n))) tab) hs"
  using assms matchedD [OF assms(1)] mutex.enter_after_take
  unfolding all_granted_def by (fastforce split: prod.splits)

lemma granted_release:
  assumes m: "matched tab own" and hs: "set hs \<subseteq> set (own j)" and g: "all_granted tab hs" and ij: "i \<noteq> j"
  shows "all_granted (release_all (own i) tab) hs"
proof -
  { fix n k assume nk: "(n, k) \<in> set hs"
    let ?q = "pending (lock_for tab n)"
    have own: "(n, k) \<in> set (own j)" using nk hs by blast
    have k: "k \<in> set ?q" using matchedD [OF m own] .
    have "granted (lock_for tab n) k" using g nk by (auto simp: all_granted_def)
    then have "hd ?q = k" using mutex.enter_head [OF k] by simp
    then obtain ks where q: "?q = k # ks" using k by (cases ?q) auto
    have "(n, k) \<notin> set (own i)" using matched_unique [OF m own] ij by blast
    then have "pending (lock_for (release_all (own i) tab) n) = k # filter (\<lambda>k. (n, k) \<notin> set (own i)) ks"
      by (simp add: pending_release_all q)
    then have "granted (lock_for (release_all (own i) tab) n) k"
      by (simp add: mutex.enter_head) }
  then show ?thesis by (auto simp: all_granted_def)
qed

section \<open>The invariant of the running system\<close>

definition own :: "sys \<Rightarrow> nat \<Rightarrow> (lock_name \<times> nat) list" where
  "own s i = (if i < length (threads s) then owned (phase_of s i) else [])"

text \<open>
  A waiting thread holds granted locks, and held, awaited and remaining names are \<open>ordered\<close>;
  a working one holds all its locks, and what it found before its delay is still so.
\<close>

fun thread_ok :: "engine \<Rightarrow> lock_table \<Rightarrow> nat \<Rightarrow> request \<Rightarrow> phase \<Rightarrow> bool" where
  "thread_ok e tab i q (Acquiring p hs n k todo) \<longleftrightarrow>
     plans q p \<and> all_granted tab hs \<and> map fst hs @ n # todo = ordered i p"
| "thread_ok e tab i q (Holding p hs) \<longleftrightarrow>
     plans q p \<and> all_granted tab hs \<and> map fst hs = ordered i p \<and> crit_begin p e = None"
| "thread_ok e tab i q ph \<longleftrightarrow> True"

definition well_locked :: "sys \<Rightarrow> bool" where
  "well_locked s \<longleftrightarrow> matched (table s) (own s) \<and>
     (\<forall>i < length (threads s). thread_ok (eng s) (table s) i (fst (threads s ! i)) (phase_of s i))"

lemma own_simps [simp]:
  "i < length (threads s) \<Longrightarrow> own (set_phase i ph s) = (own s)(i := owned ph)"
  "i < length (threads s) \<Longrightarrow> own (finish i hs a s) = (own s)(i := [])"
  "own (s\<lparr>table := tab\<rparr>) = own s"
  by (auto simp: own_def fun_eq_iff finish_def set_phase_def nth_list_update)

lemma own_thread: "i < length (threads s) \<Longrightarrow> threads s ! i = (q, ph) \<Longrightarrow> own s i = owned ph"
  by (simp add: own_def)

lemma all_granted_simps [simp]:
  "all_granted tab []"
  "all_granted tab (hs @ [(n, k)]) \<longleftrightarrow> all_granted tab hs \<and> granted (lock_for tab n) k"
  by (auto simp: all_granted_def)

text \<open>Two threads do not hold the same lock.\<close>

lemma granted_exclusive:
  assumes m: "matched tab ow" and i: "(n, j) \<in> set (ow i)" "granted (lock_for tab n) j"
    and i': "(n, k) \<in> set (ow i')" "granted (lock_for tab n) k"
  shows "i = i'"
proof -
  have "j = k"
    using mutex.exclusive matchedD [OF m i(1)] matchedD [OF m i'(1)] i(2) i'(2) by blast
  then show ?thesis using matched_unique [OF m] i(1) i'(1) by blast
qed

lemma holding_disjoint:
  assumes s: "well_locked s" and i: "i < length (threads s)" "threads s ! i = (q, Holding p hs)"
    and j: "j < length (threads s)" "threads s ! j = (q', Holding p' hs')" and ij: "i \<noteq> j"
  shows "set (ordered i p) \<inter> set (ordered j p') = {}"
proof (rule ccontr)
  have ok: "all_granted (table s) hs" "map fst hs = ordered i p"
      "all_granted (table s) hs'" "map fst hs' = ordered j p'"
    using s i j by (fastforce simp: well_locked_def)+
  assume "\<not> ?thesis"
  then obtain n where "n \<in> fst ` set hs" "n \<in> fst ` set hs'"
    by (metis IntE ex_in_conv ok(2,4) set_map)
  then obtain k k' where "(n, k) \<in> set hs" "(n, k') \<in> set hs'" by auto
  moreover have "matched (table s) (own s)" using s by (simp add: well_locked_def)
  ultimately have "i = j"
    using granted_exclusive [of "table s" "own s" n k i k' j] ok own_thread [OF i] own_thread [OF j]
    by (auto simp: all_granted_def)
  then show False using ij by simp
qed

lemma holding_other_key:
  assumes "well_locked s" "i < length (threads s)" "threads s ! i = (q, Holding p hs)"
    "j < length (threads s)" "threads s ! j = (q', Holding p' hs')" "i \<noteq> j"
  shows "p_key p \<noteq> p_key p'"
  using holding_disjoint [OF assms] idem_in_ordered [of p i] idem_in_ordered [of p' j]
  by auto

text \<open>No account of one of them is an account of the other.\<close>

lemma holding_other_account:
  assumes "well_locked s" "i < length (threads s)" "threads s ! i = (q, Holding p hs)"
    "j < length (threads s)" "threads s ! j = (q', Holding p' hs')" "i \<noteq> j"
    and v: "v \<in> {p_from p, p_to p}" "truthy v" and w: "w \<in> {p_from p', p_to p'}"
  shows "\<not> strict_eq v w"
proof
  assume "strict_eq v w"
  then have "w = v" "name_of k slot v = Prim v" for k slot
    by (auto simp: strict_eq_def name_of_def split: jsval.splits)
  then have "Prim v \<in> set (ordered i p)" "Prim v \<in> set (ordered j p')"
    using v w by (auto simp: set_ordered lock_names_def)
  then show False using holding_disjoint [OF assms(1-6)] by blast
qed

lemma holding_plans:
  assumes "well_locked s" "i < length (threads s)" "threads s ! i = (q, Holding p hs)"
  shows "plans q p"
  using assms by (force simp: well_locked_def)

text \<open>What one thread does to the engine does not disturb a working thread.\<close>

lemma crit_begin_None_iff:
  "crit_begin p s = None \<longleftrightarrow>
   map_get (idem s) (p_key p) = None \<and> \<not> missing s (p_from p) \<and> \<not> missing s (p_to p)"
  by (auto simp: crit_begin_def split: option.split)

lemma missing_mono:
  "set (map_keys (wallets s)) \<subseteq> set (map_keys (wallets t)) \<Longrightarrow> missing t v \<Longrightarrow> missing s v"
  by (auto simp: missing_def get_wallet_def jsmap.get_None_iff split: jsval.splits)

lemma crit_begin_stable:
  assumes "crit_begin p s = None" and "map_get (idem t) (p_key p) = map_get (idem s) (p_key p)"
    and "set (map_keys (wallets s)) \<subseteq> set (map_keys (wallets t))"
  shows "crit_begin p t = None"
  using assms missing_mono [OF assms(3)] by (auto simp: crit_begin_None_iff)

lemma dispatch_stable:
  assumes "dispatch E q s = Inl a"
  shows "idem (fst a) = idem s" and "set (map_keys (wallets s)) \<subseteq> set (map_keys (wallets (fst a)))"
proof -
  have "idem (fst a) = idem s \<and> set (map_keys (wallets s)) \<subseteq> set (map_keys (wallets (fst a)))"
  proof (cases rule: dispatch_cases [of E q s])
    case create
    then show ?thesis
      using assms by (cases rule: create_wallet_cases [of E "q_body q" s]) (auto simp: jsmap.keys_put)
  qed (use assms in auto)
  then show "idem (fst a) = idem s" "set (map_keys (wallets s)) \<subseteq> set (map_keys (wallets (fst a)))"
    by simp_all
qed

lemma crit_end_other_key:
  "key \<noteq> p_key p \<Longrightarrow> map_get (idem (fst (crit_end E p s))) key = map_get (idem s) key"
  by (cases rule: crit_end_cases [of E p s]) (simp_all add: post_tx_fields jsmap.get_put)

text \<open>The invariant is kept when one thread moves and the others keep their locks and their findings.\<close>

lemma well_lockedI:
  assumes s: "well_locked s" and len: "length (threads t) = length (threads s)"
    and other: "\<And>j. j \<noteq> i \<Longrightarrow> threads t ! j = threads s ! j"
    and m: "matched (table t) (own t)"
    and grant: "\<And>j hs. j \<noteq> i \<Longrightarrow> set hs \<subseteq> set (own s j) \<Longrightarrow> all_granted (table s) hs \<Longrightarrow>
      all_granted (table t) hs"
    and crit: "\<And>j q p hs. j \<noteq> i \<Longrightarrow> j < length (threads s) \<Longrightarrow> threads s ! j = (q, Holding p hs) \<Longrightarrow>
      crit_begin p (eng s) = None \<Longrightarrow> crit_begin p (eng t) = None"
    and mine: "thread_ok (eng t) (table t) i (fst (threads t ! i)) (phase_of t i)"
  shows "well_locked t"
proof -
  { fix j assume j: "j < length (threads s)" "j \<noteq> i"
    obtain q ph where th: "threads s ! j = (q, ph)" by (cases "threads s ! j")
    have ok: "thread_ok (eng s) (table s) j q ph" using s j th by (fastforce simp: well_locked_def)
    have "thread_ok (eng t) (table t) j q ph"
    proof (cases ph)
      case (Acquiring p hs n k todo)
      then show ?thesis
        using ok grant [of j hs] j own_thread [OF j(1) th] by auto
    next
      case (Holding p hs)
      then show ?thesis
        using ok grant [of j hs] crit [of j q p hs] j own_thread [OF j(1) th] th by auto
    qed simp_all
    then have "thread_ok (eng t) (table t) j (fst (threads t ! j)) (phase_of t j)"
      using other [OF j(2)] th by simp }
  then show ?thesis using m mine len by (metis well_locked_def)
qed

lemma well_locked_ask:
  assumes s: "well_locked s" and i: "i < length (threads s)" "threads s ! i = (q, ph)" "owned ph = hs"
    and p: "plans q p" "all_granted (table s) hs" "map fst hs @ n # ns = ordered i p"
  shows "well_locked (next_lock i p hs (n # ns) s)"
proof -
  define k m where km: "k = fst (lock (lock_for (table s) n))" "m = snd (lock (lock_for (table s) n))"
  let ?t = "set_phase i (Acquiring p hs n k ns) (s\<lparr>table := map_set n m (table s)\<rparr>)"
  have mt: "matched (table s) (own s)" using s by (simp add: well_locked_def)
  have own: "own s i = hs" using own_thread [OF i(1,2)] i(3) by simp
  have "well_locked ?t"
  proof (rule well_lockedI [OF s, of _ i])
    show "matched (table ?t) (own ?t)"
      using matched_take [OF mt, of n i] i(1) by (simp add: km own)
    show "all_granted (table ?t) hs'" if "set hs' \<subseteq> set (own s j)" "all_granted (table s) hs'" for j hs'
      using granted_take [OF mt that] by (simp add: km)
    then have "all_granted (table ?t) hs" using own p(2) by blast
    then show "thread_ok (eng ?t) (table ?t) i (fst (threads ?t ! i)) (phase_of ?t i)"
      using i p by simp
  qed (use i in simp_all)
  then show ?thesis by (simp add: next_lock_def km split_beta)
qed

lemma well_locked_finish:
  assumes s: "well_locked s" and i: "i < length (threads s)" "threads s ! i = (q, ph)" "owned ph = hs"
    and crit: "\<And>j q p hs. j \<noteq> i \<Longrightarrow> j < length (threads s) \<Longrightarrow> threads s ! j = (q, Holding p hs) \<Longrightarrow>
      crit_begin p (eng s) = None \<Longrightarrow> crit_begin p (fst a) = None"
  shows "well_locked (finish i hs a s)"
proof -
  have mt: "matched (table s) (own s)" using s by (simp add: well_locked_def)
  have own: "own s i = hs" using own_thread [OF i(1,2)] i(3) by simp
  show ?thesis
  proof (rule well_lockedI [OF s, of _ i])
    show "matched (table (finish i hs a s)) (own (finish i hs a s))"
      using matched_release [OF mt, of i] i(1) by (simp add: own)
    show "all_granted (table (finish i hs a s)) hs'"
      if "j \<noteq> i" "set hs' \<subseteq> set (own s j)" "all_granted (table s) hs'" for j hs'
      using granted_release [OF mt that(2,3), of i] that(1) by (simp add: own)
  qed (use i crit in simp_all)
qed

lemma advance_well_locked:
  assumes s: "well_locked s" and adv: "advance E i s = Some t"
  shows "well_locked t"
  using adv
proof (cases rule: advance_cases)
  case (answered q a)
  show ?thesis
    unfolding answered(4)
    using well_locked_finish [OF s answered(1,2)] dispatch_stable [OF answered(3)] crit_begin_stable
    by simp
next
  case (first q p n ns)
  then show ?thesis using well_locked_ask [OF s first(1,2), of "[]" p n ns] by simp
next
  case (another q p hs n k n' ns)
  then have "thread_ok (eng s) (table s) i q (Acquiring p hs n k (n' # ns))"
    using s by (fastforce simp: well_locked_def)
  then show ?thesis
    using well_locked_ask [OF s another(1,2), of "hs @ [(n, k)]" p n' ns] another by simp
next
  case (refused q p hs n k r)
  then show ?thesis using well_locked_finish [OF s refused(1,2)] by simp
next
  case (enters q p hs n k)
  then have "thread_ok (eng s) (table s) i q (Acquiring p hs n k [])"
    using s by (fastforce simp: well_locked_def)
  moreover have "own (set_phase i (Holding p (hs @ [(n, k)])) s) = own s"
    using enters(1) own_thread [OF enters(1,2)] by (simp add: fun_upd_idem)
  ultimately show ?thesis
    unfolding enters(5) using s enters(1-4)
    by (intro well_lockedI [OF s, of _ i]) (simp_all add: well_locked_def)
next
  case (leaves q p hs)
  have "map_get (idem (fst (crit_end E p (eng s)))) (p_key p') = map_get (idem (eng s)) (p_key p')"
    if "j \<noteq> i" "j < length (threads s)" "threads s ! j = (q', Holding p' hs')" for j q' p' hs'
    using crit_end_other_key holding_other_key [OF s that(2,3) leaves(1,2) that(1)] by simp
  then show ?thesis
    unfolding leaves(3)
    by (intro well_locked_finish [OF s leaves(1,2)])
      (auto intro: crit_begin_stable simp: crit_end_keys)
qed

lemma start_well_locked [simp]: "well_locked (start e qs)"
proof -
  have "own (start e qs) i = []" for i by (simp add: own_def start_def)
  then show ?thesis
    by (simp add: well_locked_def start_def matched_def mutex.queue_fresh own_def)
qed

lemma execution_well_locked: "execution E s sched order t \<Longrightarrow> well_locked s \<Longrightarrow> well_locked t"
  by (induction rule: execution.induct) (auto intro: advance_well_locked)

section \<open>Every execution does the work of a sequential one\<close>

lemma serve_all_snoc:
  "serve_all E (qs @ [q]) e =
   (let (e1, rs) = serve_all E qs e; (e2, r) = handle E q e1 in (e2, rs @ [r]))"
  by (induction qs arbitrary: e) (simp_all add: split_beta Let_def)

lemma advance_frame:
  assumes "advance E i s = Some t"
  shows "i < length (threads s)" and "length (threads t) = length (threads s)"
    and "j \<noteq> i \<Longrightarrow> threads t ! j = threads s ! j" and "fst (threads t ! i) = fst (threads s ! i)"
    and "done_with (phase_of s i) = None"
  using assms
  by (cases rule: advance_cases; auto simp: next_lock_def split_beta; fail)+

text \<open>A step leaves the engine alone, or it finishes a request and does all of its work.\<close>

lemma advance_effect:
  assumes s: "well_locked s" and adv: "advance E i s = Some t"
  obtains (silent) "done_with (phase_of t i) = None" "eng t = eng s"
  | (served) r where "done_with (phase_of t i) = Some r"
      "handle E (fst (threads s ! i)) (eng s) = (eng t, r)"
  using adv
proof (cases rule: advance_cases)
  case (answered q a)
  then show ?thesis using served [of "snd a"] by (simp add: handle_def)
next
  case (first q p n ns)
  then show ?thesis using silent by (simp add: next_lock_def split_beta)
next
  case (another q p hs n k n' ns)
  then show ?thesis using silent by (simp add: next_lock_def split_beta)
next
  case (refused q p hs n k r)
  then have "plans q p" using s by (fastforce simp: well_locked_def)
  then show ?thesis using refused served [of "Returned r"] by (simp add: handle_plan [of q p] critical_def)
next
  case (enters q p hs n k)
  then show ?thesis using silent by simp
next
  case (leaves q p hs)
  then have "plans q p \<and> crit_begin p (eng s) = None" using s by (fastforce simp: well_locked_def)
  then have "handle E q (eng s) = crit_end E p (eng s)" by (simp add: handle_plan [of q p] critical_def)
  then show ?thesis using leaves served [of "snd (crit_end E p (eng s))"] by simp
qed

definition outcome_of :: "sys \<Rightarrow> nat \<Rightarrow> outcome" where
  "outcome_of s i = the (done_with (phase_of s i))"

lemma execution_serial:
  assumes "execution E (start e qs) sched order t"
  shows "length (threads t) = length qs \<and> (\<forall>i < length qs. fst (threads t ! i) = qs ! i) \<and>
    distinct order \<and> set order = {i. i < length qs \<and> done_with (phase_of t i) \<noteq> None} \<and>
    serve_all E (map ((!) qs) order) e = (eng t, map (outcome_of t) order)"
  using assms
proof (induction rule: execution.induct)
  case idle
  then show ?case by (auto simp: start_def)
next
  case (resume sched order t i u)
  note fr = advance_frame [OF resume(2)]
  have wl: "well_locked t" using execution_well_locked [OF resume(1)] by simp
  have len: "length (threads u) = length qs" using resume.IH fr(2) by simp
  have fst: "\<forall>j < length qs. fst (threads u ! j) = qs ! j"
    using resume.IH fr(3,4) by metis
  have same: "outcome_of u j = outcome_of t j" if "j \<in> set order" for j
    using that resume.IH fr(3,5) by (cases "j = i") (auto simp: outcome_of_def)
  have serial: "serve_all E (map ((!) qs) order) e = (eng t, map (outcome_of u) order)"
    using resume.IH same by simp
  have q: "fst (threads t ! i) = qs ! i" using resume.IH fr(1) by simp
  have i: "i \<notin> set order" using resume.IH fr(5) by auto
  have dom: "{j. j < length qs \<and> done_with (phase_of u j) \<noteq> None} =
      set order \<union> (if done_with (phase_of u i) = None then {} else {i})"
    using resume.IH fr(1,3,5) by (auto, metis+)
  show ?case
    using wl resume(2)
  proof (cases rule: advance_effect)
    case silent
    then show ?thesis using len fst dom serial resume.IH by auto
  next
    case (served r)
    then have "serve_all E (map ((!) qs) (order @ [i])) e = (eng u, map (outcome_of u) (order @ [i]))"
      using serial q by (simp add: serve_all_snoc outcome_of_def)
    then show ?thesis using len fst dom i served resume.IH by auto
  qed
qed

section \<open>No deadlock, and an end\<close>

text \<open>The steps a thread still has to make, at most.\<close>

fun steps_left :: "phase \<Rightarrow> nat" where
  "steps_left Ready = 5"
| "steps_left (Acquiring p hs n k todo) = 2 + length todo"
| "steps_left (Holding p hs) = 1"
| "steps_left (Finished r) = 0"

definition work_left :: "sys \<Rightarrow> nat" where
  "work_left s = (\<Sum>i < length (threads s). steps_left (phase_of s i))"

lemma advance_steps_left:
  assumes "advance E i s = Some t"
  shows "steps_left (phase_of t i) < steps_left (phase_of s i)"
  using assms
proof (cases rule: advance_cases)
  case (first q p n ns)
  then have "length ns \<le> 2" using length_ordered(2) [of i p] by simp
  then show ?thesis using first by (simp add: next_lock_def split_beta)
qed (auto simp: next_lock_def split_beta)

lemma advance_work_left:
  assumes adv: "advance E i s = Some t"
  shows "work_left t < work_left s"
proof -
  note fr = advance_frame [OF adv]
  have "(\<Sum>j \<in> {..<length (threads s)} - {i}. steps_left (phase_of t j)) =
        (\<Sum>j \<in> {..<length (threads s)} - {i}. steps_left (phase_of s j))"
    by (rule sum.cong) (auto simp: fr(3))
  then show ?thesis
    using advance_steps_left [OF adv] fr(1)
    by (simp add: work_left_def fr(2) sum.remove [of "{..<length (threads s)}" i])
qed

lemma execution_bound: "execution E s sched order t \<Longrightarrow> length sched + work_left t \<le> work_left s"
  by (induction rule: execution.induct) (auto dest: advance_work_left)

lemma work_left_start [simp]: "work_left (start e qs) = 5 * length qs"
  by (simp add: work_left_def start_def)

text \<open>A thread that cannot go on waits for a lock that another thread holds.\<close>

definition all_finished :: "sys \<Rightarrow> bool" where
  "all_finished s \<longleftrightarrow> list_all (\<lambda>(q, ph). done_with ph \<noteq> None) (threads s)"

definition stuck :: "env \<Rightarrow> sys \<Rightarrow> bool" where
  "stuck E s \<longleftrightarrow> (\<forall>i < length (threads s). advance E i s = None)"

lemma stuck_waits:
  assumes "stuck E s" and "i < length (threads s)" and "done_with (phase_of s i) = None"
  obtains q p hs n k todo where "threads s ! i = (q, Acquiring p hs n k todo)"
    "\<not> granted (lock_for (table s) n) k"
proof -
  have "advance E i s = None" using assms by (simp add: stuck_def)
  then show ?thesis
    using assms(2,3) that
    by (cases "threads s ! i"; cases "phase_of s i") (auto simp: advance_def split: if_splits)
qed

lemma stuck_blocker:
  assumes s: "well_locked s" and stuck: "stuck E s" and i: "i < length (threads s)"
    and w: "threads s ! i = (q, Acquiring p hs n k todo)"
  obtains j q' p' hs' n' k' todo' where "j < length (threads s)"
    "threads s ! j = (q', Acquiring p' hs' n' k' todo')" "n \<in> fst ` set hs'"
proof -
  have m: "matched (table s) (own s)" using s by (simp add: well_locked_def)
  let ?q = "pending (lock_for (table s) n)"
  have "k \<in> set ?q" using matchedD [OF m, of n k i] own_thread [OF i w] by simp
  then have hd: "hd ?q \<in> set ?q" "granted (lock_for (table s) n) (hd ?q)"
    using mutex.head_enters [of "lock_for (table s) n"] by (cases ?q; fastforce)+
  then obtain j where own: "(n, hd ?q) \<in> set (own s j)"
    using m unfolding matched_def by blast
  then have j: "j < length (threads s)" "(n, hd ?q) \<in> set (owned (phase_of s j))"
    by (auto simp: own_def split: if_splits)
  then have "done_with (phase_of s j) = None" by (cases "phase_of s j") auto
  then obtain q' p' hs' n' k' todo' where t: "threads s ! j = (q', Acquiring p' hs' n' k' todo')"
      "\<not> granted (lock_for (table s) n') k'"
    using stuck_waits [OF stuck j(1)] by metis
  then have "(n, hd ?q) \<in> set hs'" using j(2) hd(2) by auto
  then show ?thesis using that [OF j(1) t(1)] by force
qed

text \<open>
  With string identifiers the awaited names grow along the chain of blockers, so it ends at a
  thread that may go on.
\<close>

lemma waiting_order:
  assumes s: "well_locked s" and i: "i < length (threads s)"
    and w: "threads s ! i = (q, Acquiring p hs n k todo)" and p: "string_ids p" and h: "h \<in> fst ` set hs"
  shows "name_text h < name_text n"
proof -
  have o: "map fst hs @ n # todo = ordered i p" using s i w by (fastforce simp: well_locked_def)
  have "sorted (map name_text (map fst hs @ n # todo))" using ordered_strict(1) [OF p, of i] o by simp
  then have le: "name_text h \<le> name_text n" using h by (auto simp: sorted_append)
  have "h \<noteq> n" using distinct_ordered [of i p] h unfolding o [symmetric] by auto
  moreover have "h \<in> set (ordered i p)" "n \<in> set (ordered i p)" using h by (auto simp flip: o)
  ultimately have "name_text h \<noteq> name_text n"
    using ordered_strict(2) [OF p, of i] by (auto simp: inj_on_def)
  then show ?thesis using le by (simp add: order_less_le)
qed

definition typed :: "request \<Rightarrow> bool" where
  "typed q \<longleftrightarrow> (\<forall>p. plans q p \<longrightarrow> string_ids p)"

lemma not_stuck:
  assumes s: "well_locked s" and ty: "\<forall>(q, ph) \<in> set (threads s). typed q" and stuck: "stuck E s"
  shows "all_finished s"
proof (rule ccontr)
  define waits where "waits = {(i, n). i < length (threads s) \<and>
    (\<exists>q p hs k todo. threads s ! i = (q, Acquiring p hs n k todo))}"
  assume "\<not> all_finished s"
  then obtain i where i: "i < length (threads s)" "done_with (phase_of s i) = None"
    by (fastforce simp: all_finished_def list_all_length split_beta)
  then have ne: "waits \<noteq> {}" using stuck_waits [OF stuck i] by (fastforce simp: waits_def)
  have "waits \<subseteq> (\<lambda>i. (i, case phase_of s i of Acquiring p hs n k todo \<Rightarrow> n)) ` {..<length (threads s)}"
    by (auto simp: waits_def intro!: image_eqI)
  then have fin: "finite ((\<lambda>(i, n). name_text n) ` waits)"
    by (meson finite_imageI finite_lessThan finite_subset)
  obtain j n where j: "(j, n) \<in> waits" "name_text n = Max ((\<lambda>(i, n). name_text n) ` waits)"
    using Max_in [OF fin] ne by fastforce
  then obtain q p hs k todo where w: "j < length (threads s)" "threads s ! j = (q, Acquiring p hs n k todo)"
    by (auto simp: waits_def)
  obtain l q' p' hs' n' k' todo' where l: "l < length (threads s)"
      "threads s ! l = (q', Acquiring p' hs' n' k' todo')" "n \<in> fst ` set hs'"
    using stuck_blocker [OF s stuck w] by metis
  have "plans q' p'" using s l by (fastforce simp: well_locked_def)
  moreover have "typed q'" using ty l(1,2) nth_mem [OF l(1)] by fastforce
  ultimately have "string_ids p'" by (simp add: typed_def)
  then have "name_text n < name_text n'" by (rule waiting_order [OF s l(1,2) _ l(3)])
  moreover have "name_text n' \<le> name_text n"
    unfolding j(2) by (rule Max_ge [OF fin]) (use l in \<open>force simp: waits_def\<close>)
  ultimately show False by simp
qed

text \<open>Any execution of typed requests can be continued until all are finished.\<close>

lemma execution_trans:
  "execution E t sched2 order2 u \<Longrightarrow> execution E s sched order t \<Longrightarrow>
   execution E s (sched @ sched2) (order @ order2) u"
proof (induction rule: execution.induct)
  case (resume sched2 order2 u i v)
  show ?case
    using execution.resume [OF resume.IH [OF resume.prems] resume.hyps(2)] by (auto split: if_splits)
qed simp

lemma threads_fst: "execution E s sched order t \<Longrightarrow> map fst (threads t) = map fst (threads s)"
proof (induction rule: execution.induct)
  case (resume sched order t i u)
  have "fst (threads u ! j) = fst (threads t ! j)" for j
    using advance_frame(3,4) [OF resume.hyps(2)] by (cases "j = i") auto
  then show ?case
    using resume.IH advance_frame(2) [OF resume.hyps(2)] by (simp add: list_eq_iff_nth_eq)
qed simp

lemma can_finish:
  assumes "well_locked s" and "\<forall>q \<in> set (map fst (threads s)). typed q"
  shows "\<exists>sched order t. execution E s sched order t \<and> all_finished t"
  using assms
proof (induction "work_left s" arbitrary: s rule: less_induct)
  case less
  show ?case
  proof (cases "stuck E s")
    case True
    have "all_finished s" by (rule not_stuck [OF less.prems(1) _ True]) (use less.prems(2) in auto)
    then show ?thesis using execution.idle by blast
  next
    case False
    then obtain i t where adv: "advance E i s = Some t" by (auto simp: stuck_def)
    have step: "execution E s [i] (if done_with (phase_of t i) = None then [] else [i]) t"
      using execution.resume [OF execution.idle adv] by (auto split: if_splits)
    then have "\<forall>q \<in> set (map fst (threads t)). typed q" using less.prems(2) threads_fst [OF step] by simp
    then show ?thesis
      using less.hyps [OF advance_work_left [OF adv] advance_well_locked [OF less.prems(1) adv]]
        execution_trans [OF _ step] by blast
  qed
qed

end
