(* ===== verification/Idempotency.thy ===== *)
theory Idempotency
  imports Concurrency
begin

text \<open>
  What a client may rely on over time: an accepted movement is recorded under its key for good,
  so a retry with the same payload gets the recorded response and a different payload under
  the same key is rejected, whatever happened in between. Errors leave the books as they are,
  and executions from the seeded engine are sound.
\<close>

section \<open>Records and wallets stay\<close>

lemma crit_end_idem_keep:
  assumes "crit_begin p s = None" and "map_get (idem s) key = Some r"
  shows "map_get (idem (fst (crit_end E p s))) key = Some r"
proof -
  have "key \<noteq> p_key p" using assms by (auto simp: crit_begin_None_iff)
  then show ?thesis using crit_end_other_key assms(2) by simp
qed

lemma critical_idem_keep:
  "map_get (idem s) key = Some r \<Longrightarrow> map_get (idem (fst (critical E p s))) key = Some r"
  by (auto simp: critical_def crit_end_idem_keep split: option.split)

lemma critical_keys: "map_keys (wallets (fst (critical E p s))) = map_keys (wallets s)"
  by (auto simp: critical_def crit_end_keys split: option.split)

lemma serve_keep:
  "map_get (idem s) key = Some r \<Longrightarrow> map_get (idem (serve E q s)) key = Some r"
  "set (map_keys (wallets s)) \<subseteq> set (map_keys (wallets (serve E q s)))"
proof -
  show "map_get (idem s) key = Some r \<Longrightarrow> map_get (idem (serve E q s)) key = Some r"
    by (cases "dispatch E q s")
      (auto simp: serve_def handle_def dispatch_stable critical_idem_keep)
  show "set (map_keys (wallets s)) \<subseteq> set (map_keys (wallets (serve E q s)))"
    using dispatch_stable(2) [of E q s]
    by (cases "dispatch E q s") (simp_all add: serve_def handle_def critical_keys)
qed

text \<open>The contract \<open>preserved\<close> on one record, and on one wallet.\<close>

definition recorded :: "jstr \<Rightarrow> idem_record \<Rightarrow> engine \<Rightarrow> bool" where
  "recorded key r s \<longleftrightarrow> map_get (idem s) key = Some r"

interpretation kept: preserved "serve E" "recorded key r" for E key r
  by unfold_locales (simp add: recorded_def serve_keep(1))

interpretation wallet_kept: preserved "serve E" "\<lambda>s. k \<in> set (map_keys (wallets s))" for E k
  by unfold_locales (use serve_keep(2) in blast)

section \<open>What an accepted request leaves\<close>

lemma replay_replay [simp]: "replay (replay r) = replay r"
proof -
  have "map_set k v (map_set k v m) = map_set k v m" for k v and m :: "(jstr, jstr) jsmap"
    by (induction m) auto
  then show ?thesis by (simp add: replay_def)
qed

lemma replay_simps [simp]: "r_status (replay r) = r_status r" "r_body (replay r) = r_body r"
  "map_get (r_headers (replay r)) (js ''idempotent-replayed'') = Some (js ''true'')"
  by (simp_all add: replay_def jsmap.get_put)

lemma err_simps [simp]: "r_status (err st c m) = st" "r_body (err st c m) = ErrorBody c m"
  by (simp_all add: err_def)

lemma ok_simps [simp]: "r_status (ok b st hs) = st" "r_body (ok b st hs) = b"
  by (simp_all add: ok_def)

lemma accepted_simps [simp]: "r_status (accepted p t) = 201" "r_body (accepted p t) = TxBody t"
  by (simp_all add: accepted_def)

lemma insufficient_status [simp]: "r_status (insufficient w a) = 422"
  by (simp add: insufficient_def)

lemma key_reused_status [simp]: "r_status (key_reused fp) = 422"
  by (simp add: key_reused_def)

lemma accepted_recorded:
  assumes p: "plans q p" and h: "handle E q s = (s1, Returned r)" and st: "r_status r = 201"
  obtains x where "recorded (p_key p) x s1" and "i_fingerprint x = p_fingerprint p"
    and "replay (i_response x) = replay r"
proof (cases "crit_begin p s")
  case None
  then have "crit_end E p s = (s1, Returned r)" using h handle_plan [OF p] by (simp add: critical_def)
  then show ?thesis
    using st that by (cases rule: crit_end_cases [of E p s])
      (auto simp: recorded_def post_tx_fields jsmap.get_put)
next
  case (Some r')
  then have r: "crit_begin p s = Some r" "s1 = s" using h handle_plan [OF p] by (auto simp: critical_def)
  then obtain x where "map_get (idem s) (p_key p) = Some x" "i_fingerprint x = p_fingerprint p"
      "r = replay (i_response x)"
    using st by (auto simp: crit_begin_def split: option.splits if_splits)
  then show ?thesis using that r(2) by (simp add: recorded_def)
qed

lemma recorded_answer:
  assumes "plans q p" and "recorded (p_key p) x s"
  shows "handle E q s = (s, Returned
    (if i_fingerprint x = p_fingerprint p then replay (i_response x) else key_reused (i_fingerprint x)))"
  using assms by (simp add: handle_plan [OF assms(1)] critical_def crit_begin_def recorded_def)

section \<open>Errors\<close>

definition same_books :: "engine \<Rightarrow> engine \<Rightarrow> bool" where
  "same_books s t \<longleftrightarrow> wallets s = wallets t \<and> txs s = txs t \<and> entries s = entries t \<and>
     idem s = idem t \<and> seq s = seq t \<and> last_hash s = last_hash t"

lemma same_books_refl [simp]: "same_books s s"
  and same_books_frame [simp]: "same_books (s\<lparr>ticks := m\<rparr>) s" "same_books (s\<lparr>drawn := n\<rparr>) s"
  by (simp_all add: same_books_def)

lemma crit_end_error:
  "snd (crit_end E p s) = Threw \<or> snd (crit_end E p s) = Returned r \<and> r_status r \<noteq> 201 \<Longrightarrow>
   same_books (fst (crit_end E p s)) s"
  by (cases rule: crit_end_cases [of E p s]) auto

lemma handle_error:
  assumes "snd (handle E q s) = Threw \<or> snd (handle E q s) = Returned r \<and> r_status r \<noteq> 201"
  shows "same_books (fst (handle E q s)) s"
proof (cases rule: dispatch_cases [of E q s])
  case create
  then show ?thesis
    using assms by (cases rule: create_wallet_cases [of E "q_body q" s]) (auto simp: handle_def)
next
  case (move k p)
  then show ?thesis
    using assms crit_end_error [of E p s r]
    by (auto simp: handle_def critical_def split: option.splits)
qed (use assms in \<open>simp add: handle_def\<close>)

section \<open>Executions from the seeded engine\<close>

lemma fresh_ids_mono: "fresh_ids E n \<Longrightarrow> m \<le> n \<Longrightarrow> fresh_ids E m"
  by (auto simp: fresh_ids_def inj_on_def)

lemma seed_drawn: "fresh_ids E 21 \<Longrightarrow> drawn (seed E) = 21"
  using seed_seeding [of E] by (simp add: seeding_def)

lemma fold_serve_drawn: "drawn s \<le> drawn (fold (serve E) qs s)"
proof (induction qs arbitrary: s)
  case (Cons q qs)
  show ?case using serve_drawn [of s E q] Cons [of "serve E q s"] by simp
qed simp

lemma fold_serve_sound:
  assumes "fresh_ids E N" and "21 \<le> N" and "drawn (fold (serve E) qs (seed E)) \<le> N"
  shows "sound E 6 (fold (serve E) qs (seed E))"
proof -
  have "sound_within E N 6 (seed E)"
    using seed_sound [OF fresh_ids_mono [OF assms(1,2)]] by (simp add: sound_within_def)
  then show ?thesis using served.run_inv assms(1,3) by (metis sound_within_def)
qed

lemma execution_fold:
  assumes "execution E (start e qs) sched order t"
  shows "eng t = fold (serve E) (map ((!) qs) order) e"
  using execution_serial [OF assms] serve_all_fold [of E "map ((!) qs) order" e] by simp

text \<open>A request draws at most three identifiers.\<close>

lemma serve_drawn_le: "drawn (serve E q s) \<le> drawn s + 3"
proof (cases rule: dispatch_cases [of E q s])
  case create
  then show ?thesis
    by (cases rule: create_wallet_cases [of E "q_body q" s]) (auto simp: serve_def handle_def)
next
  case (move k p)
  then show ?thesis
    by (cases "crit_begin p s"; cases rule: crit_end_cases [of E p s])
      (auto simp: serve_def handle_def critical_def post_tx_fields)
qed (simp add: serve_def handle_def)

lemma fold_serve_drawn_le: "drawn (fold (serve E) qs s) \<le> drawn s + 3 * length qs"
proof (induction qs arbitrary: s)
  case (Cons q qs)
  show ?case using serve_drawn_le [of E q s] Cons [of "serve E q s"] by simp
qed simp

lemma execution_drawn:
  assumes "execution E (start e qs) sched order t"
  shows "drawn (eng t) \<le> drawn e + 3 * length qs"
proof -
  have o: "distinct order" "set order \<subseteq> {..<length qs}" using execution_serial [OF assms] by auto
  have "length order = card (set order)" using o(1) by (simp add: distinct_card)
  also have "\<dots> \<le> length qs" using card_mono [OF finite_lessThan o(2)] by simp
  finally show ?thesis
    using fold_serve_drawn_le [of E "map ((!) qs) order" e] by (simp add: execution_fold [OF assms])
qed

text \<open>
  From the seeded engine, with identifiers for its 21 draws and three per request.
\<close>

abbreviation enough_ids :: "env \<Rightarrow> nat \<Rightarrow> bool" where
  "enough_ids E n \<equiv> fresh_ids E (21 + 3 * n)"

lemma execution_sound:
  assumes ex: "execution E (start (seed E) qs) sched order t" and E: "enough_ids E (length qs)"
  shows "sound E 6 (eng t)" and "drawn (eng t) \<le> 21 + 3 * length qs"
proof -
  have "drawn (seed E) = 21" using seed_drawn [OF fresh_ids_mono [OF E]] by simp
  then show d: "drawn (eng t) \<le> 21 + 3 * length qs" using execution_drawn [OF ex] by simp
  show "sound E 6 (eng t)"
    using fold_serve_sound [OF E, of "map ((!) qs) order"] d unfolding execution_fold [OF ex] by simp
qed

end
