(* ===== verification/Movements.thy ===== *)
theory Movements
  imports Idempotency
begin

text \<open>
  What one money request does, end by end: it is accepted and moves the amount, it is refused
  for lack of funds, for an unknown wallet or by the validation, or it throws. Stated for the
  requests the client builds (\<open>deposit\<close>, \<open>withdrawal\<close>, \<open>transfer\<close>) and on the balances of the
  abstract bank.
\<close>

section \<open>The requests of the client\<close>

definition money_request :: "tx_kind \<Rightarrow> jstr \<Rightarrow> jsval \<Rightarrow> request" where
  "money_request k key body =
     \<lparr>q_method = POST,
      q_path = (case k of Deposit \<Rightarrow> js ''/deposits'' | Withdrawal \<Rightarrow> js ''/withdrawals''
                | Transfer \<Rightarrow> js ''/transfers''),
      q_headers = [(js ''idempotency-key'', key)], q_body = body\<rparr>"

definition get_request :: "jstr \<Rightarrow> request" where
  "get_request path = \<lparr>q_method = GET, q_path = path, q_headers = [], q_body = JUndef\<rparr>"

lemma drop_js: "drop n (js s) = js (drop n s)" and take_js: "take n (js s) = js (take n s)"
  by (simp_all add: js_def drop_map take_map)

lemma money_route [simp]:
  "route_of POST (strip_prefix (js ''/api/v1'') (q_path (money_request k key body))) = RMoney k"
  by (cases k) (simp_all add: money_request_def route_of_def strip_prefix_def match_wallet_def
      kind_route_def Let_def drop_js take_js)

lemma money_request_simps [simp]:
  "q_headers (money_request k key body) = [(js ''idempotency-key'', key)]"
  "q_body (money_request k key body) = body" "q_method (money_request k key body) = POST"
  by (simp_all add: money_request_def)

definition plan_for :: "tx_kind \<Rightarrow> jstr \<Rightarrow> jsval \<Rightarrow> int \<Rightarrow> plan" where
  "plan_for k key body a =
     \<lparr>p_kind = k, p_key = key, p_fingerprint = fingerprint k body, p_amount = a,
      p_from = from_of k body, p_to = to_of k body,
      p_reference = coalesce (get_field body (js ''reference'')) (JStr [])\<rparr>"

lemma plan_for_simps [simp]:
  "p_key (plan_for k key body a) = key" "p_amount (plan_for k key body a) = a"
  "p_from (plan_for k key body a) = from_of k body" "p_to (plan_for k key body a) = to_of k body"
  "p_fingerprint (plan_for k key body a) = fingerprint k body"
  "p_kind (plan_for k key body a) = k"
  by (simp_all add: plan_for_def)

lemma coalesce_object [simp]: "coalesce (JObj fs) d = JObj fs"
  by (simp add: coalesce_def)

text \<open>A positive integral amount and, for a transfer, two different accounts make a plan.\<close>

lemma money_plan:
  assumes "key \<noteq> []" and "get_field body (js ''amount'') = JNum a" and "0 < a"
    and "k = Transfer \<longrightarrow> \<not> strict_eq (from_of k body) (to_of k body)"
  shows "plans (money_request k key body) (plan_for k key body a)"
proof -
  have "coalesce body (JObj []) = body" using assms(2) by (cases body) (simp_all add: coalesce_def)
  moreover have "validate k [(js ''idempotency-key'', key)] body = Inr (plan_for k key body a)"
    unfolding validate_def plan_for_def using assms by simp
  ultimately show ?thesis by (simp add: plans_def)
qed

section \<open>The ends of a request\<close>

lemma handle_posted:
  assumes p: "plans q p" and new: "crit_begin p s = None"
    and cov: "covered s Debit (p_from p) (p_amount p)" and some: "truthy (p_from p) \<or> truthy (p_to p)"
  obtains w where "handle E q s = (fst (post_tx E p w s), Returned (accepted p (made_tx E p w s)))"
proof -
  have h: "handle E q s = crit_end E p s"
    using new by (simp add: handle_plan [OF p] critical_def)
  show ?thesis
  proof (cases rule: crit_end_cases [of E p s])
    case (rejected w)
    then have "wallet_ref s (p_from p) \<noteq> None" "map_option snd (wallet_ref s (p_from p)) = Some w"
      using get_wallet_eq_ref by fastforce+
    then show ?thesis using cov rejected(4) by (auto simp: covered_def)
  next
    case (posted w)
    then show ?thesis using that h by simp
  next
    case threw
    then have "missing s (p_from p) \<or> missing s (p_to p)" using some by (auto simp: missing_def)
    then show ?thesis using new by (auto simp: crit_begin_None_iff)
  qed
qed

lemma balances_post:
  "balances (fst (post_tx E p w s)) = bank_transfer js_add (p_from p) (p_to p) (p_amount p) (balances s)"
  by (simp add: post_tx_def Let_def balances_frame balances_commit)

lemma balances_post_exact:
  assumes "wf_books s" and "valid_tx s (made_tx E p w s)" and "paid_in (fst (post_tx E p w s)) \<le> 2 ^ 53"
  shows "balances (fst (post_tx E p w s)) = bank_transfer (+) (p_from p) (p_to p) (p_amount p) (balances s)"
  using balances_commit_exact [of "s\<lparr>drawn := drawn s + 1, ticks := ticks s + 1\<rparr>" "made_tx E p w s" E] assms
  by (simp add: post_tx_def Let_def balances_frame)

text \<open>Every money request, on the balances: an exact transfer when it is posted, else nothing.\<close>

lemma handle_bank:
  assumes wf: "wf_books s" and p: "plans q p" and lim: "paid_in (fst (handle E q s)) \<le> 2 ^ 53"
  shows "balances (fst (handle E q s)) =
    (if txs (fst (handle E q s)) = txs s then balances s
     else bank_transfer (+) (p_from p) (p_to p) (p_amount p) (balances s))"
proof (cases "crit_begin p s")
  case None
  then have h: "handle E q s = crit_end E p s" by (simp add: handle_plan [OF p] critical_def)
  show ?thesis
  proof (cases rule: crit_end_cases [of E p s])
    case (posted w)
    have "valid_tx s (made_tx E p w s)"
      using posted plans_amount [OF p] crit_begin_NoneD [OF None] by (simp add: valid_tx_def)
    then show ?thesis
      using balances_post_exact [OF wf] lim posted h by (simp add: post_tx_fields)
  qed (simp_all add: h balances_frame)
qed (simp add: handle_plan [OF p] critical_def)

lemma handle_overdraft:
  assumes p: "plans q p" and new: "crit_begin p s = None"
    and w: "get_wallet s (p_from p) = Some w" "truthy (p_from p)" "w_balance w < p_amount p"
  shows "handle E q s = (s, Returned (insufficient w (p_amount p)))"
  using assms by (simp add: handle_plan [OF p] critical_def crit_end_def)

text \<open>Without any wallet the request throws after it took and released its lock.\<close>

lemma handle_no_wallet:
  assumes p: "plans q p" and new: "map_get (idem s) (p_key p) = None"
    and none: "\<not> truthy (p_from p)" "\<not> truthy (p_to p)"
  shows "handle E q s = (s\<lparr>drawn := drawn s + 1\<rparr>, Threw)"
  using assms
  by (simp add: handle_plan [OF p] critical_def crit_end_def crit_begin_def missing_def)

text \<open>
  A deposit or withdrawal without a wallet is not rejected: it ends with an exception, after an
  id was drawn.
\<close>

lemma walletless_movement_throws:
  assumes "key \<noteq> []" and "0 < a" and "k \<noteq> Transfer" and "map_get (idem s) key = None"
  shows "handle E (money_request k key (JObj [(js ''amount'', JNum a)])) s =
    (s\<lparr>drawn := drawn s + 1\<rparr>, Threw)"
proof -
  have "\<not> truthy (from_of k (JObj [(js ''amount'', JNum a)]))" "\<not> truthy (to_of k (JObj [(js ''amount'', JNum a)]))"
    by (cases k; simp add: from_of_def to_of_def)+
  then show ?thesis
    using assms money_plan [of key "JObj [(js ''amount'', JNum a)]" a k]
    by (intro handle_no_wallet [where p = "plan_for k key (JObj [(js ''amount'', JNum a)]) a"]) simp_all
qed

text \<open>
  A request is accepted when its key is new, its accounts are known to the bank and the
  sender's balance covers the amount; the guards are those of the abstract bank.
\<close>

definition bank_accepts :: "bank \<Rightarrow> plan \<Rightarrow> bool" where
  "bank_accepts b p \<longleftrightarrow> bank_knows b (p_from p) \<and> bank_knows b (p_to p) \<and>
     bank_covers b (p_from p) (p_amount p) \<and> (truthy (p_from p) \<or> truthy (p_to p))"

lemma bank_knows_balances: "bank_knows (balances s) v \<longleftrightarrow> \<not> missing s v"
  by (auto simp: bank_knows_def missing_def bank_account_balances get_wallet_eq_ref)

lemma bank_covers_balances: "bank_covers (balances s) v a \<longleftrightarrow> covered s Debit v a"
  by (auto simp: bank_covers_def covered_def bank_account_balances split: option.splits)

lemma handle_accepts:
  assumes p: "plans q p" and new: "map_get (idem s) (p_key p) = None" and b: "bank_accepts (balances s) p"
  obtains t where "snd (handle E q s) = Returned (accepted p t)"
    and "balances (fst (handle E q s)) = bank_transfer js_add (p_from p) (p_to p) (p_amount p) (balances s)"
    and "idem (fst (handle E q s)) =
      map_set (p_key p) \<lparr>i_fingerprint = p_fingerprint p, i_response = accepted p t\<rparr> (idem s)"
    and "txs (fst (handle E q s)) = txs s @ [t]" and "drawn (fst (handle E q s)) = drawn s + 3"
    and "t_id t = rid E (js ''txn'') (drawn s)" and "t_kind t = p_kind p"
proof -
  have c: "crit_begin p s = None"
    using new b by (simp add: crit_begin_None_iff bank_accepts_def bank_knows_balances)
  obtain w where "handle E q s = (fst (post_tx E p w s), Returned (accepted p (made_tx E p w s)))"
    using handle_posted [OF p c, where E = E] b by (auto simp: bank_accepts_def bank_covers_balances)
  then show ?thesis
    using that [of "made_tx E p w s"] by (simp add: post_tx_fields balances_post)
qed

section \<open>A wallet that is created is there\<close>

lemma word_chars_take [simp]: "list_all P xs \<Longrightarrow> takeWhile P xs = xs"
  by (simp add: list_all_iff)

lemma rid_word_chars:
  "fresh_ids E n \<Longrightarrow> i < n \<Longrightarrow> list_all is_word_char (rid E (js ''wal'') i)"
  by (simp add: fresh_ids_def rid_def js_def is_word_char_def is_digit_def)

lemma match_wallet_path:
  assumes "list_all is_word_char i" and "i \<noteq> []" and "t = [] \<or> hd t = CHR ''/''"
  shows "match_wallet suffix (js ''/wallets/'' @ i @ js t) = (if js t = suffix then Some i else None)"
proof -
  have "takeWhile is_word_char (i @ js t) = i"
  proof (cases t)
    case Nil
    then show ?thesis using assms(1) by (simp add: list_all_iff)
  next
    case (Cons c u)
    then have "\<not> is_word_char (of_char c)" using assms(3) by (simp add: is_word_char_def is_digit_def)
    then show ?thesis
      using assms(1) Cons by (simp add: takeWhile_append2 list_all_iff js_def)
  qed
  then show ?thesis using assms(2) by (auto simp: match_wallet_def Let_def)
qed

lemma wallet_path_route:
  assumes "list_all is_word_char i" and "i \<noteq> []" and "t = [] \<or> hd t = CHR ''/''"
  shows "q_route (get_request (js ''/wallets/'' @ i @ js t)) =
    (if t = [] then RWallet i else if t = ''/transactions'' then RTransactions i
     else if t = ''/entries'' then REntries i else if t = ''/reconcile'' then RReconcile i else RNone)"
proof -
  have "strip_prefix (js ''/api/v1'') (js ''/wallets/'' @ i @ js t) = js ''/wallets/'' @ i @ js t"
    by (simp add: strip_prefix_def take_js js_append_eq_js)
  moreover have "js ''/wallets/'' @ i @ js t \<noteq> js ''/health''" "js ''/wallets/'' @ i @ js t \<noteq> js ''/wallets''"
    by (simp_all add: js_append_eq_js)
  ultimately show ?thesis
    using match_wallet_path [OF assms] by (simp add: get_request_def route_of_def)
qed

lemma get_request_simps [simp]:
  "q_method (get_request p) = GET" "q_path (get_request p) = p" "q_body (get_request p) = JUndef"
  by (simp_all add: get_request_def)

lemma handle_get_wallet:
  assumes "list_all is_word_char i" and "map_get (wallets s) i = Some w" and "i \<noteq> []"
  shows "handle E (get_request (js ''/wallets/'' @ i)) s = (s, Returned (ok (WalletBody w) 200 []))"
  using wallet_path_route [OF assms(1,3), of "[]"] assms(2)
  by (simp add: handle_def dispatch_def)

lemma handle_reconcile:
  assumes "list_all is_word_char i" and "map_get (wallets s) i = Some w" and "i \<noteq> []"
  shows "handle E (get_request (js ''/wallets/'' @ i @ js ''/reconcile'')) s =
    (s\<lparr>ticks := ticks s + 1\<rparr>, Returned (ok (ReconBody (reconcile E w s)) 200 []))"
  using wallet_path_route [OF assms(1,3), of "''/reconcile''"] assms(2)
  by (simp add: handle_def dispatch_def reconcile_route_def)

lemma handle_entries:
  assumes "list_all is_word_char i" and "i \<noteq> []"
  shows "handle E (get_request (js ''/wallets/'' @ i @ js ''/entries'')) s =
    (s, Returned (ok (EntriesBody (rev (wallet_entries i (entries s)))) 200 []))"
  using wallet_path_route [OF assms, of "''/entries''"]
  by (simp add: handle_def dispatch_def)

text \<open>The reconciliation of well-formed books always succeeds.\<close>

lemma reconcile_balanced:
  assumes "wf_books s" and "map_get (wallets s) i = Some w"
  shows "rc_balanced (reconcile E w s)" and "rc_chain_valid (reconcile E w s)"
    and "rc_cached_balance (reconcile E w s) = w_balance w"
    and "rc_entry_count (reconcile E w s) = length (wallet_entries i (entries s))"
proof -
  have w: "w_id w = i" "w_balance w = ledger_balance (wallet_entries i (entries s))"
    using assms by (auto simp: wf_books_def keyed_def reconciled_def)
  then show "rc_balanced (reconcile E w s)" "rc_cached_balance (reconcile E w s) = w_balance w"
    "rc_entry_count (reconcile E w s) = length (wallet_entries i (entries s))"
    by (simp_all add: reconcile_def Let_def)
  show "rc_chain_valid (reconcile E w s)"
    using assms(1) chain_wf_valid by (simp add: reconcile_def Let_def wf_books_def)
qed

text \<open>The keys of a sound engine's wallets are path segments.\<close>

lemma sound_keys:
  assumes "fresh_ids E N" and "sound E n s" and "drawn s \<le> N" and "map_get (wallets s) i = Some w"
  shows "list_all is_word_char i" and "i \<noteq> []" and "w_id w = i"
proof -
  have "i \<in> set (map_keys (wallets s))" using assms(4) by (rule jsmap.get_some_key)
  then obtain j where j: "j < drawn s" "i = rid E (js ''wal'') j"
    using assms(2) by (auto simp: sound_def own_ids_def)
  then show "list_all is_word_char i" "i \<noteq> []"
    using rid_word_chars [OF assms(1), of j] assms(3) by (simp_all add: rid_def)
  show "w_id w = i" using assms(2,4) by (auto simp: sound_def wf_books_def keyed_def)
qed

end
