(* ===== verification/Format.thy ===== *)
theory Format
  imports Seeding
begin

text \<open>
  The formatting helpers of the console: money and its parts, the amount a user types, short
  ids, relative times. The main facts: what \<open>money\<close> shows, \<open>parseMinor\<close> reads back, up to the
  number limit \<open>2 ^ 53\<close>; \<open>parseMinor\<close> accepts the decimals with at most two places and
  nothing else, and yields their value in minor units.
\<close>

section \<open>Money\<close>

text \<open>\<open>toLocaleString('en-US')\<close> of a natural number: a comma every three digits from the right.\<close>

fun group_rev :: "jstr \<Rightarrow> jstr" where
  "group_rev (a # b # c # d # ds) = a # b # c # 0x2C # group_rev (d # ds)"
| "group_rev ds = ds"

definition group_digits :: "jstr \<Rightarrow> jstr" where
  "group_digits ds = rev (group_rev (rev ds))"

definition symbols :: "jstr \<Rightarrow> jstr" where
  "symbols currency = (if currency = js ''USD'' then js ''$'' else js ''undefined'')"

text \<open>\<open>Math.floor(abs / 100)\<close>, with the division of doubles; the remainder is exact.\<close>

definition whole_units :: "int \<Rightarrow> nat" where
  "whole_units minor = js_floor (js_div (nat \<bar>minor\<bar>) 100)"

lemma whole_units_exact: "\<bar>n\<bar> \<le> 2 ^ 53 \<Longrightarrow> whole_units n = nat (\<bar>n\<bar> div 100)"
  using floor_exact [of "nat \<bar>n\<bar>"] by (simp add: whole_units_def nat_div_distrib)

record money_parts =
  m_sign :: jstr
  m_symbol :: jstr
  m_whole :: jstr
  m_cents :: jstr

definition moneyParts :: "int \<Rightarrow> jstr \<Rightarrow> money_parts" where
  "moneyParts minor currency =
     \<lparr>m_sign = (if minor < 0 then [0x2212] else []), m_symbol = symbols currency,
      m_whole = group_digits (dec (whole_units minor)),
      m_cents = pad_start 2 (dec (nat (\<bar>minor\<bar> mod 100)))\<rparr>"

definition money_text :: "int \<Rightarrow> jstr \<Rightarrow> bool \<Rightarrow> jstr" where
  "money_text minor currency show_sign =
     (let neg = minor < 0;
          whole = group_digits (dec (whole_units minor));
          cents = pad_start 2 (dec (nat (\<bar>minor\<bar> mod 100)));
          sign = (if neg then [0x2212] else if show_sign \<and> 0 < minor then js ''+'' else [])
      in sign @ symbols currency @ whole @ 0x2E # cents)"

text \<open>
  The component \<open>Amount\<close>: one text, or in large type the sign and symbol, the whole part and the
  cents apart. It says what \<open>money\<close> says.
\<close>

definition amount_parts :: "int \<Rightarrow> jstr \<Rightarrow> jstr list" where
  "amount_parts minor currency =
     (let p = moneyParts minor currency in [m_sign p @ m_symbol p, m_whole p, 0x2E # m_cents p])"

lemma amount_is_money: "concat (amount_parts minor currency) = money_text minor currency False"
  by (simp add: amount_parts_def moneyParts_def money_text_def Let_def)

section \<open>Parsing what a user types\<close>

text \<open>The characters \<open>/[,\s$\u20AC\u00A3]/g\<close> removes.\<close>

definition is_filler :: "code_unit \<Rightarrow> bool" where
  "is_filler c \<longleftrightarrow> c = 0x2C \<or> is_space c \<or> c = 0x24 \<or> c = 0x20AC \<or> c = 0xA3"

text \<open>\<open>/^\d+(\.\d{0,2})?$/\<close>, with the parts before and after the point.\<close>

definition decimal_parts :: "jstr \<Rightarrow> (jstr \<times> jstr) option" where
  "decimal_parts s =
     (let w = takeWhile is_digit s; rest = drop (length w) s
      in if w = [] then None
         else case rest of
           [] \<Rightarrow> Some (w, [])
         | c # f \<Rightarrow>
             if c = 0x2E \<and> length f \<le> 2 \<and> list_all is_digit f then Some (w, f) else None)"

definition parseMinor :: "jstr \<Rightarrow> int option" where
  "parseMinor input =
     (case decimal_parts (filter (\<lambda>c. \<not> is_filler c) (trim input)) of
        None \<Rightarrow> None
      | Some (w, f) \<Rightarrow> Some (js_add (js_mul (to_number w) 100) (to_number (pad_end 2 f))))"

lemma decimal_parts_iff:
  "decimal_parts s \<noteq> None \<longleftrightarrow>
   (\<exists>w f. w \<noteq> [] \<and> list_all is_digit w \<and> list_all is_digit f \<and> length f \<le> 2 \<and>
      (s = w \<and> f = [] \<or> s = w @ 0x2E # f))" (is "?l = ?r")
proof
  assume l: ?l
  let ?w = "takeWhile is_digit s" and ?t = "drop (length (takeWhile is_digit s)) s"
  have s: "s = ?w @ ?t" by (metis takeWhile_eq_take append_take_drop_id)
  have w: "list_all is_digit ?w" by (simp add: list_all_iff) (metis set_takeWhileD)
  show ?r
  proof (cases ?t)
    case Nil
    then show ?thesis using l s w by (intro exI [of _ ?w] exI [of _ "[]"]) (auto simp: decimal_parts_def)
  next
    case (Cons c f)
    then show ?thesis using l s w
      by (intro exI [of _ ?w] exI [of _ f]) (auto simp: decimal_parts_def Let_def split: if_splits)
  qed
next
  assume ?r
  then obtain w f where r: "w \<noteq> []" "list_all is_digit w" "list_all is_digit f" "length f \<le> 2"
      "s = w \<and> f = [] \<or> s = w @ 0x2E # f" by blast
  have w: "list_all is_digit xs \<Longrightarrow> takeWhile is_digit xs = xs" for xs by (simp add: list_all_iff)
  have "\<not> is_digit 0x2E" by (simp add: is_digit_def)
  then have "takeWhile is_digit (w @ 0x2E # f) = w"
    using r(2) by (simp add: list_all_iff takeWhile_append2)
  then show ?l using r by (elim disjE) (simp_all add: decimal_parts_def w)
qed

section \<open>Ids and times\<close>

definition shortId :: "jsval \<Rightarrow> nat \<Rightarrow> jstr" where
  "shortId v n =
     (if nullish v then []
      else let str = js_string v; pre = takeWhile (\<lambda>c. c \<noteq> 0x5F) str
           in if length pre < length str then take (length pre + 1) str @ take n (drop (length pre + 1) str)
              else take n str)"

text \<open>\<open>relTime\<close> with the time in milliseconds; \<open>Math.round(x / 1000)\<close> rounds halves up.\<close>

definition relTime :: "int \<Rightarrow> int \<Rightarrow> jstr" where
  "relTime now t =
     (let s = (now - t + 500) div 1000
      in if s < 5 then js ''just now''
         else if s < 60 then num_text s @ js ''s ago''
         else if s < 3600 then num_text (s div 60) @ js ''m ago''
         else num_text (s div 3600) @ js ''h ago'')"

definition fmtUptime :: "int \<Rightarrow> jstr" where
  "fmtUptime s =
     (if s < 60 then num_text s @ js ''s''
      else if s < 3600 then num_text (s div 60) @ js ''m''
      else num_text (s div 3600) @ js ''h '' @ num_text (s mod 3600 div 60) @ js ''m'')"

text \<open>
  A measured time, \<open>+(performance.now() - t0).toFixed(1)\<close>, is kept in tenths of a millisecond; it
  is not negative. This is its text.
\<close>

definition tenths_text :: "int \<Rightarrow> jstr" where
  "tenths_text n = num_text (n div 10) @ (if n mod 10 = 0 then [] else 0x2E # num_text (n mod 10))"

definition ms_text :: "int \<Rightarrow> jstr" where
  "ms_text n = tenths_text n @ js ''ms''"

text \<open>A fresh idempotency key: 20 hex digits of a UUID.\<close>

definition idemKey :: "env \<Rightarrow> nat \<Rightarrow> jstr" where
  "idemKey E n = js ''idem_'' @ take 20 (filter (\<lambda>c. c \<noteq> 0x2D) (uuid E n))"

section \<open>Reading back\<close>

lemma filter_group_rev: "\<not> P 0x2C \<Longrightarrow> filter P (group_rev ds) = filter P ds"
  by (induction ds rule: group_rev.induct) auto

lemma filter_group: "\<not> P 0x2C \<Longrightarrow> filter P (group_digits ds) = filter P ds"
  by (simp add: group_digits_def filter_group_rev flip: rev_filter)

lemma set_group_rev: "set (group_rev ds) \<subseteq> insert 0x2C (set ds)"
  by (induction ds rule: group_rev.induct) auto

lemma set_group: "set (group_digits ds) \<subseteq> insert 0x2C (set ds)"
  using set_group_rev [of "rev ds"] by (simp add: group_digits_def)

lemma digit_not_filler: "is_digit c \<Longrightarrow> \<not> is_filler c"
proof -
  assume d: "is_digit c"
  have "0x30 \<le> c" "c \<le> 0x39" using d by (simp_all add: is_digit_def)
  then have "48 \<le> unat c" "unat c < 58" by (simp_all add: word_le_nat_alt)
  then have "unat c \<in> set [48..<58]" by (simp only: set_upt atLeastLessThan_iff)
  moreover have "of_nat (unat c) = c" by simp
  ultimately have "c \<in> set (map of_nat [48..<58])" by (metis image_eqI list.set_map)
  moreover have "\<forall>c \<in> set (map of_nat [48..<58]). \<not> is_filler (c :: 16 word)"
    by (simp add: upt_rec is_filler_def is_space_def)
  ultimately show ?thesis by blast
qed

lemma filler_digits: "\<forall>c \<in> set s. is_digit c \<Longrightarrow> filter (\<lambda>c. \<not> is_filler c) s = s"
  by (auto simp: filter_id_conv digit_not_filler)

lemma decimal_parts_point:
  assumes "\<forall>c \<in> set w. is_digit c" and "w \<noteq> []" and "\<forall>c \<in> set f. is_digit c" and "length f \<le> 2"
  shows "decimal_parts (w @ 0x2E # f) = Some (w, f)"
proof -
  have "\<not> is_digit 0x2E" by (simp add: is_digit_def)
  then have "takeWhile is_digit (w @ 0x2E # f) = w" using assms(1) by (simp add: takeWhile_append2)
  then show ?thesis using assms by (simp add: decimal_parts_def Let_def list_all_iff)
qed

lemma trim_no_space:
  assumes "\<not> is_space c" and "s = [] \<or> \<not> is_space (last (c # s))"
  shows "trim (c # s) = c # s"
proof -
  have "rev (c # s) = last (c # s) # tl (rev (c # s))"
    by (metis hd_Cons_tl hd_rev list.distinct(1) rev_is_Nil_conv)
  then have "dropWhile is_space (rev (c # s)) = rev (c # s)"
    using assms by (cases s) (simp_all, metis dropWhile.simps(2))
  then show ?thesis using assms(1) by (simp add: trim_def)
qed

lemma digits_value_zeros [simp]: "digits_value (replicate k 0x30 @ s) = digits_value s"
  by (induction k) (simp_all add: digits_value_def digit_value_def)

lemma digits_value_pad [simp]: "digits_value (pad_start k (dec n)) = n"
  by (simp add: pad_start_def)

lemma dec_hd: "dec n = c # t \<Longrightarrow> is_digit c"
  using dec_digits [of n] by auto

lemma pad_digits: "\<forall>c \<in> set (pad_start k (dec n)). is_digit c"
  using dec_digits [of n] by (auto simp: pad_start_def is_digit_def)

lemma money_cents_length: "n < 100 \<Longrightarrow> length (pad_start 2 (dec n)) = 2"
  using dec_length_le [of n 2] by simp

text \<open>What \<open>money\<close> shows of a number in range, \<open>parseMinor\<close> reads back.\<close>

lemma money_text_strip:
  assumes "0 \<le> n" and "n \<le> 2 ^ 53"
  shows "filter (\<lambda>c. \<not> is_filler c) (trim (money_text n (js ''USD'') False)) =
    dec (nat (n div 100)) @ 0x2E # pad_start 2 (dec (nat (n mod 100)))"
proof -
  let ?w = "dec (nat (n div 100))" and ?c = "pad_start 2 (dec (nat (n mod 100)))"
  have dollar: "js ''$'' = [0x24]" by (simp add: js_def)
  have m: "money_text n (js ''USD'') False = 0x24 # group_digits ?w @ 0x2E # ?c"
    using assms by (simp add: money_text_def symbols_def dollar whole_units_exact)
  have ne: "?c \<noteq> []" by (simp add: pad_start_def)
  then have "is_digit (last ?c)" using pad_digits by (metis last_in_set)
  then have "\<not> is_space (last ?c)" using digit_not_filler by (auto simp: is_filler_def)
  then have "trim (0x24 # group_digits ?w @ 0x2E # ?c) = 0x24 # group_digits ?w @ 0x2E # ?c"
    using ne by (intro trim_no_space) (simp_all add: is_space_def)
  moreover have "filter (\<lambda>c. \<not> is_filler c) (group_digits ?w) = ?w"
    using filter_group [of "\<lambda>c. \<not> is_filler c" ?w] filler_digits [OF dec_digits]
    by (simp add: is_filler_def)
  moreover have "filter (\<lambda>c. \<not> is_filler c) ?c = ?c" using pad_digits by (rule filler_digits)
  moreover have "\<not> is_filler 0x2E" "is_filler 0x24" by (simp_all add: is_filler_def is_space_def)
  ultimately show ?thesis by (simp add: m)
qed

lemma money_parse:
  assumes "0 \<le> n" and "n \<le> 2 ^ 53"
  shows "parseMinor (money_text n (js ''USD'') False) = Some n"
proof -
  let ?w = "nat (n div 100)" and ?c = "nat (n mod 100)"
  have c: "?c < 100" by simp
  have "decimal_parts (dec ?w @ 0x2E # pad_start 2 (dec ?c)) = Some (dec ?w, pad_start 2 (dec ?c))"
    using dec_digits pad_digits money_cents_length [OF c] by (intro decimal_parts_point) auto
  moreover have "to_number (dec ?w) = n div 100" "to_number (pad_end 2 (pad_start 2 (dec ?c))) = n mod 100"
  proof -
    have "n div 100 \<le> n" using assms(1) by presburger
    then have "?w \<le> 2 ^ 53" using assms(2) by simp
    then show "to_number (dec ?w) = n div 100" using to_number_dec assms(1) by simp
    show "to_number (pad_end 2 (pad_start 2 (dec ?c))) = n mod 100"
      using money_cents_length [OF c] by (simp add: pad_end_def to_number_def)
  qed
  moreover have "js_mul (n div 100) 100 = n div 100 * 100" using assms by (simp add: js_mul_def)
  moreover have "js_add (n div 100 * 100) (n mod 100) = n"
    using assms num.add_exact [of "n div 100 * 100" "n mod 100"] by simp
  ultimately show ?thesis by (simp add: parseMinor_def money_text_strip [OF assms])
qed

text \<open>An amount below zero is shown with a minus sign, which the field refuses.\<close>

lemma money_refused: "n < 0 \<Longrightarrow> parseMinor (money_text n (js ''USD'') False) = None"
proof -
  assume "n < 0"
  then obtain t where t: "money_text n (js ''USD'') False = 0x2212 # t" by (simp add: money_text_def)
  have sign: "\<not> is_space 0x2212" "\<not> is_filler 0x2212" "\<not> is_digit 0x2212"
    by (simp_all add: is_space_def is_filler_def is_digit_def)
  have "dropWhile is_space (xs @ [0x2212]) = dropWhile is_space xs @ [0x2212]" for xs
    using sign(1) by (induction xs) simp_all
  then have "trim (0x2212 # t) = 0x2212 # rev (dropWhile is_space (rev t))" using sign(1) by (simp add: trim_def)
  then show ?thesis using sign by (simp add: parseMinor_def t decimal_parts_def)
qed

text \<open>
  The amount field is not exact: the text 90071992547409.93 is read as 9007199254740992 minor
  units, one cent less than it says.
\<close>

lemma amount_field_rounds: "parseMinor (js ''90071992547409.93'') = Some 9007199254740992"
proof -
  have "parseMinor (js ''90071992547409.93'') = Some (js_add (js_mul 90071992547409 100) 93)"
    by (simp add: parseMinor_def js_def trim_def is_space_def is_filler_def decimal_parts_def is_digit_def
        to_number_def pad_end_def digits_value_def digit_value_def Let_def)
  also have "js_mul 90071992547409 100 = 9007199254740900" by (simp add: js_mul_def)
  also have "js_add 9007199254740900 93 = 9007199254740992"
    by (simp add: js_add_def fl_def round_even_def excess.simps)
  finally show ?thesis .
qed

end
