(* ===== verification/Conversion.thy ===== *)
theory Conversion
  imports Doubles Js_Value
begin

text \<open>
  \<open>Number(v)\<close>, as \<open>Math.abs\<close> and \<open>>=\<close> apply it to the amounts of an answer: the decimal texts with
  sign, point and exponent, the hexadecimal, octal and binary ones, \<open>Infinity\<close>, and the text of
  the nearest double (the fewest digits that read back as it). The facts: the conversion of a
  number is the number, and an absolute value is its own absolute value.
\<close>

section \<open>The nearest double of a decimal\<close>

text \<open>\<open>a / b\<close> as a double; below the normal range the point is at most 1074 bits deep.\<close>

definition nearest :: "nat \<Rightarrow> nat \<Rightarrow> double" where
  "nearest a b =
     (let (m, k) = js_div a b in if k \<le> 1074 then (m, k) else (quot_even (a * 2 ^ 1074) b, 1074))"

definition same_value :: "double \<Rightarrow> double \<Rightarrow> bool" where
  "same_value d e \<longleftrightarrow> fst d * 2 ^ snd e = fst e * 2 ^ snd d"

text \<open>\<open>c * 10 ^ - q\<close> as a double.\<close>

definition scaled :: "nat \<Rightarrow> int \<Rightarrow> double" where
  "scaled c q = (if 0 \<le> q then nearest c (10 ^ nat q) else nearest (c * 10 ^ nat (- q)) 1)"

section \<open>The text of a double that is not whole\<close>

text \<open>The decimal exponent \<open>n\<close> with \<open>10 ^ (n - 1) \<le> d < 10 ^ n\<close>.\<close>

definition decimal_exponent :: "double \<Rightarrow> int" where
  "decimal_exponent d =
     (case d of (m, k) \<Rightarrow>
        if 2 ^ k \<le> m then int (length (dec (m div 2 ^ k)))
        else - int (length (takeWhile (\<lambda>z. m * 10 ^ (z + 1) < 2 ^ k) [0..<400])))"

text \<open>The digits closest to \<open>d\<close> among those with \<open>p\<close> digits that read back as \<open>d\<close>.\<close>

definition digits_for :: "double \<Rightarrow> nat \<Rightarrow> nat option" where
  "digits_for d p =
     (case d of (m, k) \<Rightarrow>
        let q = int p - decimal_exponent d;
            a = (if 0 \<le> q then m * 10 ^ nat q else m); b = (if 0 \<le> q then 2 ^ k else 2 ^ k * 10 ^ nat (- q));
            lo = a div b; down = a - lo * b; up = (lo + 1) * b - a;
            l = same_value (scaled lo q) d; h = same_value (scaled (lo + 1) q) d
        in if l \<and> (\<not> h \<or> down \<le> up) then Some lo else if h then Some (lo + 1) else None)"

text \<open>The digits may be one more than asked for, as in 10; their zeros at the end are not shown.\<close>

definition frac_text :: "double \<Rightarrow> jstr" where
  "frac_text d =
     (let p = length (takeWhile (\<lambda>p. digits_for d p = None) [1..<17]) + 1;
          s = dec (case digits_for d p of Some s \<Rightarrow> s | None \<Rightarrow> 0);
          n = decimal_exponent d + int (length s) - int p;
          ds = rev (dropWhile (\<lambda>c. c = 0x30) (rev s))
      in if 0 < n then take (nat n) ds @ 0x2E # drop (nat n) ds
         else if - 6 < n then js ''0.'' @ replicate (nat (- n)) 0x30 @ ds
         else hd ds # (if tl ds = [] then [] else 0x2E # tl ds) @ js ''e-'' @ dec (nat (1 - n)))"

text \<open>A double as a value, with its sign.\<close>

definition double_value :: "bool \<Rightarrow> double \<Rightarrow> jsval" where
  "double_value neg d =
     (case d of (m, k) \<Rightarrow>
        if m mod 2 ^ k = 0 then
          (if 2 ^ 1024 \<le> m div 2 ^ k then JFrac ((if neg then js ''-'' else []) @ js ''Infinity'')
           else JNum (if neg then - int (m div 2 ^ k) else int (m div 2 ^ k)))
        else JFrac ((if neg then js ''-'' else []) @ frac_text d))"

section \<open>Reading a text\<close>

text \<open>An exponent \<open>e\<close>, with its sign; nothing else may follow.\<close>

definition exponent_part :: "jstr \<Rightarrow> int option" where
  "exponent_part s =
     (case s of
        [] \<Rightarrow> Some 0
      | c # t \<Rightarrow>
          let neg = (take 1 t = js ''-''); ds = (if take 1 t = js ''-'' \<or> take 1 t = js ''+'' then tl t else t)
          in if (c = 0x65 \<or> c = 0x45) \<and> ds \<noteq> [] \<and> list_all is_digit ds
             then Some (if neg then - int (digits_value ds) else int (digits_value ds)) else None)"

definition decimal_value :: "bool \<Rightarrow> jstr \<Rightarrow> jsval option" where
  "decimal_value neg s =
     (let w = takeWhile is_digit s; r = dropWhile is_digit s;
          point = (take 1 r = js ''.'');
          f = (if point then takeWhile is_digit (tl r) else []);
          e = (if point then dropWhile is_digit (tl r) else r)
      in if w = [] \<and> f = [] then None
         else map_option (\<lambda>x. double_value neg (scaled (digits_value (w @ f)) (int (length f) - x)))
                (exponent_part e))"

text \<open>The digits after \<open>0x\<close>, \<open>0o\<close> or \<open>0b\<close>.\<close>

definition radix_digit :: "code_unit \<Rightarrow> nat" where
  "radix_digit c =
     (if is_digit c then digit_value c else if 0x61 \<le> c \<and> c \<le> 0x66 then unat c - 0x57
      else if 0x41 \<le> c \<and> c \<le> 0x46 then unat c - 0x37 else 99)"

definition radix_value :: "nat \<Rightarrow> jstr \<Rightarrow> jsval option" where
  "radix_value base s =
     (if s \<noteq> [] \<and> list_all (\<lambda>c. radix_digit c < base) s
      then Some (double_value False (nearest (foldl (\<lambda>v c. v * base + radix_digit c) 0 s) 1)) else None)"

definition NaN :: jsval where
  "NaN = JFrac (js ''NaN'')"

definition text_number :: "jstr \<Rightarrow> jsval" where
  "text_number text =
     (let s = trim text; neg = (take 1 s = js ''-''); u = (if neg \<or> take 1 s = js ''+'' then tl s else s);
          prefix = take 2 s
      in if s = [] then JNum 0
         else if u = js ''Infinity'' then JFrac ((if neg then js ''-'' else []) @ u)
         else
           (case (if prefix \<in> {js ''0x'', js ''0X''} then radix_value 16 (drop 2 s)
                  else if prefix \<in> {js ''0o'', js ''0O''} then radix_value 8 (drop 2 s)
                  else if prefix \<in> {js ''0b'', js ''0B''} then radix_value 2 (drop 2 s)
                  else decimal_value neg u) of
              None \<Rightarrow> NaN | Some v \<Rightarrow> v))"

text \<open>\<open>Number(v)\<close>; arrays and objects go through their text.\<close>

definition to_num :: "jsval \<Rightarrow> jsval" where
  "to_num v =
     (case v of
        JUndef \<Rightarrow> NaN | JNull \<Rightarrow> JNum 0 | JBool b \<Rightarrow> JNum (if b then 1 else 0) | JNum n \<Rightarrow> JNum n
      | JFrac t \<Rightarrow> JFrac t | _ \<Rightarrow> text_number (js_string v))"

section \<open>Comparison with zero and absolute value\<close>

text \<open>\<open>v >= 0\<close> and \<open>Math.abs(v)\<close>; a number that is not whole has a sign or is \<open>NaN\<close>.\<close>

definition non_negative :: "jsval \<Rightarrow> bool" where
  "non_negative v \<longleftrightarrow>
     (case to_num v of JNum n \<Rightarrow> 0 \<le> n | JFrac t \<Rightarrow> JFrac t \<noteq> NaN \<and> take 1 t \<noteq> js ''-'' | _ \<Rightarrow> False)"

definition absolute :: "jsval \<Rightarrow> jsval" where
  "absolute v =
     (case to_num v of JNum n \<Rightarrow> JNum \<bar>n\<bar> | JFrac t \<Rightarrow> JFrac (dropWhile (\<lambda>c. c = 0x2D) t) | w \<Rightarrow> w)"

lemma to_num_number [simp]: "to_num (JNum n) = JNum n" "to_num (JFrac t) = JFrac t"
  by (simp_all add: to_num_def)

lemma absolute_number [simp]: "absolute (JNum n) = JNum \<bar>n\<bar>"
  by (simp add: absolute_def)

lemma non_negative_number [simp]: "non_negative (JNum n) \<longleftrightarrow> 0 \<le> n"
  by (simp add: non_negative_def)

text \<open>A conversion ends with a number.\<close>

definition is_number :: "jsval \<Rightarrow> bool" where
  "is_number v \<longleftrightarrow> (case v of JNum n \<Rightarrow> True | JFrac t \<Rightarrow> True | _ \<Rightarrow> False)"

lemma double_is_number: "is_number (double_value neg d)"
  by (simp add: double_value_def is_number_def split: prod.split)

lemma read_is_number:
  "decimal_value neg s = Some v \<Longrightarrow> is_number v" "radix_value b s = Some v \<Longrightarrow> is_number v"
  by (auto simp: decimal_value_def radix_value_def Let_def double_is_number split: if_splits)

lemma text_is_number: "is_number (text_number s)"
proof -
  have nums: "is_number (JNum n)" "is_number (JFrac t)" for n t by (simp_all add: is_number_def)
  have "is_number (case v of None \<Rightarrow> NaN | Some v \<Rightarrow> v)" if "\<And>x. v = Some x \<Longrightarrow> is_number x" for v
    using that by (cases v) (simp_all add: NaN_def nums)
  then show ?thesis
    unfolding text_number_def Let_def using read_is_number by (simp add: nums split: if_split)
qed

lemma to_num_is_number: "is_number (to_num v)"
  using text_is_number by (cases v) (simp_all add: to_num_def NaN_def is_number_def)

lemma absolute_cases:
  obtains (whole) n where "absolute v = JNum n" "0 \<le> n"
  | (frac) t where "absolute v = JFrac t" "take 1 t \<noteq> js ''-''"
proof (cases "to_num v")
  case (JFrac t)
  have "take 1 (dropWhile (\<lambda>c. c = 0x2D) t) \<noteq> js ''-''"
    using hd_dropWhile [of "\<lambda>c. c = 0x2D" t]
    by (cases "dropWhile (\<lambda>c. c = 0x2D) t") (simp_all add: js_def del: dropWhile_eq_Nil_conv)
  then show ?thesis using frac JFrac by (simp add: absolute_def)
qed (use whole to_num_is_number [of v] in \<open>simp_all add: absolute_def is_number_def\<close>)

lemma absolute_again [simp]: "absolute (absolute v) = absolute v"
proof (cases rule: absolute_cases [of v])
  case (frac t)
  then have "dropWhile (\<lambda>c. c = 0x2D) t = t" by (cases t) (simp_all add: js_def)
  then show ?thesis using frac by (simp add: absolute_def)
qed simp

text \<open>The digits of a whole number below \<open>2 ^ 53\<close> are read as this number, so its text counts as it does.\<close>

lemma quot_even_1 [simp]: "quot_even a (Suc 0) = a"
  by (simp add: quot_even_def)

lemma nearest_whole: "n < 2 ^ 53 \<Longrightarrow> \<exists>k. nearest n 1 = (n * 2 ^ k, k)"
  by (auto simp: nearest_def js_div_def Let_def split: prod.split)

lemma double_whole: "n < 2 ^ 53 \<Longrightarrow> double_value False (nearest n 1) = JNum (int n)"
proof -
  assume n: "n < 2 ^ 53"
  obtain k where k: "nearest n 1 = (n * 2 ^ k, k)" using nearest_whole [OF n] by blast
  have "(2 :: nat) ^ 53 \<le> 2 ^ 1024" by (intro power_increasing) simp_all
  then show ?thesis using n by (simp add: k [unfolded One_nat_def] double_value_def)
qed

lemma digit_units: "is_digit c \<Longrightarrow> c \<noteq> 0x2B \<and> c \<noteq> 0x2D \<and> c \<noteq> 0x49 \<and> c \<noteq> 0x58 \<and> c \<noteq> 0x78 \<and> c \<noteq> 0x4F \<and> c \<noteq> 0x6F \<and> c \<noteq> 0x42 \<and> c \<noteq> 0x62"
  by (auto simp: is_digit_def)

lemma text_number_digits:
  assumes "ds \<noteq> []" and "list_all is_digit ds" and "digits_value ds < 2 ^ 53" and "trim ds = ds"
  shows "text_number ds = JNum (int (digits_value ds))"
proof -
  obtain c t where ds: "ds = c # t" "is_digit c" using assms(1,2) by (cases ds) auto
  have two: "take 2 ds \<notin> {js ''0x'', js ''0X'', js ''0o'', js ''0O'', js ''0b'', js ''0B''}"
    using assms(2) digit_units by (cases t) (auto simp: ds(1) js_def)
  have parts: "takeWhile is_digit ds = ds" "dropWhile is_digit ds = []" using assms(2) by (simp_all add: list_all_iff)
  have "decimal_value False ds = Some (JNum (int (digits_value ds)))"
    using assms(1,3) double_whole [of "digits_value ds"]
    by (simp add: decimal_value_def parts exponent_part_def scaled_def js_def)
  moreover have "take 1 ds \<noteq> js ''-''" "take 1 ds \<noteq> js ''+''" "ds \<noteq> js ''Infinity''"
    using digit_units [OF ds(2)] by (auto simp: ds(1) js_def)
  ultimately show ?thesis using assms(1,4) two by (simp add: text_number_def Let_def)
qed

end
