(* ===== verification/Client.thy ===== *)
theory Client
  imports Movements Format Conversion
begin

text \<open>
  The API layer of the console: \<open>request\<close> adds an idempotency key to a POST without one, asks
  the server and, when it cannot be reached, the engine in the page; it brings the answers of
  both into one shape (\<open>normalize\<close>) and records a trace. What the server answers is a parameter
  (\<open>fetched\<close>, with the decoded text); the engine's answers are the objects of the engine.
\<close>

section \<open>The engine's objects as values\<close>

text \<open>\<open>new Date(t).toISOString()\<close> for the years 0 to 9999.\<close>

definition two :: "int \<Rightarrow> jstr" where
  "two n = pad_start 2 (dec (nat n))"

definition iso_text :: "int \<Rightarrow> jstr" where
  "iso_text t =
     (let days = t div 86400000; ms = t mod 86400000;
          z = days + 719468; era = z div 146097; doe = z mod 146097;
          yoe = (doe - doe div 1460 + doe div 36524 - doe div 146096) div 365;
          doy = doe - (365 * yoe + yoe div 4 - yoe div 100);
          mp = (5 * doy + 2) div 153;
          d = doy - (153 * mp + 2) div 5 + 1;
          m = (if mp < 10 then mp + 3 else mp - 9);
          y = yoe + era * 400 + (if m \<le> 2 then 1 else 0)
      in pad_start 4 (dec (nat y)) @ js ''-'' @ two m @ js ''-'' @ two d @ js ''T'' @
         two (ms div 3600000) @ js '':'' @ two (ms mod 3600000 div 60000) @ js '':'' @
         two (ms mod 60000 div 1000) @ js ''.'' @ pad_start 3 (dec (nat (ms mod 1000))) @ js ''Z'')"

definition wallet_value :: "wallet \<Rightarrow> jsval" where
  "wallet_value w =
     JObj [(js ''id'', JStr (w_id w)), (js ''owner'', JStr (w_owner w)),
           (js ''currency'', w_currency w), (js ''balance'', JNum (w_balance w)),
           (js ''version'', JNum (w_version w)), (js ''created_at'', JStr (iso_text (w_created_at w)))]"

fun status_text :: "tx_status \<Rightarrow> jstr" where
  "status_text Posted = js ''posted''"
| "status_text Rejected = js ''rejected''"

definition tx_value :: "transaction \<Rightarrow> jsval" where
  "tx_value t =
     JObj [(js ''id'', JStr (t_id t)), (js ''kind'', JStr (kind_text (t_kind t))),
           (js ''status'', JStr (status_text (t_status t))), (js ''amount'', JNum (t_amount t)),
           (js ''currency'', t_currency t), (js ''from_wallet_id'', t_from_wallet_id t),
           (js ''to_wallet_id'', t_to_wallet_id t),
           (js ''idempotency_key'', JStr (t_idempotency_key t)), (js ''reference'', t_reference t),
           (js ''created_at'', JStr (iso_text (t_created_at t)))]"

definition entry_value :: "ledger_entry \<Rightarrow> jsval" where
  "entry_value e =
     JObj [(js ''id'', JStr (e_id e)), (js ''seq'', JNum (e_seq e)),
           (js ''transaction_id'', JStr (e_transaction_id e)), (js ''wallet_id'', JStr (e_wallet_id e)),
           (js ''direction'', JStr (direction_text (e_direction e))), (js ''amount'', JNum (e_amount e)),
           (js ''balance_after'', JNum (e_balance_after e)), (js ''prev_hash'', JStr (e_prev_hash e)),
           (js ''hash'', JStr (e_hash e)), (js ''created_at'', JStr (iso_text (e_created_at e)))]"

definition recon_value :: "reconciliation \<Rightarrow> jsval" where
  "recon_value r =
     JObj [(js ''wallet_id'', JStr (rc_wallet_id r)), (js ''cached_balance'', JNum (rc_cached_balance r)),
           (js ''ledger_balance'', JNum (rc_ledger_balance r)),
           (js ''entry_count'', JNum (int (rc_entry_count r))), (js ''balanced'', JBool (rc_balanced r)),
           (js ''chain_valid'', JBool (rc_chain_valid r)),
           (js ''checked_at'', JStr (iso_text (rc_checked_at r)))]"

text \<open>A number with two decimals, as the literal the engine's latency is.\<close>

definition hundredths :: "int \<Rightarrow> jsval" where
  "hundredths n =
     (if n mod 100 = 0 then JNum (n div 100)
      else if n mod 10 = 0 then JFrac (num_text (n div 100) @ js ''.'' @ num_text (n mod 100 div 10))
      else JFrac (num_text (n div 100) @ js ''.'' @ pad_start 2 (num_text (n mod 100))))"

definition health_value :: "health \<Rightarrow> jsval" where
  "health_value h =
     JObj [(js ''status'', JStr (h_status h)), (js ''version'', JStr (h_version h)),
           (js ''uptime_s'', JNum (h_uptime_s h)),
           (js ''database'', JObj [(js ''status'', JStr (h_db_status h)), (js ''driver'', JStr (h_driver h)),
              (js ''latency_ms'', hundredths (h_latency_hundredths h)),
              (js ''pool_in_use'', JNum (h_pool_in_use h)), (js ''pool_max'', JNum (h_pool_max h))]),
           (js ''capabilities'', JArr (map JStr (h_capabilities h)))]"

fun body_value :: "res_body \<Rightarrow> jsval" where
  "body_value (ErrorBody c m) =
     JObj [(js ''error'', JObj [(js ''code'', JStr c), (js ''message'', JStr m)])]"
| "body_value (WalletBody w) = wallet_value w"
| "body_value (WalletsBody ws) = JObj [(js ''data'', JArr (map wallet_value ws))]"
| "body_value (TxBody t) = tx_value t"
| "body_value (TxsBody ts) = JObj [(js ''data'', JArr (map tx_value ts))]"
| "body_value (EntriesBody es) = JObj [(js ''data'', JArr (map entry_value es))]"
| "body_value (ReconBody r) = recon_value r"
| "body_value (HealthBody h) = health_value h"

section \<open>One shape for both back ends\<close>

text \<open>\<open>{...v}\<close>: the own properties of a value.\<close>

fun spread :: "jsval \<Rightarrow> (jstr, jsval) jsmap" where
  "spread (JObj fs) = fs"
| "spread (JArr vs) = zip (map dec [0..<length vs]) vs"
| "spread (JStr s) = zip (map dec [0..<length s]) (map (\<lambda>c. JStr [c]) s)"
| "spread _ = []"

text \<open>\<open>{...v, k1: v1, ...}\<close>.\<close>

definition spread_with :: "jsval \<Rightarrow> (jstr \<times> jsval) list \<Rightarrow> jsval" where
  "spread_with v fs = JObj (fold (\<lambda>(k, x). map_set k x) fs (spread v))"

text \<open>\<open>a || b\<close>.\<close>

definition or_else :: "jsval \<Rightarrow> jsval \<Rightarrow> jsval" where
  "or_else a b = (if truthy a then a else b)"

definition string_field :: "jsval \<Rightarrow> jstr \<Rightarrow> jsval" where
  "string_field v k = JStr (js_string (get_field v k))"

text \<open>\<open>v.k != null ? String(v.k) : null\<close>.\<close>

definition string_or_null :: "jsval \<Rightarrow> jstr \<Rightarrow> jsval" where
  "string_or_null v k =
     (let x = get_field v k in if nullish x then JNull else JStr (js_string x))"

definition normal_item :: "jsval \<Rightarrow> jsval" where
  "normal_item v =
     spread_with v [(js ''id'', string_field v (js ''id'')),
               (js ''currency'', or_else (get_field v (js ''currency'')) (JStr (js ''USD'')))]"

definition normal_entry :: "jsval \<Rightarrow> jsval" where
  "normal_entry v =
     spread_with v [(js ''id'', string_field v (js ''id'')),
               (js ''transaction_id'', string_field v (js ''transaction_id'')),
               (js ''wallet_id'', string_field v (js ''wallet_id'')),
               (js ''direction'', or_else (get_field v (js ''direction''))
                  (JStr (if non_negative (get_field v (js ''amount'')) then js ''credit'' else js ''debit''))),
               (js ''amount'', absolute (get_field v (js ''amount'')))]"

definition normal_kind :: "jsval \<Rightarrow> jsval" where
  "normal_kind v =
     or_else (get_field v (js ''type'')) (or_else (get_field v (js ''kind'')) (JStr (js ''transfer'')))"

definition normal_from :: "jsval \<Rightarrow> jsval" where
  "normal_from v =
     (let from = string_or_null v (js ''from_wallet_id'')
      in if normal_kind v = JStr (js ''withdrawal'') \<or> normal_kind v = JStr (js ''transfer'')
         then or_else from (string_or_null v (js ''wallet_id'')) else from)"

definition normal_to :: "jsval \<Rightarrow> jsval" where
  "normal_to v =
     (let to = string_or_null v (js ''to_wallet_id'')
      in if normal_kind v = JStr (js ''deposit'')
         then or_else to (string_or_null v (js ''wallet_id'')) else to)"

definition normal_tx :: "jsval \<Rightarrow> jsval" where
  "normal_tx v =
     spread_with v [(js ''id'', string_field v (js ''id'')), (js ''kind'', normal_kind v),
               (js ''from_wallet_id'', normal_from v), (js ''to_wallet_id'', normal_to v),
               (js ''currency'', or_else (get_field v (js ''currency'')) (JStr (js ''USD''))),
               (js ''idempotency_key'',
                  if truthy (get_field v (js ''idempotency_key''))
                  then string_field v (js ''idempotency_key'') else JStr [])]"

text \<open>\<open>map\<close> over an array; reading a property of \<open>null\<close> throws, so \<open>None\<close>.\<close>

definition map_items :: "(jsval \<Rightarrow> jsval) \<Rightarrow> jsval list \<Rightarrow> jsval option" where
  "map_items f vs = (if list_ex nullish vs then None else Some (JArr (map f vs)))"

definition set_field :: "jstr \<Rightarrow> jsval \<Rightarrow> jsval \<Rightarrow> jsval" where
  "set_field k x v = (case v of JObj fs \<Rightarrow> JObj (map_set k x fs) | _ \<Rightarrow> v)"

text \<open>One \<open>if (Array.isArray(data.k)) data.data = data.k.map(f)\<close>.\<close>

definition normal_list :: "jstr \<Rightarrow> (jsval \<Rightarrow> jsval) \<Rightarrow> jsval \<Rightarrow> jsval option" where
  "normal_list k f data =
     (case get_field data k of
        JArr vs \<Rightarrow> map_option (\<lambda>x. set_field (js ''data'') x data) (map_items f vs)
      | _ \<Rightarrow> Some data)"

definition normalize :: "jsval \<Rightarrow> jsval option" where
  "normalize data =
     (let d0 = (if nullish (get_field data (js ''id'')) then data
                else set_field (js ''id'') (string_field data (js ''id'')) data)
      in Option.bind (normal_list (js ''data'') normal_item d0) (\<lambda>d1.
         Option.bind (normal_list (js ''entries'') normal_entry d1) (\<lambda>d2.
           normal_list (js ''transactions'') normal_tx d2)))"

section \<open>request\<close>

type_synonym headers = "(jstr, jstr) jsmap"

record trace =
  tr_id :: jstr
  tr_at :: int
  tr_method :: http_method
  tr_path :: jstr
  tr_request_headers :: headers
  tr_request_body :: jsval
  tr_status :: int
  tr_response_headers :: headers
  tr_response_body :: jsval
  tr_ms :: int
  tr_live :: bool

record api_result =
  a_ok :: bool
  a_status :: int
  a_data :: jsval
  a_headers :: headers
  a_trace :: trace

text \<open>\<open>toLowerCase\<close> on header names, which are ASCII.\<close>

definition lower_unit :: "code_unit \<Rightarrow> code_unit" where
  "lower_unit c = (if 0x41 \<le> c \<and> c \<le> 0x5A then c + 0x20 else c)"

definition lower :: "jstr \<Rightarrow> jstr" where
  "lower s = map lower_unit s"

text \<open>\<open>!headers[k]\<close>.\<close>

definition lacks :: "headers \<Rightarrow> jstr \<Rightarrow> bool" where
  "lacks hs k \<longleftrightarrow> (case map_get hs k of None \<Rightarrow> True | Some v \<Rightarrow> v = [])"

text \<open>A POST without a key gets a fresh one.\<close>

definition with_key :: "env \<Rightarrow> http_method \<Rightarrow> headers \<Rightarrow> engine \<Rightarrow> headers \<times> engine" where
  "with_key E m extra s =
     (if m = POST \<and> lacks extra (js ''Idempotency-Key'') \<and> lacks extra (js ''idempotency-key'')
      then (map_set (js ''Idempotency-Key'') (idemKey E (drawn s)) extra, s\<lparr>drawn := drawn s + 1\<rparr>)
      else (extra, s))"

definition request_headers :: "jsval \<Rightarrow> headers \<Rightarrow> headers" where
  "request_headers body extra =
     fold (\<lambda>(k, v). map_set k v) extra
       ([(js ''accept'', js ''application/json'')] @
        (if body = JUndef then [] else [(js ''content-type'', js ''application/json'')]))"

definition lower_headers :: "headers \<Rightarrow> headers" where
  "lower_headers hs = fold (\<lambda>(k, v). map_set (lower k) v) hs []"

text \<open>
  What \<open>fetch\<close> gives: an exception, or the status, the headers and the decoded text (the parsed
  JSON, \<open>null\<close> for no text, the text itself when it is not JSON).
\<close>

datatype fetched = Unreachable | Reply int headers jsval

definition sim_request :: "http_method \<Rightarrow> jstr \<Rightarrow> jsval \<Rightarrow> headers \<Rightarrow> request" where
  "sim_request m path body hs =
     \<lparr>q_method = m, q_path = path, q_headers = lower_headers hs, q_body = body\<rparr>"

definition made_trace ::
  "env \<Rightarrow> nat \<Rightarrow> http_method \<Rightarrow> jstr \<Rightarrow> headers \<Rightarrow> jsval \<Rightarrow> int \<Rightarrow> headers \<Rightarrow> jsval \<Rightarrow> bool \<Rightarrow> engine \<Rightarrow>
   trace" where
  "made_trace E t0 m path hs body status rhs data live s =
     \<lparr>tr_id = uuid E (drawn s), tr_at = clock E (ticks s), tr_method = m, tr_path = path,
      tr_request_headers = hs, tr_request_body = body, tr_status = status,
      tr_response_headers = rhs, tr_response_body = data,
      tr_ms = lap E t0 (ticks s + 1), tr_live = live\<rparr>"

text \<open>
  Normalise, record the trace and give the result; \<open>None\<close>: the normalisation threw. The clock is
  read for \<open>at\<close>, and the stopwatch that was started at the tick \<open>t0\<close> for \<open>ms\<close>.
\<close>

definition deliver ::
  "env \<Rightarrow> nat \<Rightarrow> http_method \<Rightarrow> jstr \<Rightarrow> headers \<Rightarrow> jsval \<Rightarrow> int \<Rightarrow> headers \<Rightarrow> jsval \<Rightarrow> bool \<Rightarrow> engine \<Rightarrow>
   engine \<times> api_result option" where
  "deliver E t0 m path hs body status rhs raw live s =
     (case normalize raw of
        None \<Rightarrow> (s, None)
      | Some data \<Rightarrow>
          (s\<lparr>drawn := drawn s + 1, ticks := ticks s + 2\<rparr>,
           Some \<lparr>a_ok = (200 \<le> status \<and> status < 300), a_status = status, a_data = data,
                 a_headers = rhs, a_trace = made_trace E t0 m path hs body status rhs data live s\<rparr>))"

definition api_request ::
  "env \<Rightarrow> fetched \<Rightarrow> http_method \<Rightarrow> jstr \<Rightarrow> jsval \<Rightarrow> headers \<Rightarrow> engine \<Rightarrow>
   engine \<times> api_result option" where
  "api_request E net m path body extra s =
     (let (extra', s') = with_key E m extra s; hs = request_headers body extra';
          t0 = ticks s'; s0 = s'\<lparr>ticks := ticks s' + 1\<rparr>
      in case net of
           Reply status rhs raw \<Rightarrow> deliver E t0 m path hs body status rhs raw True s0
         | Unreachable \<Rightarrow>
             (case handle E (sim_request m path body hs) s0 of
                (s1, Threw) \<Rightarrow> (s1, None)
              | (s1, Returned r) \<Rightarrow>
                  deliver E t0 m path hs body (r_status r) (r_headers r) (body_value (r_body r)) False s1))"

definition errMsg :: "api_result \<Rightarrow> jsval" where
  "errMsg r =
     (let e = get_field (a_data r) (js ''error'')
      in case e of JStr t \<Rightarrow> e
         | _ \<Rightarrow> coalesce (get_field e (js ''message'')) (JStr (js ''HTTP '' @ num_text (a_status r))))"

definition errCode :: "api_result \<Rightarrow> jsval" where
  "errCode r =
     (let e = get_field (a_data r) (js ''error'')
      in case e of JStr t \<Rightarrow> e
         | _ \<Rightarrow> coalesce (get_field e (js ''code'')) (JStr (js ''http_'' @ num_text (a_status r))))"

section \<open>Keys of an object that is extended\<close>

lemma map_get_fold_set:
  "map_get (fold (\<lambda>(k, x). map_set k x) fs m) k =
   (case map_get (rev fs) k of None \<Rightarrow> map_get m k | Some x \<Rightarrow> Some x)"
proof (induction fs arbitrary: m)
  case (Cons f fs)
  then show ?case
    by (cases f) (auto simp: map_of_append map_add_def jsmap.get_put split: option.splits)
qed simp

lemma get_spread_with:
  "get_field (spread_with v fs) k =
   (case map_get (rev fs) k of None \<Rightarrow> (case map_get (spread v) k of None \<Rightarrow> JUndef | Some x \<Rightarrow> x)
    | Some x \<Rightarrow> x)"
  by (simp add: spread_with_def map_get_fold_set split: option.splits)

section \<open>The engine's answers pass\<close>

lemma normal_list_other: "get_field data k = JUndef \<Longrightarrow> normal_list k f data = Some data"
  by (simp add: normal_list_def)

lemma map_items_objects:
  "(\<forall>v \<in> set vs. \<not> nullish v) \<Longrightarrow> map_items f vs = Some (JArr (map f vs))"
  by (auto simp: map_items_def list_ex_iff)

lemma value_not_nullish [simp]:
  "\<not> nullish (wallet_value w)" "\<not> nullish (tx_value t)" "\<not> nullish (entry_value e)"
  by (simp_all add: wallet_value_def tx_value_def entry_value_def)

text \<open>A list is answered as an object with one field.\<close>

lemma normalize_list:
  assumes "\<forall>v \<in> set vs. \<not> nullish v"
  shows "normalize (JObj [(js ''data'', JArr vs)]) = Some (JObj [(js ''data'', JArr (map normal_item vs))])"
  using map_items_objects [OF assms]
  by (simp add: normalize_def normal_list_def set_field_def Let_def)

lemma normalize_body:
  "normalize (body_value b) = Some (case b of
     WalletsBody ws \<Rightarrow> JObj [(js ''data'', JArr (map (\<lambda>w. normal_item (wallet_value w)) ws))]
   | TxsBody ts \<Rightarrow> JObj [(js ''data'', JArr (map (\<lambda>t. normal_item (tx_value t)) ts))]
   | EntriesBody es \<Rightarrow> JObj [(js ''data'', JArr (map (\<lambda>e. normal_item (entry_value e)) es))]
   | _ \<Rightarrow> body_value b)"
proof (cases b)
  case (WalletsBody ws)
  then show ?thesis using normalize_list [of "map wallet_value ws"] by (simp add: comp_def)
next
  case (TxsBody ts)
  then show ?thesis using normalize_list [of "map tx_value ts"] by (simp add: comp_def)
next
  case (EntriesBody es)
  then show ?thesis using normalize_list [of "map entry_value es"] by (simp add: comp_def)
qed (simp_all add: normalize_def normal_list_def set_field_def string_field_def wallet_value_def
      tx_value_def recon_value_def health_value_def Let_def)

lemma deliver_sim:
  assumes "normalize raw = Some data"
  obtains t where "deliver E t0 m path hs body status rhs raw live s =
    (s\<lparr>drawn := drawn s + 1, ticks := ticks s + 2\<rparr>,
     Some \<lparr>a_ok = (200 \<le> status \<and> status < 300), a_status = status, a_data = data,
           a_headers = rhs, a_trace = t\<rparr>)" and "tr_status t = status" and "tr_path t = path"
  using assms by (simp add: deliver_def made_trace_def)

text \<open>A request that the engine in the page answers with a response.\<close>

lemma api_sim:
  assumes "with_key E m extra s = (extra', s')"
    and "handle E (sim_request m path body (request_headers body extra')) (s'\<lparr>ticks := ticks s' + 1\<rparr>) = (s1, Returned r)"
  obtains R where "api_request E Unreachable m path body extra s =
      (s1\<lparr>drawn := drawn s1 + 1, ticks := ticks s1 + 2\<rparr>, Some R)"
    and "a_ok R \<longleftrightarrow> 200 \<le> r_status r \<and> r_status r < 300" and "a_status R = r_status r"
    and "a_headers R = r_headers r" and "normalize (body_value (r_body r)) = Some (a_data R)"
proof -
  obtain data where d: "normalize (body_value (r_body r)) = Some data" using normalize_body by blast
  then obtain t where t: "deliver E (ticks s') m path (request_headers body extra') body (r_status r)
      (r_headers r) (body_value (r_body r)) False s1 =
    (s1\<lparr>drawn := drawn s1 + 1, ticks := ticks s1 + 2\<rparr>,
     Some \<lparr>a_ok = (200 \<le> r_status r \<and> r_status r < 300), a_status = r_status r, a_data = data,
           a_headers = r_headers r, a_trace = t\<rparr>)"
    by (rule deliver_sim)
  show ?thesis
    by (rule that [of "\<lparr>a_ok = (200 \<le> r_status r \<and> r_status r < 300), a_status = r_status r, a_data = data,
           a_headers = r_headers r, a_trace = t\<rparr>"])
      (use t d assms in \<open>simp_all add: api_request_def Let_def\<close>)
qed

section \<open>Every POST carries a key\<close>

lemma map_get_fold_lower:
  "map_get (fold (\<lambda>(k, v). map_set (lower k) v) hs m) j =
   (case map_get (rev (map (\<lambda>(k, v). (lower k, v)) hs)) j of None \<Rightarrow> map_get m j | Some v \<Rightarrow> Some v)"
proof (induction hs arbitrary: m)
  case (Cons h hs)
  then show ?case
    by (cases h) (auto simp: map_of_append map_add_def jsmap.get_put split: option.splits)
qed simp

lemma lower_key [simp]: "lower (js ''Idempotency-Key'') = js ''idempotency-key''"
  by (simp add: lower_def lower_unit_def js_def)

lemma idemKey_not_Nil [simp]: "idemKey E n \<noteq> []"
  by (simp add: idemKey_def)

text \<open>The headers the console passes: none, or a key.\<close>

definition key_headers :: "headers \<Rightarrow> bool" where
  "key_headers hs \<longleftrightarrow> hs = [] \<or> (\<exists>k. hs = [(js ''Idempotency-Key'', k)])"

lemma other_headers [simp]: "lower (js ''accept'') = js ''accept''" "lower (js ''content-type'') = js ''content-type''"
  by (simp_all add: lower_def lower_unit_def js_def)

lemma sent_key:
  assumes "key_headers extra"
  obtains k where "k \<noteq> []"
    "map_get (lower_headers (request_headers body (fst (with_key E POST extra s)))) (js ''idempotency-key'') = Some k"
    "\<And>k'. extra = [(js ''Idempotency-Key'', k')] \<Longrightarrow> k' \<noteq> [] \<Longrightarrow> k = k'"
proof -
  define k where "k = (case extra of [] \<Rightarrow> idemKey E (drawn s) | (_, v) # _ \<Rightarrow>
    if v = [] then idemKey E (drawn s) else v)"
  have "fst (with_key E POST extra s) = [(js ''Idempotency-Key'', k)]"
    using assms by (auto simp: key_headers_def with_key_def lacks_def k_def)
  then have "map_get (lower_headers (request_headers body (fst (with_key E POST extra s))))
      (js ''idempotency-key'') = Some k"
    by (simp add: request_headers_def lower_headers_def)
  moreover have "k \<noteq> []" using assms by (auto simp: k_def key_headers_def split: if_splits)
  ultimately show ?thesis using that by (simp add: k_def)
qed

lemma validate_key_required:
  "validate k hs body = Inl r \<Longrightarrow> map_get hs (js ''idempotency-key'') = Some key \<Longrightarrow> key \<noteq> [] \<Longrightarrow>
   r_body r = ErrorBody c m \<Longrightarrow> c = js ''validation_failed''"
  by (auto simp: validate_def err_def split: jsval.splits if_splits)

end
