(* ===== verification/Store.thy ===== *)
theory Store
  imports Client
begin

text \<open>
  The state of the console (\<open>StoreProvider\<close>) and what its callbacks do to it: the capped lists
  of traces, latencies and toasts (one interface, locale \<open>capped\<close>), the wallet list, the
  selection, the navigation and the engine badge. A \<open>setState\<close> with a function is a function on
  the store.
\<close>

section \<open>Capped histories\<close>

text \<open>\<open>xs.slice(-n)\<close>.\<close>

definition take_last :: "nat \<Rightarrow> 'a list \<Rightarrow> 'a list" where
  "take_last n xs = drop (length xs - n) xs"

lemma rev_take_last: "rev (take_last n xs) = take n (rev xs)"
  by (cases "n \<le> length xs") (simp_all add: take_last_def rev_drop)

text \<open>A list that keeps the newest \<open>cap\<close> items, whichever end it grows at.\<close>

locale capped =
  fixes push :: "'a \<Rightarrow> 'a list \<Rightarrow> 'a list"
    and cap :: nat
    and newest :: "'a list \<Rightarrow> 'a list"
  assumes push_newest: "newest (push x xs) = take cap (x # newest xs)"
    and newest_set: "set (newest xs) = set xs"
    and newest_length: "length (newest xs) = length xs"
    and cap_pos: "0 < cap"
begin

lemma push_length: "length (push x xs) \<le> cap"
  by (metis length_take min.cobounded2 min.commute newest_length push_newest)

lemma push_head: "newest (push x xs) \<noteq> [] \<and> hd (newest (push x xs)) = x"
  using cap_pos by (cases cap) (simp_all add: push_newest)

lemma take_append_take: "take n (xs @ take n ys) = take n (xs @ ys)"
  by (simp add: min_def)

text \<open>After any pushes the list holds the newest ones, newest first.\<close>

lemma push_all: "length xs \<le> cap \<Longrightarrow> newest (fold push ys xs) = take cap (rev ys @ newest xs)"
proof (induction ys arbitrary: xs)
  case Nil
  then show ?case by (simp add: newest_length)
next
  case (Cons y ys)
  show ?case
    using Cons.IH [OF push_length, of y xs] take_append_take [of cap "rev ys" "y # newest xs"]
    by (simp add: push_newest)
qed

lemma push_bounded: "length xs \<le> cap \<Longrightarrow> length (fold push ys xs) \<le> cap"
  by (induction ys arbitrary: xs) (simp_all add: push_length)

end

definition add_trace :: "trace \<Rightarrow> trace list \<Rightarrow> trace list" where
  "add_trace t ts = take 300 (t # ts)"

text \<open>Measured times are in tenths of a millisecond.\<close>

definition add_latency :: "int \<Rightarrow> int list \<Rightarrow> int list" where
  "add_latency ms ls = take_last 40 (ls @ [ms])"

datatype tone = Ok | Err | Info

record toast =
  to_id :: jstr
  to_tone :: tone
  to_title :: jstr
  to_detail :: "jstr option"

definition add_toast :: "toast \<Rightarrow> toast list \<Rightarrow> toast list" where
  "add_toast t ts = take_last 4 (ts @ [t])"

interpretation traces: capped add_trace 300 "\<lambda>ts. ts"
  by unfold_locales (simp_all add: add_trace_def)

interpretation latencies: capped add_latency 40 rev
  by unfold_locales (simp_all add: add_latency_def rev_take_last)

interpretation toasts: capped add_toast 4 rev
  by unfold_locales (simp_all add: add_toast_def rev_take_last)

section \<open>The store\<close>

text \<open>
  A ping of \<open>/health\<close>: no answer, or a status with what \<open>res.json()\<close> gives; \<open>None\<close> is an answer that
  is not JSON.
\<close>

datatype pinged = NoAnswer | Pinged int "jsval option"

datatype mode = Probing | Live | Sim

record store =
  st_mode :: mode
  st_health :: jsval
  st_health_ms :: "int option"
  st_latency :: "int list"
  st_wallets :: "jsval list"
  st_selected :: "jstr option"
  st_traces :: "trace list"
  st_view :: jstr
  st_toasts :: "toast list"
  st_revision :: nat
  st_focus :: "jstr option"

text \<open>The initial view is the hash of the page's address, unchecked.\<close>

definition initial_store :: "jstr \<Rightarrow> store" where
  "initial_store hash =
     \<lparr>st_mode = Probing, st_health = JNull, st_health_ms = None, st_latency = [], st_wallets = [],
      st_selected = None, st_traces = [],
      st_view = (let h = drop 1 hash in if h = [] then js ''overview'' else h),
      st_toasts = [], st_revision = 0, st_focus = None\<rparr>"

definition on_trace :: "trace \<Rightarrow> store \<Rightarrow> store" where
  "on_trace t st = st\<lparr>st_traces := add_trace t (st_traces st)\<rparr>"

text \<open>\<open>refreshHealth\<close> with the time of the ping; an answer that is not JSON throws and is swallowed.\<close>

definition refresh_health :: "pinged \<Rightarrow> int \<Rightarrow> store \<Rightarrow> store" where
  "refresh_health net ms st =
     (case net of
        NoAnswer \<Rightarrow> st
      | Pinged status json \<Rightarrow>
          if 200 \<le> status \<and> status < 300
          then (case json of
                  None \<Rightarrow> st
                | Some data \<Rightarrow>
                    st\<lparr>st_health := data, st_health_ms := Some ms, st_latency := add_latency ms (st_latency st)\<rparr>)
          else st)"

text \<open>
  \<open>refreshWallets\<close> on the result of its request; \<open>None\<close>: the list holds a \<open>null\<close> and the
  callback throws.
\<close>

definition refresh_wallets :: "api_result \<Rightarrow> store \<Rightarrow> store option" where
  "refresh_wallets r st =
     (case (if a_ok r then get_field (a_data r) (js ''data'') else JUndef) of
        JArr ws \<Rightarrow>
          (if list_ex nullish ws then None
           else let ws' = map normal_item ws
                in Some (st\<lparr>st_wallets := ws',
                            st_selected := (case st_selected st of Some i \<Rightarrow> Some i
                              | None \<Rightarrow> (case ws' of [] \<Rightarrow> None
                                         | w # _ \<Rightarrow> Some (js_string (get_field w (js ''id'')))))\<rparr>))
      | v \<Rightarrow> if truthy v then None else Some st)"

definition boot_mode :: "pinged \<Rightarrow> mode" where
  "boot_mode net =
     (case net of NoAnswer \<Rightarrow> Sim
      | Pinged status json \<Rightarrow> if 200 \<le> status \<and> status < 300 then Live else Sim)"

definition boot :: "pinged \<Rightarrow> store \<Rightarrow> store" where
  "boot net st = st\<lparr>st_mode := boot_mode net\<rparr>"

definition go :: "jstr \<Rightarrow> store \<Rightarrow> store" where
  "go v st = st\<lparr>st_view := v\<rparr>"

definition show_toast :: "toast \<Rightarrow> store \<Rightarrow> store" where
  "show_toast t st = st\<lparr>st_toasts := add_toast t (st_toasts st)\<rparr>"

definition expire_toast :: "jstr \<Rightarrow> store \<Rightarrow> store" where
  "expire_toast i st = st\<lparr>st_toasts := filter (\<lambda>t. to_id t \<noteq> i) (st_toasts st)\<rparr>"

definition bump_revision :: "store \<Rightarrow> store" where
  "bump_revision st = st\<lparr>st_revision := st_revision st + 1\<rparr>"

definition clear_traces :: "store \<Rightarrow> store" where
  "clear_traces st = st\<lparr>st_traces := []\<rparr>"

definition select_wallet :: "jstr \<Rightarrow> store \<Rightarrow> store" where
  "select_wallet i st = st\<lparr>st_selected := Some i\<rparr>"

definition set_focus :: "jstr option \<Rightarrow> store \<Rightarrow> store" where
  "set_focus f st = st\<lparr>st_focus := f\<rparr>"

definition wallet_id :: "jsval \<Rightarrow> jsval" where
  "wallet_id w = get_field w (js ''id'')"

definition selected :: "store \<Rightarrow> jsval option" where
  "selected st =
     (case st_selected st of None \<Rightarrow> None
      | Some i \<Rightarrow> find (\<lambda>w. wallet_id w = JStr i) (st_wallets st))"

section \<open>Navigation and the engine badge\<close>

definition NAV :: "(jstr \<times> jstr \<times> jstr) list" where
  "NAV =
     [(js ''overview'', js ''Overview'', js ''Engine health and guarantees''),
      (js ''wallets'', js ''Wallets'', js ''Accounts and balances''),
      (js ''transact'', js ''Transact'', js ''Move money with idempotency''),
      (js ''ledger'', js ''Ledger'', js ''Entries and reconciliation''),
      (js ''lab'', js ''Systems Lab'', js ''Prove the guarantees''),
      (js ''console'', js ''API Console'', js ''Every request, inspected'')]"

definition badge_label :: "store \<Rightarrow> jstr" where
  "badge_label st =
     (if st_mode st = Probing then js ''Connecting''
      else if \<not> truthy (st_health st) then js ''Unreachable''
      else if st_mode st = Live then js ''Live engine'' else js ''Simulated'')"

section \<open>What the callbacks keep\<close>

datatype event =
    EvTrace trace
  | EvHealth pinged int
  | EvWallets api_result
  | EvBoot pinged
  | EvGo jstr
  | EvToast toast
  | EvExpire jstr
  | EvBump
  | EvClear
  | EvSelect jstr
  | EvFocus "jstr option"

definition on_event :: "event \<Rightarrow> store \<Rightarrow> store" where
  "on_event e st =
     (case e of
        EvTrace t \<Rightarrow> on_trace t st
      | EvHealth net ms \<Rightarrow> refresh_health net ms st
      | EvWallets r \<Rightarrow> (case refresh_wallets r st of None \<Rightarrow> st | Some st' \<Rightarrow> st')
      | EvBoot net \<Rightarrow> boot net st
      | EvGo v \<Rightarrow> go v st
      | EvToast t \<Rightarrow> show_toast t st
      | EvExpire i \<Rightarrow> expire_toast i st
      | EvBump \<Rightarrow> bump_revision st
      | EvClear \<Rightarrow> clear_traces st
      | EvSelect i \<Rightarrow> select_wallet i st
      | EvFocus f \<Rightarrow> set_focus f st)"

lemmas event_defs = on_event_def on_trace_def refresh_health_def refresh_wallets_def boot_def go_def
  show_toast_def expire_toast_def bump_revision_def clear_traces_def select_wallet_def set_focus_def

definition within_caps :: "store \<Rightarrow> bool" where
  "within_caps st \<longleftrightarrow> length (st_traces st) \<le> 300 \<and> length (st_latency st) \<le> 40 \<and>
     length (st_toasts st) \<le> 4"

lemma event_within_caps: "within_caps st \<Longrightarrow> within_caps (on_event e st)"
  using traces.push_length latencies.push_length toasts.push_length
  by (cases e)
    (auto simp: event_defs within_caps_def Let_def split: pinged.splits option.splits jsval.splits
      intro: order_trans [OF length_filter_le])

interpretation caps: preserved on_event within_caps
  by unfold_locales (rule event_within_caps)

text \<open>Without a network the health is never known.\<close>

fun offline :: "event \<Rightarrow> bool" where
  "offline (EvHealth net ms) = (net = NoAnswer)"
| "offline (EvBoot net) = (net = NoAnswer)"
| "offline e = True"

definition no_health :: "store \<Rightarrow> bool" where
  "no_health st \<longleftrightarrow> st_health st = JNull"

lemma offline_no_health: "offline e \<Longrightarrow> no_health st \<Longrightarrow> no_health (on_event e st)"
  by (cases e) (auto simp: event_defs no_health_def Let_def split: option.splits jsval.splits)

lemma offline_all: "\<forall>e \<in> set es. offline e \<Longrightarrow> no_health st \<Longrightarrow> no_health (fold on_event es st)"
  by (induction es arbitrary: st) (auto simp: offline_no_health)

text \<open>
  Without a network, whatever the callbacks of the store do, the badge never says that the engine
  is simulated, because the health report is fetched from the network only.
\<close>

lemma offline_badge:
  assumes "\<forall>e \<in> set es. offline e"
  shows "badge_label (fold on_event es (initial_store h)) \<in> {js ''Connecting'', js ''Unreachable''}"
proof -
  have "no_health (fold on_event es (initial_store h))"
    using assms by (intro offline_all) (simp_all add: no_health_def initial_store_def)
  then show ?thesis by (simp add: badge_label_def no_health_def)
qed

text \<open>The caps hold after any events; the traces are the newest, newest first.\<close>

lemma store_capped:
  "within_caps (fold on_event es (initial_store h)) \<and>
   st_traces (fold on_event (map EvTrace ts) (initial_store h)) = take 300 (rev ts)"
proof
  have "within_caps (initial_store h)" by (simp add: within_caps_def initial_store_def)
  then show "within_caps (fold on_event es (initial_store h))" by (rule caps.run_inv)
  have "st_traces (fold on_event (map EvTrace ts) st) = fold add_trace ts (st_traces st)" for st
    by (induction ts arbitrary: st) (simp_all add: event_defs)
  then show "st_traces (fold on_event (map EvTrace ts) (initial_store h)) = take 300 (rev ts)"
    using traces.push_all [of "[]" ts] by (simp add: initial_store_def)
qed

end
