(* ===== verification/Dashboard.thy ===== *)
theory Dashboard
  imports Store
begin

text \<open>
  The pure logic that the frame and several pages share: the total value of the wallets,
  initials and colour of a wallet, the wallet switcher and the command palette. The owner of a
  wallet is not checked by the store: where the code calls a string method on it, another value
  is an exception (\<open>None\<close>).
\<close>

section \<open>Sums of balances\<close>

definition balance_of :: "jsval \<Rightarrow> int" where
  "balance_of w = as_number (get_field w (js ''balance''))"

text \<open>\<open>xs.reduce((s, x) => s + x, 0)\<close>.\<close>

definition js_sum :: "int list \<Rightarrow> int" where
  "js_sum xs = foldl js_add 0 xs"

definition total_held :: "jsval list \<Rightarrow> int" where
  "total_held ws = js_sum (map balance_of ws)"

lemma js_sum_exact:
  assumes "\<forall>x \<in> set xs. 0 \<le> x" and "sum_list xs \<le> 2 ^ 53"
  shows "js_sum xs = sum_list xs"
  unfolding js_sum_def
proof (rule num.sum_exact)
  fix ys zs assume xs: "xs = ys @ zs"
  have "0 \<le> sum_list ys" "0 \<le> sum_list zs" using assms(1) by (auto simp: xs intro: sum_list_nonneg)
  then show "\<bar>sum_list ys\<bar> \<le> 2 ^ 53" using assms(2) by (simp add: xs)
qed

section \<open>Wallet names\<close>

text \<open>The code points of a string, as \<open>for (const c of name)\<close> gives them.\<close>

fun code_points :: "jstr \<Rightarrow> jstr list" where
  "code_points (c # d # cs) =
     (if high_surrogate c \<and> low_surrogate d then [c, d] # code_points cs
      else [c] # code_points (d # cs))"
| "code_points [c] = [[c]]"
| "code_points [] = []"

definition hue :: "jstr \<Rightarrow> int" where
  "hue name = foldl (\<lambda>h c. (h * 31 + uint (hd c)) mod 360) 0 (code_points name)"

text \<open>\<open>name.split(/\s+/)\<close>.\<close>

function split_spaces :: "jstr \<Rightarrow> jstr list" where
  "split_spaces s =
     (let w = takeWhile (\<lambda>c. \<not> is_space c) s; rest = dropWhile (\<lambda>c. \<not> is_space c) s
      in if rest = [] then [w] else w # split_spaces (dropWhile is_space rest))"
  by auto
termination
proof (relation "measure length")
  fix s w rest :: jstr
  assume rest: "rest = dropWhile (\<lambda>c. \<not> is_space c) s" "rest \<noteq> []"
  then have "is_space (hd rest)" using hd_dropWhile [of "\<lambda>c. \<not> is_space c" s] by simp
  then have "length (dropWhile is_space rest) < length rest"
    using rest(2) length_dropWhile_le [of is_space "tl rest"] by (cases rest) auto
  also have "\<dots> \<le> length s" by (simp add: rest(1) length_dropWhile_le)
  finally show "(dropWhile is_space rest, s) \<in> measure length" by simp
qed simp

declare split_spaces.simps [simp del]

definition upper_unit :: "code_unit \<Rightarrow> code_unit" where
  "upper_unit c = (if 0x61 \<le> c \<and> c \<le> 0x7A then c - 0x20 else c)"

definition initials :: "jstr \<Rightarrow> jstr" where
  "initials name = map upper_unit (concat (take 2 (map (take 1) (split_spaces name))))"

text \<open>The owner of a wallet as it was answered, unconverted.\<close>

definition wallet_owner :: "jsval \<Rightarrow> jsval" where
  "wallet_owner w = get_field w (js ''owner'')"

definition is_text :: "jsval \<Rightarrow> bool" where
  "is_text v \<longleftrightarrow> (case v of JStr s \<Rightarrow> True | _ \<Rightarrow> False)"

text \<open>
  \<open>Monogram\<close>: the initials and the hue of a name. \<open>None\<close>: the name is not text, so \<open>name.split\<close> is
  no function and rendering throws.
\<close>

definition monogram :: "jsval \<Rightarrow> (jstr \<times> int) option" where
  "monogram v = (case v of JStr s \<Rightarrow> Some (initials s, hue s) | _ \<Rightarrow> None)"

lemma monogram_iff: "monogram v \<noteq> None \<longleftrightarrow> is_text v"
  by (cases v) (simp_all add: monogram_def is_text_def)

lemma hue_bounds: "0 \<le> hue name \<and> hue name < 360"
proof -
  have "0 \<le> h \<and> h < 360 \<Longrightarrow> 0 \<le> foldl (\<lambda>h c. (h * 31 + uint (hd c)) mod 360) h cs \<and>
      foldl (\<lambda>h c. (h * 31 + uint (hd c)) mod 360) h cs < 360" for h and cs :: "jstr list"
    by (induction cs arbitrary: h) simp_all
  from this [of 0] show ?thesis by (simp add: hue_def)
qed

section \<open>Searching\<close>

text \<open>\<open>h.includes(n)\<close>.\<close>

fun contains :: "jstr \<Rightarrow> jstr \<Rightarrow> bool" where
  "contains n [] = (n = [])"
| "contains n (c # h) = (take (length n) (c # h) = n \<or> contains n h)"

text \<open>\<open>v.toLowerCase().includes(q)\<close> on a value that is text.\<close>

definition lower_contains :: "jstr \<Rightarrow> jsval \<Rightarrow> bool" where
  "lower_contains q v = (case v of JStr s \<Rightarrow> contains q (lower s) | _ \<Rightarrow> False)"

text \<open>\<open>None\<close>: \<open>toLowerCase\<close> of an owner that is not text throws.\<close>

definition switcher_list :: "jstr \<Rightarrow> jsval list \<Rightarrow> jsval list option" where
  "switcher_list filter_text ws =
     (if trim filter_text = [] then Some (take 15 ws)
      else if list_ex (\<lambda>w. \<not> is_text (wallet_owner w)) ws then None
      else let q = trim (lower filter_text)
           in Some (filter (\<lambda>w. lower_contains q (wallet_owner w) \<or> contains q (js_string (wallet_id w))) ws))"

text \<open>The palette: the sections and the wallets, filtered by label and by second line.\<close>

datatype target = Section jstr | Wallet jstr

record palette_item =
  pi_key :: jstr
  pi_label :: jsval
  pi_sub :: jstr
  pi_target :: target

definition wallet_item :: "jsval \<Rightarrow> palette_item" where
  "wallet_item w =
     \<lparr>pi_key = js_string (wallet_id w), pi_label = wallet_owner w,
      pi_sub = shortId (wallet_id w) 8 @ js '' '' @ [0xB7] @ js '' '' @
        money_text (balance_of w) (js_string (get_field w (js ''currency''))) False,
      pi_target = Wallet (js_string (wallet_id w))\<rparr>"

definition all_items :: "jsval list \<Rightarrow> palette_item list" where
  "all_items ws =
     map (\<lambda>(i, label, blurb).
            \<lparr>pi_key = i, pi_label = JStr label, pi_sub = blurb, pi_target = Section i\<rparr>) NAV @
     map wallet_item ws"

text \<open>\<open>None\<close>: a query is lowered against a label that is not text, which throws.\<close>

definition palette_items :: "jstr \<Rightarrow> jsval list \<Rightarrow> palette_item list option" where
  "palette_items q ws =
     (let s = lower q
      in if s = [] then Some (all_items ws)
         else if list_ex (\<lambda>i. \<not> is_text (pi_label i)) (all_items ws) then None
         else Some (filter (\<lambda>i. lower_contains s (pi_label i) \<or> contains s (lower (pi_sub i))) (all_items ws)))"

text \<open>The rows there are to choose from; none when the palette has thrown.\<close>

definition palette_list :: "jstr \<Rightarrow> jsval list \<Rightarrow> palette_item list" where
  "palette_list q ws = (case palette_items q ws of None \<Rightarrow> [] | Some items \<Rightarrow> items)"

lemma palette_list_subset: "set (palette_list q ws) \<subseteq> set (all_items ws)"
  by (auto simp: palette_list_def palette_items_def Let_def)

text \<open>The arrow keys; the index is an \<open>int\<close> because the code lets it become \<open>-1\<close>.\<close>

definition arrow_down :: "nat \<Rightarrow> int \<Rightarrow> int" where
  "arrow_down n i = min (i + 1) (int n - 1)"

definition arrow_up :: "int \<Rightarrow> int" where
  "arrow_up i = max (i - 1) 0"

definition enter_key :: "palette_item list \<Rightarrow> int \<Rightarrow> target option" where
  "enter_key items i =
     (if 0 \<le> i \<and> i < int (length items) then Some (pi_target (items ! nat i)) else None)"

lemma includes_iff: "contains n h \<longleftrightarrow> (\<exists>u v. h = u @ n @ v)"
proof (induction h)
  case (Cons c h)
  have "take (length n) (c # h) = n \<longleftrightarrow> (\<exists>v. c # h = n @ v)"
    by (metis append_eq_conv_conj append_take_drop_id)
  then show ?case
    unfolding contains.simps Cons.IH by (metis (no_types) append_Cons append_Nil list.exhaust list.inject)
qed simp

section \<open>Status colours\<close>

datatype badge_tone = ToneOk | ToneWarn | ToneErr

definition status_tone :: "int \<Rightarrow> badge_tone" where
  "status_tone status =
     (if status = 0 then ToneErr else if status < 300 then ToneOk
      else if status < 500 then ToneWarn else ToneErr)"

end
