(* ===== verification/Lab.thy ===== *)
theory Lab
  imports Dashboard
begin

text \<open>
  The Systems Lab: four experiments that call the API and compute a verdict from the answers.
  A run is a state-passing computation over the engine and the log of steps; an exception
  (a request that throws, a wallet that cannot be read) ends it with the state \<open>error\<close>. The
  network is a function of the clock; the batch of the concurrency experiment runs under any
  schedule of the engine's threads.
\<close>

section \<open>Steps, assertions and results\<close>

datatype exp_id = Replay | Tamper | Overdraft | Concurrency

record lab_step =
  sp_label :: jstr
  sp_method :: http_method
  sp_path :: jstr
  sp_status :: int
  sp_ms :: int
  sp_note :: jsval
  sp_replayed :: bool
  sp_setup :: bool

record assertion =
  as_label :: jstr
  as_expected :: jstr
  as_actual :: jstr
  as_pass :: bool

datatype lab_state = Idle | Running | Pass | Fail | Error

record lab_result =
  lr_state :: lab_state
  lr_steps :: "lab_step list"
  lr_assertions :: "assertion list"
  lr_error :: "jstr option"

record fixture =
  fx_a :: jsval
  fx_b :: jsval

definition idle :: lab_result where
  "idle = \<lparr>lr_state = Idle, lr_steps = [], lr_assertions = [], lr_error = None\<rparr>"

section \<open>Computations that log and may throw\<close>

record lab_run =
  lx_eng :: engine
  lx_log :: "lab_step list"
  lx_fx :: "fixture option"

type_synonym 'a lab = "lab_run \<Rightarrow> (jstr + 'a) \<times> lab_run"

definition give :: "'a \<Rightarrow> 'a lab" where
  "give x s = (Inr x, s)"

definition throw :: "jstr \<Rightarrow> 'a lab" where
  "throw e s = (Inl e, s)"

definition and_then :: "'a lab \<Rightarrow> ('a \<Rightarrow> 'b lab) \<Rightarrow> 'b lab" where
  "and_then m f s = (case m s of (Inl e, s') \<Rightarrow> (Inl e, s') | (Inr x, s') \<Rightarrow> f x s')"

definition log_step :: "lab_step \<Rightarrow> unit lab" where
  "log_step p s = (Inr (), s\<lparr>lx_log := lx_log s @ [p]\<rparr>)"

definition set_fixture :: "fixture \<Rightarrow> unit lab" where
  "set_fixture f s = (Inr (), s\<lparr>lx_fx := Some f\<rparr>)"

text \<open>A fresh key.\<close>

definition draw_key :: "env \<Rightarrow> jstr lab" where
  "draw_key E s =
     (Inr (idemKey E (drawn (lx_eng s))), s\<lparr>lx_eng := (lx_eng s)\<lparr>drawn := drawn (lx_eng s) + 1\<rparr>\<rparr>)"

definition was_replayed :: "api_result \<Rightarrow> bool" where
  "was_replayed r \<longleftrightarrow> map_get (a_headers r) (js ''idempotent-replayed'') = Some (js ''true'')"

text \<open>\<open>call\<close>: a request and its step; the request may throw.\<close>

definition lab_call ::
  "env \<Rightarrow> (nat \<Rightarrow> fetched) \<Rightarrow> jstr \<Rightarrow> http_method \<Rightarrow> jstr \<Rightarrow> jsval \<Rightarrow> headers \<Rightarrow> bool \<Rightarrow> api_result lab" where
  "lab_call E net label m path body hs setup s =
     (case api_request E (net (ticks (lx_eng s))) m path body hs (lx_eng s) of
        (e, None) \<Rightarrow> (Inl (js ''request failed''), s\<lparr>lx_eng := e\<rparr>)
      | (e, Some r) \<Rightarrow>
          (Inr r, s\<lparr>lx_eng := e, lx_log := lx_log s @
             [\<lparr>sp_label = label, sp_method = m, sp_path = js ''/api/v1'' @ path, sp_status = a_status r,
               sp_ms = tr_ms (a_trace r), sp_note = (if a_ok r then JUndef else errCode r),
               sp_replayed = was_replayed r, sp_setup = setup\<rparr>]\<rparr>))"

definition id_text :: "jsval \<Rightarrow> jstr" where
  "id_text w = js_string (wallet_id w)"

definition lab_balance :: "env \<Rightarrow> (nat \<Rightarrow> fetched) \<Rightarrow> jsval \<Rightarrow> jstr \<Rightarrow> int lab" where
  "lab_balance E net w label =
     and_then (lab_call E net label GET (js ''/wallets/'' @ id_text w) JUndef [] True)
       (\<lambda>r. if a_ok r then give (as_number (get_field (a_data r) (js ''balance'')))
            else throw (js ''could not read wallet '' @ id_text w @ js '' (HTTP '' @
                        num_text (a_status r) @ js '')''))"

definition key_header :: "jstr \<Rightarrow> headers" where
  "key_header key = [(js ''Idempotency-Key'', key)]"

definition alpha :: jstr where "alpha = [0x3B1]"
definition beta :: jstr where "beta = [0x3B2]"

definition dollars :: "int \<Rightarrow> jstr" where
  "dollars n = money_text n (js ''USD'') False"

section \<open>Fixtures\<close>

definition owner_body :: "jstr \<Rightarrow> jstr \<Rightarrow> jsval" where
  "owner_body greek tag =
     JObj [(js ''owner'', JStr (js ''Lab '' @ greek @ js '' '' @ [0xB7] @ js '' '' @ tag)),
           (js ''currency'', JStr (js ''USD''))]"

definition deposit_body :: "jsval \<Rightarrow> int \<Rightarrow> jstr \<Rightarrow> jsval" where
  "deposit_body w amount ref =
     JObj [(js ''wallet_id'', wallet_id w), (js ''amount'', JNum amount), (js ''reference'', JStr ref)]"

definition transfer_body :: "jsval \<Rightarrow> jsval \<Rightarrow> int \<Rightarrow> jstr \<Rightarrow> jsval" where
  "transfer_body a b amount ref =
     JObj [(js ''from_wallet_id'', wallet_id a), (js ''to_wallet_id'', wallet_id b),
           (js ''amount'', JNum amount), (js ''reference'', JStr ref)]"

text \<open>Two wallets, created once per session; \<open>tag\<close> is the random suffix of their names.\<close>

definition make_fixture :: "env \<Rightarrow> (nat \<Rightarrow> fetched) \<Rightarrow> jstr \<Rightarrow> fixture lab" where
  "make_fixture E net tag =
     and_then (lab_call E net (js ''Create fixture '' @ alpha) POST (js ''/wallets'') (owner_body alpha tag) [] True)
       (\<lambda>a. and_then (lab_call E net (js ''Create fixture '' @ beta) POST (js ''/wallets'') (owner_body beta tag) [] True)
       (\<lambda>b. if \<not> a_ok a \<or> \<not> a_ok b then throw (js ''fixture wallets could not be created'')
            else
              let f = \<lparr>fx_a = a_data a, fx_b = a_data b\<rparr>
              in and_then (set_fixture f) (\<lambda>_. and_then (draw_key E)
                (\<lambda>key. and_then (lab_call E net (js ''Fund '' @ beta @ js '' $500.00'') POST (js ''/deposits'')
                         (deposit_body (fx_b f) 50000 (js ''lab:fixture'')) (key_header key) True)
                  (\<lambda>r. give f)))))"

definition ensure_fixture :: "env \<Rightarrow> (nat \<Rightarrow> fetched) \<Rightarrow> jstr \<Rightarrow> fixture lab" where
  "ensure_fixture E net tag s =
     (case lx_fx s of Some f \<Rightarrow> give f s | None \<Rightarrow> make_fixture E net tag s)"

definition top_up :: "env \<Rightarrow> (nat \<Rightarrow> fetched) \<Rightarrow> fixture \<Rightarrow> unit lab" where
  "top_up E net f =
     and_then (lab_balance E net (fx_a f) (js ''Read '' @ js_string (wallet_owner (fx_a f))))
       (\<lambda>bal. if bal < 100000
              then and_then (draw_key E)
                (\<lambda>key. and_then (lab_call E net (js ''Top up '' @ alpha) POST (js ''/deposits'')
                         (deposit_body (fx_a f) (js_add (js_add 100000 (- bal)) 50000) (js ''lab:topup''))
                         (key_header key) True)
                  (\<lambda>r. give ()))
              else give ())"

definition snapshot :: "env \<Rightarrow> (nat \<Rightarrow> fetched) \<Rightarrow> jstr \<Rightarrow> jsval \<Rightarrow> int lab" where
  "snapshot E net greek w = lab_balance E net w (js ''Snapshot '' @ greek)"

definition check :: "jstr \<Rightarrow> jstr \<Rightarrow> jstr \<Rightarrow> bool \<Rightarrow> assertion" where
  "check label expected actual pass =
     \<lparr>as_label = label, as_expected = expected, as_actual = actual, as_pass = pass\<rparr>"

section \<open>Idempotency replay\<close>

definition replay_header :: "api_result \<Rightarrow> jstr" where
  "replay_header r =
     (case map_get (a_headers r) (js ''idempotent-replayed'') of None \<Rightarrow> js ''absent'' | Some v \<Rightarrow> v)"

definition signature :: "api_result \<Rightarrow> jsval" where
  "signature r =
     (if a_ok r then
        let i = get_field (a_data r) (js ''id'')
        in if truthy i then JStr (js_string i)
           else or_else (get_field (a_data r) (js ''status'')) (JStr (js ''success''))
      else JNull)"

definition same_signature :: "api_result list \<Rightarrow> bool" where
  "same_signature rs \<longleftrightarrow>
     list_all (\<lambda>r. truthy (signature r) \<and> strict_eq (signature r) (signature (hd rs))) rs"

definition replay_assertions :: "int \<Rightarrow> int \<Rightarrow> api_result list \<Rightarrow> assertion list" where
  "replay_assertions before after rs =
     [check (js ''First attempt is accepted'') (js ''2xx'') (num_text (a_status (hd rs))) (a_ok (hd rs)),
      check (js ''Retries also succeed'') (js ''2xx, 2xx'')
        (join (js '', '') (map (\<lambda>r. num_text (a_status r)) (tl rs))) (list_all a_ok (tl rs)),
      check (js ''Retries are flagged as replays'') (js ''Idempotent-Replayed: true'')
        (join (js '', '') (map replay_header (tl rs))) (list_all was_replayed (tl rs)),
      check (js ''Same response signature every time'') (js ''1 unique receipt'')
        (num_text (int (length (dedup (filter truthy (map signature rs))))) @ js '' unique'')
        (same_signature rs),
      check (js ''Sender debited exactly once'') (dollars (- 2500)) (dollars (js_add after (- before)))
        (js_add after (- before) = - 2500)]"

definition replay_attempt ::
  "env \<Rightarrow> (nat \<Rightarrow> fetched) \<Rightarrow> jstr \<Rightarrow> jsval \<Rightarrow> nat \<Rightarrow> api_result lab" where
  "replay_attempt E net key body i =
     lab_call E net (js ''Attempt '' @ dec i @ js '' '' @ [0xB7] @ js '' key '' @ shortId (JStr key) 6) POST
       (js ''/transfers'') body (key_header key) False"

definition replay_experiment :: "env \<Rightarrow> (nat \<Rightarrow> fetched) \<Rightarrow> fixture \<Rightarrow> assertion list lab" where
  "replay_experiment E net f =
     and_then (snapshot E net alpha (fx_a f)) (\<lambda>before.
     and_then (draw_key E) (\<lambda>key.
       let body = transfer_body (fx_a f) (fx_b f) 2500 (js ''lab:replay'')
       in and_then (replay_attempt E net key body 1) (\<lambda>r1.
          and_then (replay_attempt E net key body 2) (\<lambda>r2.
          and_then (replay_attempt E net key body 3) (\<lambda>r3.
          and_then (snapshot E net alpha (fx_a f)) (\<lambda>after.
            give (replay_assertions before after [r1, r2, r3])))))))"

section \<open>Payload tampering\<close>

definition status_and_code :: "api_result \<Rightarrow> jstr" where
  "status_and_code r =
     trim (num_text (a_status r) @ js '' '' @ (if a_ok r then [] else js_string (errCode r)))"

definition tamper_assertions :: "int \<Rightarrow> int \<Rightarrow> api_result \<Rightarrow> api_result \<Rightarrow> assertion list" where
  "tamper_assertions before after r1 r2 =
     [check (js ''Original request is accepted'') (js ''2xx'') (num_text (a_status r1)) (a_ok r1),
      check (js ''Tampered request is rejected'') (js ''409 or 422'') (status_and_code r2)
        (a_status r2 = 409 \<or> a_status r2 = 422),
      check (js ''Not served as a replay'') (js ''no replay header'') (replay_header r2)
        (\<not> was_replayed r2),
      check (js ''Only the original amount moved'') (dollars (- 1000)) (dollars (js_add after (- before)))
        (js_add after (- before) = - 1000)]"

definition tamper_experiment :: "env \<Rightarrow> (nat \<Rightarrow> fetched) \<Rightarrow> fixture \<Rightarrow> assertion list lab" where
  "tamper_experiment E net f =
     and_then (snapshot E net alpha (fx_a f)) (\<lambda>before.
     and_then (draw_key E) (\<lambda>key.
     and_then (lab_call E net (js ''Original $10.00 '' @ [0xB7] @ js '' key '' @ shortId (JStr key) 6) POST
             (js ''/transfers'') (transfer_body (fx_a f) (fx_b f) 1000 (js ''lab:tamper''))
             (key_header key) False) (\<lambda>r1.
     and_then (lab_call E net (js ''Tampered $9,000.00 '' @ [0xB7] @ js '' same key'') POST (js ''/transfers'')
             (transfer_body (fx_a f) (fx_b f) 900000 (js ''lab:tamper'')) (key_header key) False) (\<lambda>r2.
     and_then (snapshot E net alpha (fx_a f)) (\<lambda>after.
       give (tamper_assertions before after r1 r2))))))"

section \<open>Overdraft\<close>

definition lab_reconcile :: "env \<Rightarrow> (nat \<Rightarrow> fetched) \<Rightarrow> jstr \<Rightarrow> jsval \<Rightarrow> api_result lab" where
  "lab_reconcile E net label w =
     lab_call E net label GET (js ''/wallets/'' @ id_text w @ js ''/reconcile'') JUndef [] True"

definition entry_count :: "api_result \<Rightarrow> jsval" where
  "entry_count r = get_field (a_data r) (js ''entry_count'')"

definition entries_text :: "api_result \<Rightarrow> jstr" where
  "entries_text r = js_string (coalesce (entry_count r) (JStr (js ''?''))) @ js '' entries''"

definition flag :: "api_result \<Rightarrow> jstr \<Rightarrow> bool" where
  "flag r k \<longleftrightarrow> truthy (get_field (a_data r) k)"

definition overdraft_assertions ::
  "int \<Rightarrow> int \<Rightarrow> api_result \<Rightarrow> api_result \<Rightarrow> api_result \<Rightarrow> assertion list" where
  "overdraft_assertions before after r0 r r1 =
     [check (js ''Withdrawal is rejected'') (js ''400 or 422'') (status_and_code r)
        (a_status r = 400 \<or> a_status r = 422),
      check (js ''Balance unchanged'') (dollars before) (dollars after) (after = before),
      check (js ''No ledger entries written'') (entries_text r0) (entries_text r1)
        (a_ok r0 \<and> a_ok r1 \<and> strict_eq (entry_count r0) (entry_count r1)),
      check (js ''Wallet still reconciles'') (js ''balanced'')
        (if a_ok r1 then (if flag r1 (js ''balanced'') then js ''balanced'' else js ''drift'')
         else js ''HTTP '' @ num_text (a_status r1))
        (a_ok r1 \<and> flag r1 (js ''balanced''))]"

definition withdraw_body :: "jsval \<Rightarrow> int \<Rightarrow> jsval" where
  "withdraw_body w amount =
     JObj [(js ''wallet_id'', wallet_id w), (js ''amount'', JNum amount),
           (js ''reference'', JStr (js ''lab:overdraft''))]"

definition overdraft_experiment :: "env \<Rightarrow> (nat \<Rightarrow> fetched) \<Rightarrow> fixture \<Rightarrow> assertion list lab" where
  "overdraft_experiment E net f =
     and_then (lab_reconcile E net (js ''Reconcile '' @ alpha @ js '' (before)'') (fx_a f)) (\<lambda>r0.
     and_then (snapshot E net alpha (fx_a f)) (\<lambda>before.
     and_then (draw_key E) (\<lambda>key.
     and_then (lab_call E net (js ''Withdraw '' @ dollars (js_add before 1)) POST (js ''/withdrawals'')
                (withdraw_body (fx_a f) (js_add before 1)) (key_header key) False) (\<lambda>r.
     and_then (snapshot E net alpha (fx_a f)) (\<lambda>after.
     and_then (lab_reconcile E net (js ''Reconcile '' @ alpha @ js '' (after)'') (fx_a f)) (\<lambda>r1.
       give (overdraft_assertions before after r0 r r1)))))))"

section \<open>Concurrent batch\<close>

text \<open>
  One planned transfer: its direction and amount. \<open>Math.random()\<close> is a numerator over \<open>2 ^ 53\<close>;
  \<open>4953959590107546\<close> is the literal \<open>0.55\<close>.
\<close>

definition planned :: "env \<Rightarrow> nat \<Rightarrow> nat \<Rightarrow> bool \<times> int" where
  "planned E rnd i =
     (random E (rnd + 2 * i) < 4953959590107546,
      (5 + js_mul (random E (rnd + 2 * i + 1)) 115 div 2 ^ 53) * 100)"

definition batch_body :: "fixture \<Rightarrow> nat \<Rightarrow> bool \<times> int \<Rightarrow> jsval" where
  "batch_body f i p =
     transfer_body (if fst p then fx_a f else fx_b f) (if fst p then fx_b f else fx_a f) (snd p)
       (js ''lab:batch:'' @ dec i)"

text \<open>The requests of the batch, with their keys drawn in order.\<close>

definition batch_request :: "env \<Rightarrow> fixture \<Rightarrow> nat \<Rightarrow> nat \<Rightarrow> bool \<times> int \<Rightarrow> request" where
  "batch_request E f d i p =
     (let body = batch_body f i p
      in sim_request POST (js ''/transfers'') body (request_headers body (key_header (idemKey E (d + i)))))"

definition batch_plan :: "env \<Rightarrow> nat \<Rightarrow> nat \<Rightarrow> (bool \<times> int) list" where
  "batch_plan E rnd n = map (planned E rnd) [0..<n]"

definition batch_requests :: "env \<Rightarrow> fixture \<Rightarrow> nat \<Rightarrow> (bool \<times> int) list \<Rightarrow> request list" where
  "batch_requests E f d plan = map (\<lambda>(i, p). batch_request E f d i p) (enumerate 0 plan)"

text \<open>The status and body of each request when all threads have finished.\<close>

fun outcome_result :: "outcome \<Rightarrow> res option" where
  "outcome_result (Returned r) = Some r"
| "outcome_result Threw = None"

text \<open>
  The whole batch on the engine in the page: \<open>Promise.all\<close> waits for all threads (a schedule
  that leaves some unfinished gives no result) and fails when one of them threw.
\<close>

definition run_batch :: "env \<Rightarrow> nat list \<Rightarrow> request list \<Rightarrow> res list lab" where
  "run_batch E sched reqs s =
     (let e = (lx_eng s)\<lparr>drawn := drawn (lx_eng s) + length reqs\<rparr>
      in case run E sched [] (start e reqs) of
           None \<Rightarrow> (Inl (js ''unfinished''), s)
         | Some (order, t) \<Rightarrow>
             if \<not> all_finished t then (Inl (js ''unfinished''), s)
             else
               (case those (map (\<lambda>i. outcome_result (outcome_of t i)) [0..<length reqs]) of
                  None \<Rightarrow> (Inl (js ''request failed''), s\<lparr>lx_eng := eng t\<rparr>)
                | Some rs \<Rightarrow>
                    (Inr rs, s\<lparr>lx_eng := (eng t)\<lparr>drawn := drawn (eng t) + length reqs,
                       ticks := ticks (eng t) + 2 * length reqs\<rparr>\<rparr>)))"

definition accepted_res :: "res \<Rightarrow> bool" where
  "accepted_res r \<longleftrightarrow> 200 \<le> r_status r \<and> r_status r < 300"

definition expected_delta :: "((bool \<times> int) \<times> res) list \<Rightarrow> int" where
  "expected_delta out =
     js_sum (map (\<lambda>(p, r). if fst p then - snd p else snd p) (filter (\<lambda>(p, r). accepted_res r) out))"

definition unanswered :: "res list \<Rightarrow> nat" where
  "unanswered rs = length (filter (\<lambda>r. r_status r = 0 \<or> 500 \<le> r_status r) rs)"

definition bad_rejects :: "res list \<Rightarrow> nat" where
  "bad_rejects rs = length (filter (\<lambda>r. \<not> accepted_res r \<and> r_status r \<notin> {400, 422, 409}) rs)"

definition nat_num :: "nat \<Rightarrow> jstr" where
  "nat_num n = num_text (int n)"

definition recon_text :: "api_result \<Rightarrow> jstr" where
  "recon_text r =
     (if a_ok r then (if flag r (js ''balanced'') then js ''balanced'' else js ''drift'') @ js ''/'' @
        (if flag r (js ''chain_valid'') then js ''ok'' else js ''broken'')
      else js ''HTTP '' @ num_text (a_status r))"

definition batch_assertions ::
  "(bool \<times> int) list \<Rightarrow> res list \<Rightarrow> int \<Rightarrow> int \<Rightarrow> int \<Rightarrow> int \<Rightarrow> api_result \<Rightarrow> api_result \<Rightarrow> assertion list" where
  "batch_assertions plan rs a0 b0 a1 b1 ra rb =
     (let n = length plan; delta = expected_delta (zip plan rs)
      in [check (js ''Every request answered without a server error'')
            (nat_num n @ js '' answered, 0 errors'')
            (num_text (int n - int (unanswered rs)) @ js '' answered, '' @ nat_num (unanswered rs) @ js '' errors'')
            (unanswered rs = 0),
          check (js ''Rejections are clean business errors'') (js ''400 / 409 / 422'')
            (if bad_rejects rs \<noteq> 0 then nat_num (bad_rejects rs) @ js '' unexpected''
             else num_text (int (length rs) - int (length (filter accepted_res rs))) @ js '' clean'')
            (bad_rejects rs = 0),
          check (js ''Total value conserved ('' @ alpha @ js '' + '' @ beta @ js '')'')
            (dollars (js_add a0 b0)) (dollars (js_add a1 b1)) (js_add a0 b0 = js_add a1 b1),
          check (js ''No negative balances'') ([0x2265] @ js '' $0.00'')
            (alpha @ js '' '' @ dollars a1 @ js '' '' @ [0xB7] @ js '' '' @ beta @ js '' '' @ dollars b1)
            (0 \<le> a1 \<and> 0 \<le> b1),
          check (js ''Net change equals sum of accepted transfers'') (money_text delta (js ''USD'') True)
            (money_text (js_add a1 (- a0)) (js ''USD'') True) (js_add a1 (- a0) = delta),
          check (js ''Both ledgers reconcile, hash chain intact'')
            (js ''balanced '' @ [0xB7] @ js '' chain ok'')
            (recon_text ra @ js '' '' @ [0xB7] @ js '' '' @ recon_text rb)
            (a_ok ra \<and> a_ok rb \<and> flag ra (js ''balanced'') \<and> flag rb (js ''balanced'') \<and>
             flag ra (js ''chain_valid'') \<and> flag rb (js ''chain_valid''))])"

definition batch_step :: "(bool \<times> int) list \<Rightarrow> res list \<Rightarrow> int \<Rightarrow> lab_step" where
  "batch_step plan rs ms =
     \<lparr>sp_label = nat_num (length plan) @ js '' concurrent transfers'', sp_method = POST,
      sp_path = js ''/api/v1/transfers '' @ [0xD7] @ nat_num (length plan),
      sp_status = (if list_all (\<lambda>r. 0 < r_status r) rs then 207 else 0), sp_ms = ms,
      sp_note = JStr (nat_num (length (filter accepted_res rs)) @ js '' posted '' @ [0xB7] @ js '' '' @
        nat_num (length (filter (\<lambda>r. \<not> accepted_res r) rs)) @ js '' rejected''),
      sp_replayed = False, sp_setup = False\<rparr>"

definition batch_experiment ::
  "env \<Rightarrow> (nat \<Rightarrow> fetched) \<Rightarrow> nat \<Rightarrow> nat \<Rightarrow> nat list \<Rightarrow> int \<Rightarrow> fixture \<Rightarrow> assertion list lab" where
  "batch_experiment E net rnd n sched ms f =
     and_then (snapshot E net alpha (fx_a f)) (\<lambda>a0.
     and_then (snapshot E net beta (fx_b f)) (\<lambda>b0.
       let plan = batch_plan E rnd n
       in and_then (\<lambda>s. run_batch E sched (batch_requests E f (drawn (lx_eng s)) plan) s) (\<lambda>rs.
          and_then (log_step (batch_step plan rs ms)) (\<lambda>_.
          and_then (snapshot E net alpha (fx_a f)) (\<lambda>a1.
          and_then (snapshot E net beta (fx_b f)) (\<lambda>b1.
          and_then (lab_reconcile E net (js ''Reconcile '' @ alpha) (fx_a f)) (\<lambda>ra.
          and_then (lab_reconcile E net (js ''Reconcile '' @ beta) (fx_b f)) (\<lambda>rb.
            give (batch_assertions plan rs a0 b0 a1 b1 ra rb)))))))))"

section \<open>A run\<close>

definition chosen_experiment ::
  "env \<Rightarrow> (nat \<Rightarrow> fetched) \<Rightarrow> nat \<Rightarrow> nat \<Rightarrow> nat list \<Rightarrow> int \<Rightarrow> exp_id \<Rightarrow> fixture \<Rightarrow> assertion list lab" where
  "chosen_experiment E net rnd n sched ms x f =
     (case x of
        Replay \<Rightarrow> replay_experiment E net f
      | Tamper \<Rightarrow> tamper_experiment E net f
      | Overdraft \<Rightarrow> overdraft_experiment E net f
      | Concurrency \<Rightarrow> batch_experiment E net rnd n sched ms f)"

definition lab_result_of :: "(jstr + assertion list) \<times> lab_run \<Rightarrow> lab_result" where
  "lab_result_of r =
     (case r of
        (Inl e, s) \<Rightarrow>
          \<lparr>lr_state = Error, lr_steps = lx_log s, lr_assertions = [], lr_error = Some e\<rparr>
      | (Inr cs, s) \<Rightarrow>
          \<lparr>lr_state = (if list_all as_pass cs then Pass else Fail), lr_steps = lx_log s,
           lr_assertions = cs, lr_error = None\<rparr>)"

definition run_experiment ::
  "env \<Rightarrow> (nat \<Rightarrow> fetched) \<Rightarrow> jstr \<Rightarrow> nat \<Rightarrow> nat \<Rightarrow> nat list \<Rightarrow> int \<Rightarrow> exp_id \<Rightarrow> fixture option \<Rightarrow> engine \<Rightarrow>
   (jstr + assertion list) \<times> lab_run" where
  "run_experiment E net tag rnd n sched ms x fx e =
     and_then (ensure_fixture E net tag) (\<lambda>f.
     and_then (top_up E net f) (\<lambda>_. chosen_experiment E net rnd n sched ms x f))
       \<lparr>lx_eng = e, lx_log = [], lx_fx = fx\<rparr>"

end
