(* ===== verification/Ledger_View.thy ===== *)
theory Ledger_View
  imports Dashboard
begin

text \<open>
  The ledger page: it loads the entries and transactions of the selected wallet, brings them
  into shape once more, sums credits and debits and shows the reconciliation. The facts: whatever
  was answered, the rows of the page have the shape the page relies on, normalising a row again
  changes nothing, and credits less debits of a wallet of the engine are its balance.
\<close>

section \<open>Loading\<close>

text \<open>\<open>list(data?.k ?? data?.data)\<close> of a successful answer, else nothing.\<close>

definition raw_list :: "jstr \<Rightarrow> api_result \<Rightarrow> jsval list" where
  "raw_list k r =
     (if a_ok r then
        case coalesce (get_field (a_data r) k) (get_field (a_data r) (js ''data'')) of
          JArr vs \<Rightarrow> vs | _ \<Rightarrow> []
      else [])"

record ledger_page =
  lp_entries :: "jsval list"
  lp_txs :: "jsval list"
  lp_recon :: "jsval option"

text \<open>\<open>load\<close>: \<open>None\<close> when an item of an answer is \<open>null\<close>.\<close>

definition load_page :: "api_result \<Rightarrow> api_result \<Rightarrow> ledger_page \<Rightarrow> ledger_page option" where
  "load_page e t pg =
     (let es = raw_list (js ''entries'') e; ts = raw_list (js ''transactions'') t
      in if list_ex nullish es \<or> list_ex nullish ts then None
         else Some (pg\<lparr>lp_entries := map normal_entry es, lp_txs := map normal_tx ts\<rparr>))"

definition reconcile_page :: "api_result \<Rightarrow> ledger_page \<Rightarrow> ledger_page" where
  "reconcile_page r pg = pg\<lparr>lp_recon := (if a_ok r then Some (a_data r) else None)\<rparr>"

section \<open>Sums and names\<close>

definition amount_of :: "jsval \<Rightarrow> int" where
  "amount_of v = as_number (get_field v (js ''amount''))"

definition direction_sum :: "jstr \<Rightarrow> jsval list \<Rightarrow> int" where
  "direction_sum d es =
     js_sum (map (\<lambda>e. \<bar>amount_of e\<bar>) (filter (\<lambda>e. get_field e (js ''direction'') = JStr d) es))"

definition credits :: "ledger_page \<Rightarrow> int" where
  "credits pg = direction_sum (js ''credit'') (lp_entries pg)"

definition debits :: "ledger_page \<Rightarrow> int" where
  "debits pg = direction_sum (js ''debit'') (lp_entries pg)"

definition account_name :: "jsval list \<Rightarrow> jsval \<Rightarrow> jsval" where
  "account_name ws i =
     (if truthy i then
        coalesce
          (case find (\<lambda>w. js_string (wallet_id w) = js_string i) ws of
             None \<Rightarrow> JUndef | Some w \<Rightarrow> get_field w (js ''owner''))
          (JStr (shortId i 8))
      else JStr (js ''External''))"

section \<open>The second normalisation\<close>

lemma get_normal_entry:
  "get_field (normal_entry v) (js ''amount'') = absolute (get_field v (js ''amount''))"
  "get_field (normal_entry v) (js ''direction'') = or_else (get_field v (js ''direction''))
     (JStr (if non_negative (get_field v (js ''amount'')) then js ''credit'' else js ''debit''))"
  "get_field (normal_entry v) (js ''id'') = string_field v (js ''id'')"
  "get_field (normal_entry v) (js ''wallet_id'') = string_field v (js ''wallet_id'')"
  "get_field (normal_entry v) (js ''transaction_id'') = string_field v (js ''transaction_id'')"
  by (simp_all add: normal_entry_def get_spread_with)

lemma get_spread_object: "get_field (JObj fs) k = (case map_get (spread (JObj fs)) k of None \<Rightarrow> JUndef | Some x \<Rightarrow> x)"
  by simp

lemma get_normal_item:
  "k \<noteq> js ''id'' \<Longrightarrow> k \<noteq> js ''currency'' \<Longrightarrow> get_field (normal_item (JObj fs)) k = get_field (JObj fs) k"
  by (simp add: normal_item_def get_spread_with)

text \<open>Setting what is there already changes nothing.\<close>

lemma map_set_same: "map_get m k = Some x \<Longrightarrow> map_set k x m = m"
  by (induction m) auto

lemma fold_set_same: "\<forall>(k, x) \<in> set fs. map_get m k = Some x \<Longrightarrow> fold (\<lambda>(k, x). map_set k x) fs m = m"
  by (induction fs) (auto simp: map_set_same)

lemma spread_with_same:
  assumes "\<forall>(k, x) \<in> set fs. map_get ms k = Some x"
  shows "spread_with (JObj ms) fs = JObj ms"
  using fold_set_same [OF assms] by (simp add: spread_with_def)

lemma or_else_same: "truthy b \<Longrightarrow> or_else (or_else a b) c = or_else a b"
  by (simp add: or_else_def)

lemma truthy_or_else: "truthy b \<Longrightarrow> truthy (or_else a b)"
  by (simp add: or_else_def)

text \<open>The shape of a row of entries, and that a row in shape stays as it is.\<close>

definition number_shape :: "jsval \<Rightarrow> bool" where
  "number_shape v \<longleftrightarrow> (case v of JNum n \<Rightarrow> 0 \<le> n | JFrac t \<Rightarrow> take 1 t \<noteq> js ''-'' | _ \<Rightarrow> False)"

text \<open>One of the texts a type declares.\<close>

definition declared :: "string list \<Rightarrow> jsval \<Rightarrow> bool" where
  "declared ks v \<longleftrightarrow> list_ex (\<lambda>k. v = JStr (js k)) ks"

definition entry_shape :: "jsval \<Rightarrow> bool" where
  "entry_shape v \<longleftrightarrow>
     list_all (\<lambda>k. is_text (get_field v (js k))) [''id'', ''transaction_id'', ''wallet_id''] \<and>
     truthy (get_field v (js ''direction'')) \<and> number_shape (get_field v (js ''amount''))"

definition tx_shape :: "jsval \<Rightarrow> bool" where
  "tx_shape v \<longleftrightarrow>
     list_all (\<lambda>k. is_text (get_field v (js k))) [''id'', ''idempotency_key''] \<and>
     list_all (\<lambda>k. get_field v (js k) = JNull \<or> is_text (get_field v (js k))) [''from_wallet_id'', ''to_wallet_id''] \<and>
     truthy (get_field v (js ''kind'')) \<and> truthy (get_field v (js ''currency''))"

lemma entry_shaped: "entry_shape (normal_entry v)"
proof -
  have "number_shape (absolute x)" for x by (cases rule: absolute_cases [of x]) (simp_all add: number_shape_def)
  then show ?thesis
    by (simp add: entry_shape_def get_normal_entry is_text_def string_field_def truthy_or_else)
qed

lemma get_normal_tx:
  "get_field (normal_tx v) (js ''id'') = string_field v (js ''id'')"
  "get_field (normal_tx v) (js ''kind'') = normal_kind v"
  "get_field (normal_tx v) (js ''from_wallet_id'') = normal_from v"
  "get_field (normal_tx v) (js ''to_wallet_id'') = normal_to v"
  "get_field (normal_tx v) (js ''currency'') = or_else (get_field v (js ''currency'')) (JStr (js ''USD''))"
  "get_field (normal_tx v) (js ''idempotency_key'') =
     (if truthy (get_field v (js ''idempotency_key'')) then string_field v (js ''idempotency_key'') else JStr [])"
  by (simp_all add: normal_tx_def get_spread_with)

lemma tx_shaped: "tx_shape (normal_tx v)"
proof -
  have n: "x = JNull \<or> is_text x" if "x = string_or_null u k" for x u k
    using that by (simp add: string_or_null_def is_text_def Let_def)
  have "normal_from v = JNull \<or> is_text (normal_from v)" "normal_to v = JNull \<or> is_text (normal_to v)"
    using n [OF refl] by (auto simp: normal_from_def normal_to_def or_else_def Let_def)
  moreover have "truthy (normal_kind v)" by (simp add: normal_kind_def truthy_or_else)
  ultimately show ?thesis
    by (simp add: tx_shape_def get_normal_tx is_text_def string_field_def truthy_or_else)
qed

text \<open>A second normalisation of a row changes nothing.\<close>

lemma index_key: "\<not> list_all is_digit k \<Longrightarrow> map_get (zip (map dec ns) vs) k = None"
  using dec_digits by (fastforce simp: map_of_eq_None_iff list_all_iff dest: set_zip_leftD)

text \<open>What a spread keeps under a name that is no index.\<close>

lemma get_spread:
  assumes "\<not> list_all is_digit k"
  shows "(case map_get (spread v) k of None \<Rightarrow> JUndef | Some x \<Rightarrow> x) = get_field v k"
  by (cases v) (simp_all add: index_key [OF assms])

lemma get_normal_tx_other:
  "get_field (normal_tx v) (js ''type'') = get_field v (js ''type'')"
  "get_field (normal_tx v) (js ''wallet_id'') = get_field v (js ''wallet_id'')"
proof -
  have k: "\<not> list_all is_digit (js ''type'')" "\<not> list_all is_digit (js ''wallet_id'')" by (simp_all add: js_def is_digit_def)
  show "get_field (normal_tx v) (js ''type'') = get_field v (js ''type'')"
    "get_field (normal_tx v) (js ''wallet_id'') = get_field v (js ''wallet_id'')"
    using get_spread [OF k(1), of v] get_spread [OF k(2), of v] by (simp_all add: normal_tx_def get_spread_with)
qed

lemma normal_entry_again: "normal_entry (normal_entry v) = normal_entry v"
proof -
  let ?e = "normal_entry v"
  obtain ms where ms: "?e = JObj ms" by (simp add: normal_entry_def spread_with_def)
  have f: "map_get ms k = Some x" if "get_field ?e k = x" "x \<noteq> JUndef" for k x
    using that by (simp add: ms split: option.splits)
  have t: "string_field ?e (js k) = get_field ?e (js k)" if "k \<in> {''id'', ''transaction_id'', ''wallet_id''}" for k
    using that by (auto simp: get_normal_entry string_field_def)
  have d: "or_else (get_field ?e (js ''direction'')) x = get_field ?e (js ''direction'')" for x
    by (simp only: get_normal_entry, rule or_else_same) simp
  have a: "absolute (get_field ?e (js ''amount'')) = get_field ?e (js ''amount'')"
    by (simp only: get_normal_entry absolute_again)
  have u: "get_field ?e (js k) \<noteq> JUndef" if "k \<in> {''id'', ''transaction_id'', ''wallet_id''}" for k
    using that by (auto simp: get_normal_entry string_field_def)
  have ud: "get_field ?e (js ''direction'') \<noteq> JUndef" "get_field ?e (js ''amount'') \<noteq> JUndef"
    using entry_shaped [of v] by (auto simp: entry_shape_def number_shape_def)
  show ?thesis
    unfolding normal_entry_def [of ?e] t [of "''id''", simplified] t [of "''transaction_id''", simplified]
      t [of "''wallet_id''", simplified] d a
    unfolding ms
    by (rule spread_with_same) (use f u ud ms in auto)
qed

lemma string_or_null_again:
  "get_field v k = string_or_null w k' \<Longrightarrow> string_or_null v k = get_field v k"
  by (auto simp: string_or_null_def Let_def)

lemma normal_tx_again: "normal_tx (normal_tx v) = normal_tx v"
proof -
  let ?t = "normal_tx v"
  obtain ms where ms: "?t = JObj ms" by (simp add: normal_tx_def spread_with_def)
  have f: "map_get ms k = Some x" if "get_field ?t k = x" "x \<noteq> JUndef" for k x
    using that by (simp add: ms split: option.splits)
  have i: "string_field ?t (js ''id'') = get_field ?t (js ''id'')" by (simp add: get_normal_tx string_field_def)
  have kind: "normal_kind ?t = get_field ?t (js ''kind'')"
    unfolding normal_kind_def [of ?t] get_normal_tx_other by (simp only: get_normal_tx) (simp add: normal_kind_def or_else_def)
  have key: "(if truthy (get_field ?t (js ''idempotency_key'')) then string_field ?t (js ''idempotency_key'') else JStr []) =
      get_field ?t (js ''idempotency_key'')"
    by (simp add: string_field_def get_normal_tx)
  have n: "string_or_null ?t (js ''from_wallet_id'') = get_field ?t (js ''from_wallet_id'')"
    "string_or_null ?t (js ''to_wallet_id'') = get_field ?t (js ''to_wallet_id'')"
    "string_or_null ?t (js ''wallet_id'') = string_or_null v (js ''wallet_id'')"
    using tx_shaped [of v]
    by (auto simp: string_or_null_def Let_def tx_shape_def is_text_def get_normal_tx_other split: jsval.splits)
  have k: "normal_kind ?t = normal_kind v" by (simp only: kind get_normal_tx)
  have from_to: "normal_from ?t = get_field ?t (js ''from_wallet_id'')" "normal_to ?t = get_field ?t (js ''to_wallet_id'')"
    unfolding normal_from_def [of ?t] normal_to_def [of ?t] n k
    by (auto simp: get_normal_tx normal_from_def normal_to_def or_else_def Let_def)
  have c: "or_else (get_field ?t (js ''currency'')) (JStr (js ''USD'')) = get_field ?t (js ''currency'')"
    by (simp add: get_normal_tx or_else_def)
  have u: "get_field ?t (js k) \<noteq> JUndef" if "k \<in> {''id'', ''idempotency_key'', ''from_wallet_id'', ''to_wallet_id'', ''kind'', ''currency''}" for k
    using tx_shaped [of v] that by (auto simp: tx_shape_def is_text_def)
  show ?thesis
    unfolding normal_tx_def [of ?t] i kind key from_to c
    unfolding ms
    by (rule spread_with_same) (use f u ms in auto)
qed

text \<open>What is loaded has this shape, whatever was answered.\<close>

lemma loaded_shape:
  assumes "load_page re rt pg = Some pg'"
  shows "list_all entry_shape (lp_entries pg')" and "list_all tx_shape (lp_txs pg')"
  using assms entry_shaped tx_shaped
  by (auto simp: load_page_def Let_def list_all_iff split: if_splits)

lemma loaded_again:
  assumes "load_page re rt pg = Some pg'"
  shows "map normal_entry (lp_entries pg') = lp_entries pg'" and "map normal_tx (lp_txs pg') = lp_txs pg'"
  using assms by (auto simp: load_page_def Let_def normal_entry_again normal_tx_again split: if_splits)

text \<open>
  What a row says of the entry it was read from: its direction is a declared one when the answered
  one is, or is missing; an answered one is kept; a whole amount is shown without its sign, and when
  there was no direction, the direction of the row is that sign.
\<close>

definition signed_amount :: "jsval \<Rightarrow> int" where
  "signed_amount row =
     (if get_field row (js ''direction'') = JStr (js ''credit'') then amount_of row else - amount_of row)"

definition entry_read :: "jsval \<Rightarrow> jsval \<Rightarrow> bool" where
  "entry_read raw row \<longleftrightarrow>
     (let d = get_field raw (js ''direction''); d' = get_field row (js ''direction'')
      in (truthy d \<longrightarrow> d' = d) \<and>
         (\<not> truthy d \<or> declared [''debit'', ''credit''] d \<longrightarrow> declared [''debit'', ''credit''] d') \<and>
         (\<forall>n. get_field raw (js ''amount'') = JNum n \<longrightarrow>
            amount_of row = \<bar>n\<bar> \<and> (\<not> truthy d \<longrightarrow> signed_amount row = n)))"

text \<open>
  The same for a transaction: its kind is the answered type or kind, a transfer when there is none;
  a single account is the receiver of a deposit and the sender of any other movement.
\<close>

definition tx_read :: "jsval \<Rightarrow> jsval \<Rightarrow> bool" where
  "tx_read raw row \<longleftrightarrow>
     (let t = get_field raw (js ''type''); k = get_field raw (js ''kind''); k' = get_field row (js ''kind'');
          w = get_field raw (js ''wallet_id'')
      in (truthy t \<longrightarrow> k' = t) \<and> (\<not> truthy t \<and> truthy k \<longrightarrow> k' = k) \<and>
         (\<not> truthy t \<and> \<not> truthy k \<longrightarrow> k' = JStr (js ''transfer'')) \<and>
         (declared [''deposit'', ''withdrawal'', ''transfer''] k' \<and> \<not> nullish w \<and>
            nullish (get_field raw (js ''from_wallet_id'')) \<and> nullish (get_field raw (js ''to_wallet_id'')) \<longrightarrow>
          (get_field row (js ''from_wallet_id''), get_field row (js ''to_wallet_id'')) =
            (if k' = JStr (js ''deposit'') then (JNull, JStr (js_string w)) else (JStr (js_string w), JNull))))"

lemma normal_entry_read: "entry_read v (normal_entry v)"
proof -
  have "signed_amount (normal_entry v) = n"
    if "\<not> truthy (get_field v (js ''direction''))" "get_field v (js ''amount'') = JNum n" for n
    using that by (simp add: signed_amount_def amount_of_def get_normal_entry or_else_def as_number_def)
  then show ?thesis
    by (auto simp: entry_read_def declared_def Let_def get_normal_entry or_else_def amount_of_def as_number_def)
qed

lemma normal_tx_read: "tx_read v (normal_tx v)"
proof -
  have kind: "get_field (normal_tx v) (js ''kind'') = normal_kind v" by (rule get_normal_tx)
  have "(normal_from v, normal_to v) =
      (if normal_kind v = JStr (js ''deposit'') then (JNull, JStr (js_string (get_field v (js ''wallet_id''))))
       else (JStr (js_string (get_field v (js ''wallet_id''))), JNull))"
    if "declared [''deposit'', ''withdrawal'', ''transfer''] (normal_kind v)" "\<not> nullish (get_field v (js ''wallet_id''))"
      "nullish (get_field v (js ''from_wallet_id''))" "nullish (get_field v (js ''to_wallet_id''))"
    using that by (auto simp: declared_def normal_from_def normal_to_def or_else_def string_or_null_def Let_def)
  then show ?thesis
    unfolding tx_read_def Let_def kind get_normal_tx(3,4) by (auto simp: normal_kind_def or_else_def)
qed

lemma loaded_read:
  assumes "load_page re rt pg = Some pg'"
  shows "list_all2 entry_read (raw_list (js ''entries'') re) (lp_entries pg')"
    and "list_all2 tx_read (raw_list (js ''transactions'') rt) (lp_txs pg')"
  using assms normal_entry_read normal_tx_read
  by (auto simp: load_page_def Let_def list_all2_map2 list.rel_refl split: if_splits)

text \<open>An entry of the engine as the page shows it.\<close>

definition shown_entry :: "ledger_entry \<Rightarrow> jsval" where
  "shown_entry e = normal_entry (normal_item (entry_value e))"

lemma shown_amount: "0 \<le> e_amount e \<Longrightarrow> amount_of (shown_entry e) = e_amount e"
  by (simp add: shown_entry_def amount_of_def get_normal_entry as_number_def)
    (simp add: entry_value_def get_normal_item)

lemma shown_direction: "get_field (shown_entry e) (js ''direction'') = JStr (direction_text (e_direction e))"
proof -
  have "get_field (normal_item (entry_value e)) (js ''direction'') = JStr (direction_text (e_direction e))"
    by (simp add: entry_value_def get_normal_item)
  moreover have "direction_text (e_direction e) \<noteq> []" by (cases "e_direction e") simp_all
  ultimately show ?thesis by (simp add: shown_entry_def get_normal_entry or_else_def)
qed

definition in_direction :: "direction \<Rightarrow> ledger_entry list \<Rightarrow> int list" where
  "in_direction d es = map e_amount (filter (\<lambda>e. e_direction e = d) es)"

lemma shown_sum:
  assumes "\<forall>e \<in> set es. 0 < e_amount e"
  shows "direction_sum (direction_text d) (map shown_entry es) = js_sum (in_direction d es)"
proof -
  have dir: "direction_text d' = direction_text d \<longleftrightarrow> d' = d" for d'
    by (cases d; cases d') simp_all
  have "map (\<lambda>e. \<bar>amount_of e\<bar>) (filter (\<lambda>e. get_field e (js ''direction'') = JStr (direction_text d))
      (map shown_entry es)) = in_direction d es"
    using assms by (induction es) (simp_all add: in_direction_def shown_direction shown_amount dir)
  then show ?thesis by (simp add: direction_sum_def)
qed

text \<open>The fold of the reconciliation is credits less debits, when the credits are in range.\<close>

lemma sum_directions:
  "sum_list (map entry_signed es) = sum_list (in_direction Credit es) - sum_list (in_direction Debit es)"
proof (induction es)
  case (Cons e es)
  then show ?case by (cases "e_direction e") (simp_all add: entry_signed_def in_direction_def)
qed (simp add: in_direction_def)

lemma in_direction_append: "in_direction d (xs @ ys) = in_direction d xs @ in_direction d ys"
  by (simp add: in_direction_def)

lemma in_direction_pos: "\<forall>e \<in> set es. 0 < e_amount e \<Longrightarrow> \<forall>x \<in> set (in_direction d es). 0 \<le> x"
  by (auto simp: in_direction_def)

lemma ledger_balance_exact:
  assumes pos: "\<forall>e \<in> set es. 0 < e_amount e" and c: "sum_list (in_direction Credit es) \<le> 2 ^ 53"
    and d: "sum_list (in_direction Debit es) \<le> 2 ^ 53"
  shows "ledger_balance es = sum_list (in_direction Credit es) - sum_list (in_direction Debit es)"
proof -
  have "foldl js_add 0 (map entry_signed es) = sum_list (map entry_signed es)"
  proof (rule num.sum_exact)
    fix ys zs assume split: "map entry_signed es = ys @ zs"
    then obtain us vs where es: "es = us @ vs" "ys = map entry_signed us"
      by (auto simp: map_eq_append_conv)
    have nn: "0 \<le> sum_list (in_direction D xs)" if "set xs \<subseteq> set es" for D xs
      using in_direction_pos [of xs D] pos that by (intro sum_list_nonneg) blast
    have "sum_list (in_direction D us) \<le> sum_list (in_direction D es)" for D
      using nn [of vs D] by (simp add: es in_direction_append)
    then show "\<bar>sum_list ys\<bar> \<le> 2 ^ 53"
      using nn [of us Credit] nn [of us Debit] c d sum_directions [of us] es
      by (simp add: abs_le_iff) (smt (verit))
  qed
  then show ?thesis
    by (simp add: ledger_balance_def foldl_map sum_directions)
qed

end
