(* ===== verification/Calls.thy ===== *)
theory Calls
  imports Lab Ledger_View
begin

text \<open>
  Calls of the API that the engine in the page answers, as the pages and the Systems Lab make
  them: what a read, an accepted movement, a retry, a reused key and an overdraft give, in terms
  of the result of \<open>request\<close>, and what they leave of the engine (\<open>ready\<close>).
\<close>

section \<open>Reads\<close>

text \<open>The headers of a GET do not matter.\<close>

lemma sim_get: "handle E (sim_request GET p JUndef hs) s = handle E (get_request p) s"
proof -
  have "route_of GET p' \<noteq> RMoney k" for p' k
    by (auto simp: route_of_def split: option.split)
  then show ?thesis
    by (auto simp: handle_def dispatch_def sim_request_def get_request_def split: route.split)
qed

lemma api_get:
  assumes "handle E (get_request p) (s\<lparr>ticks := ticks s + 1\<rparr>) = (s1, Returned r)"
  obtains R where "api_request E Unreachable GET p JUndef [] s =
      (s1\<lparr>drawn := drawn s1 + 1, ticks := ticks s1 + 2\<rparr>, Some R)"
    and "a_ok R \<longleftrightarrow> 200 \<le> r_status r \<and> r_status r < 300" and "a_status R = r_status r"
    and "a_headers R = r_headers r" and "normalize (body_value (r_body r)) = Some (a_data R)"
proof -
  have "with_key E GET [] s = ([], s)" by (simp add: with_key_def)
  then show ?thesis
    using that assms sim_get by (metis api_sim)
qed

text \<open>Reads that leave the books as they are.\<close>

lemma api_read:
  assumes "handle E (get_request p) (s\<lparr>ticks := ticks s + 1\<rparr>) = (s\<lparr>ticks := k\<rparr>, Returned (ok b 200 []))"
  obtains R d c where "api_request E Unreachable GET p JUndef [] s = (s\<lparr>drawn := d, ticks := c\<rparr>, Some R)"
    and "a_ok R" and "normalize (body_value b) = Some (a_data R)"
proof (rule api_get [OF assms])
  fix R
  assume "api_request E Unreachable GET p JUndef [] s =
      (s\<lparr>ticks := k, drawn := drawn (s\<lparr>ticks := k\<rparr>) + 1, ticks := ticks (s\<lparr>ticks := k\<rparr>) + 2\<rparr>, Some R)"
    "a_ok R \<longleftrightarrow> 200 \<le> r_status (ok b 200 []) \<and> r_status (ok b 200 []) < 300"
    "normalize (body_value (r_body (ok b 200 []))) = Some (a_data R)"
  then show thesis by (intro that) simp_all
qed

text \<open>The entries that the ledger page shows of a wallet, newest first.\<close>

lemma loaded_entries:
  assumes "list_all is_word_char i" and "i \<noteq> []"
    and "api_request E Unreachable GET (js ''/wallets/'' @ i @ js ''/entries'') JUndef [] s = (s1, Some re)"
    and "load_page re rt pg = Some pg'"
  shows "lp_entries pg' = map shown_entry (rev (wallet_entries i (entries s)))"
proof -
  let ?es = "rev (wallet_entries i (entries s))"
  have "handle E (get_request (js ''/wallets/'' @ i @ js ''/entries'')) (s\<lparr>ticks := ticks s + 1\<rparr>) =
      (s\<lparr>ticks := ticks s + 1\<rparr>, Returned (ok (EntriesBody ?es) 200 []))"
    using handle_entries [OF assms(1,2), of E "s\<lparr>ticks := ticks s + 1\<rparr>"] by simp
  from api_get [OF this] have re: "a_ok re" "normalize (body_value (EntriesBody ?es)) = Some (a_data re)"
    using assms(3) by auto
  then have "a_data re = JObj [(js ''data'', JArr (map (\<lambda>e. normal_item (entry_value e)) ?es))]"
    by (simp only: normalize_body option.inject res_body.case)
  then have "raw_list (js ''entries'') re = map (\<lambda>e. normal_item (entry_value e)) ?es"
    using re(1) by (simp add: raw_list_def coalesce_def)
  then show ?thesis
    using assms(4) by (auto simp: load_page_def Let_def shown_entry_def comp_def split: if_splits)
qed

section \<open>Money movements\<close>

text \<open>A POST with a key is the request with this key only.\<close>

lemma sim_key [simp]:
  "map_get (lower_headers (request_headers body [(js ''Idempotency-Key'', key)])) (js ''idempotency-key'') = Some key"
  by (simp add: request_headers_def lower_headers_def)

lemma sim_plans:
  assumes "path = q_path (money_request k key body)" and "key \<noteq> []"
    and "get_field body (js ''amount'') = JNum a" and "0 < a"
    and "k = Transfer \<longrightarrow> \<not> strict_eq (from_of k body) (to_of k body)"
  shows "plans (sim_request POST path body (request_headers body (key_header key))) (plan_for k key body a)"
proof -
  have "plans (money_request k key body) (plan_for k key body a)" using assms by (intro money_plan)
  then show ?thesis
    by (simp add: plans_def sim_request_def assms(1) key_header_def validate_def)
qed

lemma money_paths [simp]:
  "js ''/deposits'' = q_path (money_request k key body) \<longleftrightarrow> k = Deposit"
  "js ''/withdrawals'' = q_path (money_request k key body) \<longleftrightarrow> k = Withdrawal"
  "js ''/transfers'' = q_path (money_request k key body) \<longleftrightarrow> k = Transfer"
  by (cases k; simp add: money_request_def)+

section \<open>What the experiments need of the engine\<close>

text \<open>
  The two fixture wallets exist under different ids; the keys still to be drawn, up to the bound
  \<open>N\<close> of the environment, are unused and pairwise different; \<open>m\<close> draws are left.
\<close>

definition fixture_on :: "fixture \<Rightarrow> engine \<Rightarrow> bool" where
  "fixture_on f s \<longleftrightarrow> wallet_id (fx_a f) = JStr (id_text (fx_a f)) \<and> wallet_id (fx_b f) = JStr (id_text (fx_b f)) \<and>
     id_text (fx_a f) \<noteq> id_text (fx_b f) \<and> {id_text (fx_a f), id_text (fx_b f)} \<subseteq> set (map_keys (wallets s))"

definition fresh_keys :: "env \<Rightarrow> nat \<Rightarrow> engine \<Rightarrow> bool" where
  "fresh_keys E N s \<longleftrightarrow> inj_on (idemKey E) {..<N} \<and>
     (\<forall>i. drawn s \<le> i \<and> i < N \<longrightarrow> map_get (idem s) (idemKey E i) = None)"

definition ready :: "env \<Rightarrow> nat \<Rightarrow> nat \<Rightarrow> nat \<Rightarrow> engine \<Rightarrow> bool" where
  "ready E N n m s \<longleftrightarrow> fresh_ids E N \<and> sound E n s \<and> fresh_keys E N s \<and> drawn s + m \<le> N"

text \<open>Only draws and readings of the clock lie between the two states.\<close>

definition quiet :: "nat \<Rightarrow> engine \<Rightarrow> engine \<Rightarrow> bool" where
  "quiet c s t \<longleftrightarrow> (\<exists>d k. t = s\<lparr>drawn := d, ticks := k\<rparr> \<and> drawn s \<le> d \<and> d \<le> drawn s + c)"

lemma quiet_facts:
  assumes "quiet c s t"
  shows "balances t = balances s" and "wallets t = wallets s" and "idem t = idem s"
    and "entries t = entries s" and "fixture_on f t = fixture_on f s" and "drawn s \<le> drawn t"
  using assms by (auto simp: quiet_def fixture_on_def)

lemma quiet_refl [intro]: "drawn s \<le> d \<Longrightarrow> d \<le> drawn s + c \<Longrightarrow> quiet c s (s\<lparr>drawn := d\<rparr>)"
  "drawn s \<le> d \<Longrightarrow> d \<le> drawn s + c \<Longrightarrow> quiet c s (s\<lparr>drawn := d, ticks := k\<rparr>)"
  unfolding quiet_def by (rule exI [of _ d], rule exI [of _ "ticks s"]; simp)
    (rule exI [of _ d], rule exI [of _ k]; simp)

lemma sound_quiet: "sound E n s \<Longrightarrow> quiet c s t \<Longrightarrow> sound E n t"
  using own_ids_mono [of E s t] by (auto simp: sound_def quiet_def)

lemma ready_quiet: "ready E N n m s \<Longrightarrow> quiet c s t \<Longrightarrow> c \<le> m \<Longrightarrow> ready E N n (m - c) t"
  using sound_quiet [of E n s c t] by (auto simp: ready_def fresh_keys_def quiet_def)

lemma ready_ids:
  assumes "ready E N n m s" and "i \<in> set (map_keys (wallets s))"
  obtains w where "map_get (wallets s) i = Some w" and "list_all is_word_char i" and "i \<noteq> []" and "w_id w = i"
proof -
  obtain w where w: "map_get (wallets s) i = Some w"
    using assms(2) by (metis jsmap.get_None_iff not_Some_eq)
  then show ?thesis
    using that sound_keys [OF _ _ _ w, of E N n] assms(1) by (auto simp: ready_def)
qed

lemma ready_wf: "ready E N n m s \<Longrightarrow> wf_books s" and ready_idem: "ready E N n m s \<Longrightarrow> idem_wf n s"
  by (simp_all add: ready_def sound_def)

abbreviation no_net :: "nat \<Rightarrow> fetched" where
  "no_net \<equiv> \<lambda>t. Unreachable"

section \<open>Steps of an experiment\<close>

lemma draw_key_step:
  assumes "ready E N n m (lx_eng x)" and "0 < m"
  obtains key y where "draw_key E x = (Inr key, y)" and "quiet 1 (lx_eng x) (lx_eng y)" and "lx_fx y = lx_fx x"
    and "key = idemKey E (drawn (lx_eng x))" and "key \<noteq> []" and "map_get (idem (lx_eng y)) key = None"
    and "drawn (lx_eng x) < drawn (lx_eng y)"
  using assms that quiet_refl(1) [of "lx_eng x" "drawn (lx_eng x) + 1" 1]
  by (simp add: draw_key_def ready_def fresh_keys_def)

lemma get_step:
  assumes "handle E (get_request p) ((lx_eng x)\<lparr>ticks := ticks (lx_eng x) + 1\<rparr>) =
      ((lx_eng x)\<lparr>ticks := k\<rparr>, Returned r)"
  obtains R y where "lab_call E no_net label GET p JUndef [] prep x = (Inr R, y)"
    and "quiet 1 (lx_eng x) (lx_eng y)" and "lx_fx y = lx_fx x"
    and "a_ok R \<longleftrightarrow> 200 \<le> r_status r \<and> r_status r < 300" and "a_status R = r_status r"
    and "a_headers R = r_headers r" and "normalize (body_value (r_body r)) = Some (a_data R)"
proof -
  obtain R where R: "api_request E Unreachable GET p JUndef [] (lx_eng x) =
      ((lx_eng x)\<lparr>ticks := k, drawn := drawn (lx_eng x) + 1, ticks := k + 2\<rparr>, Some R)"
    "a_ok R \<longleftrightarrow> 200 \<le> r_status r \<and> r_status r < 300" "a_status R = r_status r"
    "a_headers R = r_headers r" "normalize (body_value (r_body r)) = Some (a_data R)"
    using api_get [OF assms] by auto
  have "quiet 1 (lx_eng x) ((lx_eng x)\<lparr>drawn := drawn (lx_eng x) + 1, ticks := k + 2\<rparr>)"
    by (rule quiet_refl) simp_all
  then show ?thesis using that R by (simp add: lab_call_def)
qed

lemma ok_status_200: "200 \<le> r_status (ok b 200 hs) \<and> r_status (ok b 200 hs) < 300"
  by simp

lemma balance_step:
  assumes "ready E N n m (lx_eng x)" and "id_text w \<in> set (map_keys (wallets (lx_eng x)))"
  obtains b y where "lab_balance E no_net w label x = (Inr b, y)"
    and "map_get (balances (lx_eng x)) (id_text w) = Some b"
    and "quiet 1 (lx_eng x) (lx_eng y)" and "lx_fx y = lx_fx x"
proof -
  obtain v where v: "map_get (wallets (lx_eng x)) (id_text w) = Some v" "list_all is_word_char (id_text w)"
      "id_text w \<noteq> []"
    using ready_ids [OF assms] by metis
  have "handle E (get_request (js ''/wallets/'' @ id_text w)) ((lx_eng x)\<lparr>ticks := ticks (lx_eng x) + 1\<rparr>) =
      ((lx_eng x)\<lparr>ticks := ticks (lx_eng x) + 1\<rparr>, Returned (ok (WalletBody v) 200 []))"
    using v by (intro handle_get_wallet) simp_all
  then obtain R y where R: "lab_call E no_net label GET (js ''/wallets/'' @ id_text w) JUndef [] True x = (Inr R, y)"
      "quiet 1 (lx_eng x) (lx_eng y)" "lx_fx y = lx_fx x" "a_ok R"
      "normalize (body_value (WalletBody v)) = Some (a_data R)"
    using get_step [where label = label and prep = True] by (metis ok_status_200 ok_simps(2))
  have "a_data R = body_value (WalletBody v)" using R(5) by (simp only: normalize_body option.inject res_body.case)
  then have "as_number (get_field (a_data R) (js ''balance'')) = w_balance v"
    by (simp add: wallet_value_def as_number_def)
  then show ?thesis
    using that R(1-4) v(1) by (simp add: lab_balance_def and_then_def give_def map_get_balances)
qed

text \<open>A POST with a key, answered by the engine.\<close>

lemma post_step:
  assumes "key \<noteq> []"
    and "handle E (sim_request POST path body (request_headers body (key_header key)))
      ((lx_eng x)\<lparr>ticks := ticks (lx_eng x) + 1\<rparr>) = (s1, Returned r)"
  obtains R y where "lab_call E no_net label POST path body (key_header key) prep x = (Inr R, y)"
    and "lx_eng y = s1\<lparr>drawn := drawn s1 + 1, ticks := ticks s1 + 2\<rparr>" and "lx_fx y = lx_fx x"
    and "a_ok R \<longleftrightarrow> 200 \<le> r_status r \<and> r_status r < 300" and "a_status R = r_status r"
    and "a_headers R = r_headers r" and "normalize (body_value (r_body r)) = Some (a_data R)"
proof -
  have "with_key E POST (key_header key) (lx_eng x) = (key_header key, lx_eng x)"
    using assms(1) by (simp add: with_key_def key_header_def lacks_def)
  then obtain R where "api_request E Unreachable POST path body (key_header key) (lx_eng x) =
      (s1\<lparr>drawn := drawn s1 + 1, ticks := ticks s1 + 2\<rparr>, Some R)"
    "a_ok R \<longleftrightarrow> 200 \<le> r_status r \<and> r_status r < 300" "a_status R = r_status r"
    "a_headers R = r_headers r" "normalize (body_value (r_body r)) = Some (a_data R)"
    using api_sim assms(2) by metis
  then show ?thesis using that by (simp add: lab_call_def)
qed

lemma accepted_status_ok: "200 \<le> r_status (accepted p t) \<and> r_status (accepted p t) < 300"
  by simp

lemma map_set_get: "map_get (map_set k v m) j = (if j = k then Some v else map_get m j)"
  by (simp add: jsmap.get_put)

lemma not_replayed [simp]:
  "a_headers R = r_headers (accepted p t) \<Longrightarrow> \<not> was_replayed R"
  "a_headers R = r_headers (err st c m) \<Longrightarrow> \<not> was_replayed R"
  by (simp_all add: was_replayed_def accepted_def err_def)

lemma is_replayed [simp]: "a_headers R = r_headers (replay r) \<Longrightarrow> was_replayed R"
  by (simp add: was_replayed_def)

lemma tx_signature:
  assumes "normalize (body_value (TxBody t)) = Some (a_data R)" and "a_ok R" and "t_id t \<noteq> []"
  shows "signature R = JStr (t_id t)"
proof -
  have "a_data R = body_value (TxBody t)" using assms(1) by (simp only: normalize_body option.inject res_body.case)
  then show ?thesis using assms(2,3) by (simp add: signature_def tx_value_def Let_def)
qed

lemma fresh_keys_put:
  assumes "fresh_keys E N s" and "key = idemKey E i" and "i < drawn s"
    and "idem t = map_set key r (idem s)" and "drawn s \<le> drawn t"
  shows "fresh_keys E N t"
  unfolding fresh_keys_def
proof (intro conjI allI impI)
  show inj: "inj_on (idemKey E) {..<N}" using assms(1) by (simp add: fresh_keys_def)
  fix j assume j: "drawn t \<le> j \<and> j < N"
  then have "idemKey E j \<noteq> key" using inj_onD [OF inj, of j i] assms(2,3,5) by auto
  then show "map_get (idem t) (idemKey E j) = None"
    using assms(1,4,5) j by (simp add: fresh_keys_def map_set_get)
qed

text \<open>What a movement that the bank accepts does, with a key that was drawn before.\<close>

lemma move_step:
  assumes ready: "ready E N n m (lx_eng x)" and m: "4 \<le> m"
    and key: "key = idemKey E i" "i < drawn (lx_eng x)" "key \<noteq> []" "map_get (idem (lx_eng x)) key = None"
    and plan: "path = q_path (money_request k key body)" "get_field body (js ''amount'') = JNum a" "0 < a"
      "k = Transfer \<longrightarrow> \<not> strict_eq (from_of k body) (to_of k body)"
    and acc: "bank_accepts (balances (lx_eng x)) (plan_for k key body a)"
  obtains R y t where "lab_call E no_net label POST path body (key_header key) prep x = (Inr R, y)"
    and "a_ok R" and "a_status R = 201" and "\<not> was_replayed R" and "signature R = JStr (t_id t)" and "t_id t \<noteq> []"
    and "balances (lx_eng y) = bank_transfer js_add (from_of k body) (to_of k body) a (balances (lx_eng x))"
    and "recorded key \<lparr>i_fingerprint = fingerprint k body, i_response = accepted (plan_for k key body a) t\<rparr> (lx_eng y)"
    and "ready E N n (m - 4) (lx_eng y)" and "map_keys (wallets (lx_eng y)) = map_keys (wallets (lx_eng x))"
    and "lx_fx y = lx_fx x" and "drawn (lx_eng x) \<le> drawn (lx_eng y)" and "\<not> nullish (a_data R)"
proof -
  let ?q = "sim_request POST path body (request_headers body (key_header key))"
  let ?s = "(lx_eng x)\<lparr>ticks := ticks (lx_eng x) + 1\<rparr>" and ?p = "plan_for k key body a"
  have p: "plans ?q ?p" using plan key(3) by (intro sim_plans)
  obtain t where t: "snd (handle E ?q ?s) = Returned (accepted ?p t)"
      "balances (fst (handle E ?q ?s)) = bank_transfer js_add (from_of k body) (to_of k body) a (balances (lx_eng x))"
      "idem (fst (handle E ?q ?s)) =
        map_set key \<lparr>i_fingerprint = fingerprint k body, i_response = accepted ?p t\<rparr> (idem (lx_eng x))"
      "drawn (fst (handle E ?q ?s)) = drawn (lx_eng x) + 3" "t_id t = rid E (js ''txn'') (drawn (lx_eng x))"
    using handle_accepts [OF p, of ?s E] key(4) acc by auto
  let ?s1 = "fst (handle E ?q ?s)"
  let ?s2 = "?s1\<lparr>drawn := drawn ?s1 + 1, ticks := ticks ?s1 + 2\<rparr>"
  obtain R y where y: "lab_call E no_net label POST path body (key_header key) prep x = (Inr R, y)"
      "lx_eng y = ?s2" "lx_fx y = lx_fx x" "a_ok R" "a_status R = 201" "a_headers R = r_headers (accepted ?p t)"
      "normalize (body_value (TxBody t)) = Some (a_data R)"
    using post_step [OF key(3), of E path body x ?s1 "accepted ?p t" label prep thesis] t(1)
    by (metis accepted_simps accepted_status_ok prod.collapse)
  have N: "drawn (lx_eng x) + m \<le> N" and E: "fresh_ids E N" and s: "sound E n (lx_eng x)"
    and fk: "fresh_keys E N (lx_eng x)"
    using ready by (simp_all add: ready_def)
  have "sound E n ?s" using sound_quiet [OF s quiet_refl(2), of "drawn (lx_eng x)" 0 "ticks (lx_eng x) + 1"] by simp
  then have "sound E n ?s1"
    using serve_sound [OF E, of n ?s ?q] t(4) N m by (simp add: serve_def)
  then have "sound E n ?s2" using sound_quiet quiet_refl(2) [of ?s1 "drawn ?s1 + 1" 1] by fastforce
  moreover have "fresh_keys E N ?s2"
    using t(3,4) by (intro fresh_keys_put [OF fk key(1,2)]) simp_all
  ultimately have r: "ready E N n (m - 4) (lx_eng y)" using E N m t(4) y(2) by (simp add: ready_def)
  have id: "t_id t \<noteq> []" by (simp add: t(5) rid_def)
  have "map_keys (wallets ?s1) = map_keys (wallets (lx_eng x))"
    using critical_keys [of E ?p ?s] by (simp add: handle_plan [OF p])
  moreover have "body_value (TxBody t) = a_data R" using y(7) by (simp only: normalize_body option.inject res_body.case)
  then have "\<not> nullish (a_data R)" using value_not_nullish(2) [of t] by simp
  ultimately show ?thesis
    using that [OF y(1,4,5) not_replayed(1) [OF y(6)] tx_signature [OF y(7,4) id] id _ _ r _ y(3)] y(2) t
    by (simp add: recorded_def map_set_get)
qed

lemma not_numeral_less_numeral_300: "\<not> ((422::int) < 300)"
  by simp

text \<open>What a POST that changes nothing leaves.\<close>

lemma still_step:
  assumes "key \<noteq> []"
    and "handle E (sim_request POST path body (request_headers body (key_header key)))
      ((lx_eng x)\<lparr>ticks := ticks (lx_eng x) + 1\<rparr>) = ((lx_eng x)\<lparr>ticks := ticks (lx_eng x) + 1\<rparr>, Returned r)"
  obtains R y where "lab_call E no_net label POST path body (key_header key) prep x = (Inr R, y)"
    and "quiet 1 (lx_eng x) (lx_eng y)" and "lx_fx y = lx_fx x"
    and "a_ok R \<longleftrightarrow> 200 \<le> r_status r \<and> r_status r < 300" and "a_status R = r_status r"
    and "a_headers R = r_headers r" and "normalize (body_value (r_body r)) = Some (a_data R)"
proof -
  have "quiet 1 (lx_eng x) ((lx_eng x)\<lparr>drawn := drawn (lx_eng x) + 1, ticks := Suc (Suc (Suc (ticks (lx_eng x))))\<rparr>)"
    by (rule quiet_refl) simp_all
  moreover obtain R y where "lab_call E no_net label POST path body (key_header key) prep x = (Inr R, y)"
    "lx_eng y = (lx_eng x)\<lparr>drawn := drawn (lx_eng x) + 1, ticks := Suc (Suc (Suc (ticks (lx_eng x))))\<rparr>" "lx_fx y = lx_fx x"
    "a_ok R \<longleftrightarrow> 200 \<le> r_status r \<and> r_status r < 300" "a_status R = r_status r"
    "a_headers R = r_headers r" "normalize (body_value (r_body r)) = Some (a_data R)"
    using post_step [OF assms, of label prep] by auto
  ultimately show ?thesis using that by simp
qed

text \<open>A retry of a recorded movement, and its key with another payload.\<close>

lemma retry_step:
  assumes plan: "path = q_path (money_request k key body)" "get_field body (js ''amount'') = JNum a" "0 < a"
      "k = Transfer \<longrightarrow> \<not> strict_eq (from_of k body) (to_of k body)" and key: "key \<noteq> []"
    and rec: "recorded key \<lparr>i_fingerprint = fingerprint k body, i_response = accepted p t\<rparr> (lx_eng x)"
    and id: "t_id t \<noteq> []"
  obtains R y where "lab_call E no_net label POST path body (key_header key) prep x = (Inr R, y)"
    and "quiet 1 (lx_eng x) (lx_eng y)" and "lx_fx y = lx_fx x"
    and "a_ok R" and "a_status R = 201" and "was_replayed R" and "signature R = JStr (t_id t)"
proof -
  have p: "plans (sim_request POST path body (request_headers body (key_header key))) (plan_for k key body a)"
    using plan key by (intro sim_plans)
  have "handle E (sim_request POST path body (request_headers body (key_header key)))
      ((lx_eng x)\<lparr>ticks := ticks (lx_eng x) + 1\<rparr>) =
    ((lx_eng x)\<lparr>ticks := ticks (lx_eng x) + 1\<rparr>, Returned (replay (accepted p t)))"
    using recorded_answer [OF p, of "\<lparr>i_fingerprint = fingerprint k body, i_response = accepted p t\<rparr>"] rec
    by (simp add: recorded_def)
  from still_step [OF key this, of label prep] obtain R y where
    "lab_call E no_net label POST path body (key_header key) prep x = (Inr R, y)"
    "quiet 1 (lx_eng x) (lx_eng y)" "lx_fx y = lx_fx x" "a_ok R" "a_status R = 201"
    "a_headers R = r_headers (replay (accepted p t))" "normalize (body_value (TxBody t)) = Some (a_data R)"
    by auto
  then show ?thesis using that is_replayed tx_signature id by metis
qed

lemma reused_step:
  assumes plan: "path = q_path (money_request k key body)" "get_field body (js ''amount'') = JNum a" "0 < a"
      "k = Transfer \<longrightarrow> \<not> strict_eq (from_of k body) (to_of k body)" and key: "key \<noteq> []"
    and rec: "recorded key r (lx_eng x)" and other: "i_fingerprint r \<noteq> fingerprint k body"
  obtains R y where "lab_call E no_net label POST path body (key_header key) prep x = (Inr R, y)"
    and "quiet 1 (lx_eng x) (lx_eng y)" and "lx_fx y = lx_fx x" and "a_status R = 422" and "\<not> was_replayed R"
proof -
  have p: "plans (sim_request POST path body (request_headers body (key_header key))) (plan_for k key body a)"
    using plan key by (intro sim_plans)
  have "handle E (sim_request POST path body (request_headers body (key_header key)))
      ((lx_eng x)\<lparr>ticks := ticks (lx_eng x) + 1\<rparr>) =
    ((lx_eng x)\<lparr>ticks := ticks (lx_eng x) + 1\<rparr>, Returned (key_reused (i_fingerprint r)))"
    using recorded_answer [OF p, of r] rec other by (simp add: recorded_def)
  from still_step [OF key this, of label prep] obtain R y where
    "lab_call E no_net label POST path body (key_header key) prep x = (Inr R, y)"
    "quiet 1 (lx_eng x) (lx_eng y)" "lx_fx y = lx_fx x" "\<not> a_ok R" "a_status R = 422"
    "a_headers R = r_headers (key_reused (i_fingerprint r))"
    "normalize (body_value (r_body (key_reused (i_fingerprint r)))) = Some (a_data R)"
    by (auto simp del: body_value.simps)
  then show ?thesis using that not_replayed(2) unfolding key_reused_def by blast
qed

lemma overdraft_step:
  assumes plan: "path = q_path (money_request k key body)" "get_field body (js ''amount'') = JNum a" "0 < a"
      "k = Transfer \<longrightarrow> \<not> strict_eq (from_of k body) (to_of k body)" and key: "key \<noteq> []"
    and new: "map_get (idem (lx_eng x)) key = None"
    and poor: "from_of k body = JStr i" "i \<noteq> []" "map_get (balances (lx_eng x)) i = Some b" "b < a"
    and known: "bank_knows (balances (lx_eng x)) (to_of k body)"
  obtains R y where "lab_call E no_net label POST path body (key_header key) prep x = (Inr R, y)"
    and "quiet 1 (lx_eng x) (lx_eng y)" and "lx_fx y = lx_fx x" and "a_status R = 422" and "\<not> a_ok R"
proof -
  let ?s = "(lx_eng x)\<lparr>ticks := ticks (lx_eng x) + 1\<rparr>" and ?p = "plan_for k key body a"
  have p: "plans (sim_request POST path body (request_headers body (key_header key))) ?p"
    using plan key by (intro sim_plans)
  obtain w where w: "map_get (wallets (lx_eng x)) i = Some w" "w_balance w = b"
    using poor(3) by (auto simp: map_get_balances)
  have "crit_begin ?p ?s = None"
    using new known w poor(1)
    by (simp add: crit_begin_None_iff bank_knows_balances missing_def get_wallet_def cong: jsval.case_cong)
  then have "handle E (sim_request POST path body (request_headers body (key_header key))) ?s =
      (?s, Returned (insufficient w a))"
    using handle_overdraft [OF p, of ?s w E] w poor by (simp add: get_wallet_def)
  from still_step [OF key this, of label prep] show ?thesis
    using that by (metis insufficient_status not_numeral_less_numeral_300)
qed

lemma reconcile_step:
  assumes "ready E N n m (lx_eng x)" and "id_text w \<in> set (map_keys (wallets (lx_eng x)))"
  obtains R y where "lab_reconcile E no_net label w x = (Inr R, y)" and "quiet 1 (lx_eng x) (lx_eng y)"
    and "lx_fx y = lx_fx x" and "a_ok R" and "flag R (js ''balanced'')" and "flag R (js ''chain_valid'')"
    and "entry_count R = JNum (int (length (wallet_entries (id_text w) (entries (lx_eng x)))))"
proof -
  let ?s = "(lx_eng x)\<lparr>ticks := ticks (lx_eng x) + 1\<rparr>"
  obtain v where v: "map_get (wallets (lx_eng x)) (id_text w) = Some v" "list_all is_word_char (id_text w)"
      "id_text w \<noteq> []"
    using ready_ids [OF assms] by metis
  have wf: "wf_books ?s" using ready_wf [OF assms(1)] by simp
  let ?rc = "reconcile E v ?s"
  have rc: "rc_balanced ?rc" "rc_chain_valid ?rc"
      "rc_entry_count ?rc = length (wallet_entries (id_text w) (entries (lx_eng x)))"
    using reconcile_balanced [OF wf] v(1) by simp_all
  have "handle E (get_request (js ''/wallets/'' @ id_text w @ js ''/reconcile'')) ?s =
      ((lx_eng x)\<lparr>ticks := ticks ?s + 1\<rparr>, Returned (ok (ReconBody ?rc) 200 []))"
    using v by (subst handle_reconcile) simp_all
  from get_step [OF this, of label True] obtain R y where
    R: "lab_call E no_net label GET (js ''/wallets/'' @ id_text w @ js ''/reconcile'') JUndef [] True x = (Inr R, y)"
      "quiet 1 (lx_eng x) (lx_eng y)" "lx_fx y = lx_fx x" "a_ok R"
      "normalize (body_value (r_body (ok (ReconBody ?rc) 200 []))) = Some (a_data R)"
    using ok_status_200 by metis
  have "a_data R = body_value (ReconBody ?rc)" using R(5) by (simp only: ok_simps normalize_body option.inject res_body.case)
  then show ?thesis
    using that R(1-4) rc by (simp add: lab_reconcile_def flag_def entry_count_def recon_value_def)
qed

section \<open>Creating a wallet\<close>

lemma create_route: "q_route (sim_request POST (js ''/wallets'') body hs) = RCreate"
  by (simp add: sim_request_def route_of_def strip_prefix_def take_js)

lemma created_value:
  assumes "normalize (body_value (r_body (ok (WalletBody w) st hs))) = Some (a_data R)"
  shows "a_data R = wallet_value w" and "wallet_id (a_data R) = JStr (w_id w)" and "id_text (a_data R) = w_id w"
proof -
  have "a_data R = body_value (WalletBody w)"
    using assms by (simp only: ok_simps normalize_body option.inject res_body.case)
  then show "a_data R = wallet_value w" "wallet_id (a_data R) = JStr (w_id w)" "id_text (a_data R) = w_id w"
    by (simp_all add: id_text_def wallet_id_def wallet_value_def)
qed

lemma create_step:
  assumes ready: "ready E N n m (lx_eng x)" and m: "3 \<le> m"
    and owner: "trim (js_string (coalesce (get_field body (js ''owner'')) (JStr []))) \<noteq> []"
  obtains R y w where "lab_call E no_net label POST (js ''/wallets'') body [] prep x = (Inr R, y)" and "a_ok R"
    and "wallet_id (a_data R) = JStr (w_id w)" and "id_text (a_data R) = w_id w"
    and "w_balance w = 0" and "w_id w \<notin> set (map_keys (wallets (lx_eng x)))"
    and "wallets (lx_eng y) = wallets (lx_eng x) @ [(w_id w, w)]" and "ready E N n (m - 3) (lx_eng y)"
    and "lx_fx y = lx_fx x" and "a_data R = wallet_value w"
    and "w_owner w = trim (js_string (coalesce (get_field body (js ''owner'')) (JStr [])))"
proof -
  let ?x = "(lx_eng x)\<lparr>drawn := drawn (lx_eng x) + 1, ticks := ticks (lx_eng x) + 1\<rparr>"
  let ?k = "key_header (idemKey E (drawn (lx_eng x)))"
  let ?q = "sim_request POST (js ''/wallets'') body (request_headers body ?k)"
  have r: "fresh_ids E N" "sound E n (lx_eng x)" "fresh_keys E N (lx_eng x)" "drawn (lx_eng x) + m \<le> N"
    using ready by (simp_all add: ready_def)
  have s: "sound E n ?x" using sound_quiet [OF r(2) quiet_refl(2), of "drawn (lx_eng x) + 1" 1] by simp
  obtain w where w: "create_wallet E body ?x =
      (?x\<lparr>wallets := map_set (w_id w) w (wallets ?x), drawn := drawn ?x + 1, ticks := ticks ?x + 1\<rparr>,
       ok (WalletBody w) 201 [(js ''location'', js ''/api/v1/wallets/'' @ w_id w)])"
    "w_id w = rid E (js ''wal'') (drawn ?x)" "w_balance w = 0"
    "w_owner w = trim (js_string (coalesce (get_field body (js ''owner'')) (JStr [])))"
    using owner by (simp add: create_wallet_def Let_def)
  have new: "w_id w \<notin> set (map_keys (wallets (lx_eng x)))"
    using fresh_wallet_id [OF r(1), of ?x] s r(4) m w(2) by (simp add: sound_def)
  let ?s1 = "?x\<lparr>wallets := wallets ?x @ [(w_id w, w)], drawn := drawn ?x + 1, ticks := ticks ?x + 1\<rparr>"
  have "map_set (w_id w) w (wallets ?x) = wallets ?x @ [(w_id w, w)]"
    using new by (intro map_set_new) (simp add: jsmap.get_None_iff)
  then have h: "handle E ?q ?x = (?s1, Returned (ok (WalletBody w) 201 [(js ''location'', js ''/api/v1/wallets/'' @ w_id w)]))"
    using w(1) by (simp add: handle_def dispatch_def create_route) (simp add: sim_request_def)
  have wk: "with_key E POST [] (lx_eng x) = (?k, (lx_eng x)\<lparr>drawn := drawn (lx_eng x) + 1\<rparr>)"
    by (simp add: with_key_def lacks_def key_header_def)
  let ?r = "ok (WalletBody w) 201 [(js ''location'', js ''/api/v1/wallets/'' @ w_id w)]"
  have h': "handle E ?q (((lx_eng x)\<lparr>drawn := drawn (lx_eng x) + 1\<rparr>)
      \<lparr>ticks := ticks ((lx_eng x)\<lparr>drawn := drawn (lx_eng x) + 1\<rparr>) + 1\<rparr>) = (?s1, Returned ?r)"
    using h by simp
  obtain R where R: "api_request E Unreachable POST (js ''/wallets'') body [] (lx_eng x) =
      (?s1\<lparr>drawn := drawn ?s1 + 1, ticks := ticks ?s1 + 2\<rparr>, Some R)" "a_ok R"
    "normalize (body_value (r_body ?r)) = Some (a_data R)"
    using api_sim [OF wk h'] by auto
  let ?y = "x\<lparr>lx_eng := ?s1\<lparr>drawn := drawn ?s1 + 1, ticks := ticks ?s1 + 2\<rparr>\<rparr>"
  have "sound E n ?s1" using serve_sound [OF r(1) s, of ?q] h r(4) m by (simp add: serve_def)
  then have "sound E n (lx_eng ?y)" using sound_quiet quiet_refl(2) [of ?s1 "drawn ?s1 + 1" 1] by fastforce
  moreover have "fresh_keys E N (lx_eng ?y)" using r(3) by (simp add: fresh_keys_def)
  ultimately have "ready E N n (m - 3) (lx_eng ?y)" using r m by (simp add: ready_def)
  then show ?thesis
    using that [of R "?y\<lparr>lx_log := _\<rparr>" w] R(1,2) created_value [OF R(3)] w(3,4) new by (simp add: lab_call_def)
qed

end
