(* ===== verification/Verdicts.thy ===== *)
theory Verdicts
  imports Calls
begin

text \<open>
  The experiments of the Systems Lab on the engine in the page: whatever was done before, with
  fixture wallets it has or creates, the replay, the tampering and the overdraft experiment
  return assertions that all hold. The runs are composed from the steps of \<open>Calls\<close>.
\<close>

section \<open>Two wallets of the bank\<close>

lemma bank_account_key: "map_get b i = Some x \<Longrightarrow> i \<noteq> [] \<Longrightarrow> bank_account b (JStr i) = Some (i, x)"
  by (simp add: bank_account_def)

lemma transfer_from:
  assumes "map_get b i = Some x" and "i \<noteq> []" and "i \<noteq> j"
  shows "map_get (bank_transfer js_add (JStr i) (JStr j) a b) i = Some (js_add x (- a))"
  using assms by (auto simp: bank_transfer_def bank_move_def bank_account_key map_set_get split: option.split)
    (auto simp: bank_account_def map_set_get split: if_splits)

lemma transfer_to:
  assumes "map_get b i = Some x" and "map_get b j = Some y" and "i \<noteq> []" and "j \<noteq> []" and "i \<noteq> j"
  shows "map_get (bank_transfer js_add (JStr i) (JStr j) a b) j = Some (js_add y a)"
  using assms by (auto simp: bank_transfer_def bank_move_def bank_account_def map_set_get split: option.split)

lemma deposit_to:
  assumes "map_get b i = Some x" and "i \<noteq> []"
  shows "map_get (bank_transfer js_add JNull (JStr i) a b) i = Some (js_add x a)"
  using assms by (simp add: bank_transfer_def bank_move_def bank_account_key map_set_get)
    (simp add: bank_account_def bank_account_key map_set_get)

lemma deposit_other:
  "i \<noteq> j \<Longrightarrow> map_get (bank_transfer js_add JNull (JStr j) a b) i = map_get b i"
  by (auto simp: bank_transfer_def bank_move_def bank_account_def map_set_get split: option.split)

lemma map_get_snoc: "k \<notin> set (map_keys m) \<Longrightarrow> map_get (m @ [(k, v)]) k = Some v"
  by (induction m) auto

section \<open>The bodies of the experiments\<close>

lemma transfer_body_facts [simp]:
  "get_field (transfer_body a b n ref) (js ''amount'') = JNum n"
  "from_of Transfer (transfer_body a b n ref) = wallet_id a"
  "to_of Transfer (transfer_body a b n ref) = wallet_id b"
  by (simp_all add: transfer_body_def from_of_def to_of_def)

lemma deposit_body_facts [simp]:
  "get_field (deposit_body a n ref) (js ''amount'') = JNum n"
  "from_of Deposit (deposit_body a n ref) = JNull" "to_of Deposit (deposit_body a n ref) = wallet_id a"
  by (simp_all add: deposit_body_def from_of_def to_of_def)

lemma withdraw_body_facts [simp]:
  "get_field (withdraw_body a n) (js ''amount'') = JNum n"
  "from_of Withdrawal (withdraw_body a n) = wallet_id a" "to_of Withdrawal (withdraw_body a n) = JNull"
  by (simp_all add: withdraw_body_def from_of_def to_of_def)

text \<open>
  A state in which the experiments run: the fixture is there, \<open>b\<close> is the balance of its first
  wallet and \<open>tot\<close> the balance of both.
\<close>

definition staged :: "env \<Rightarrow> nat \<Rightarrow> int \<Rightarrow> nat \<Rightarrow> nat \<Rightarrow> fixture \<Rightarrow> int \<Rightarrow> lab_run \<Rightarrow> bool" where
  "staged E N tot n m f b x \<longleftrightarrow> ready E N n m (lx_eng x) \<and> fixture_on f (lx_eng x) \<and>
     map_get (balances (lx_eng x)) (id_text (fx_a f)) = Some b \<and>
     map_get (balances (lx_eng x)) (id_text (fx_b f)) = Some (tot - b)"

lemma staged_quiet:
  "staged E N tot n m f b x \<Longrightarrow> quiet c (lx_eng x) (lx_eng y) \<Longrightarrow> c \<le> m \<Longrightarrow> staged E N tot n (m - c) f b y"
  using ready_quiet [of E N n m "lx_eng x" c "lx_eng y"] quiet_facts(1,5) [of c "lx_eng x" "lx_eng y"]
  by (simp add: staged_def)

lemma staged_ids:
  assumes "staged E N tot n m f b x"
  shows "wallet_id (fx_a f) = JStr (id_text (fx_a f))" and "wallet_id (fx_b f) = JStr (id_text (fx_b f))"
    and "id_text (fx_a f) \<noteq> id_text (fx_b f)" and "id_text (fx_a f) \<noteq> []" and "id_text (fx_b f) \<noteq> []"
    and "id_text (fx_a f) \<in> set (map_keys (wallets (lx_eng x)))"
    and "id_text (fx_b f) \<in> set (map_keys (wallets (lx_eng x)))"
proof -
  show f: "wallet_id (fx_a f) = JStr (id_text (fx_a f))" "wallet_id (fx_b f) = JStr (id_text (fx_b f))"
    "id_text (fx_a f) \<noteq> id_text (fx_b f)" "id_text (fx_a f) \<in> set (map_keys (wallets (lx_eng x)))"
    "id_text (fx_b f) \<in> set (map_keys (wallets (lx_eng x)))"
    using assms unfolding staged_def fixture_on_def by blast+
  show "id_text (fx_a f) \<noteq> []" "id_text (fx_b f) \<noteq> []"
    using ready_ids f(4,5) assms unfolding staged_def by metis+
qed

lemma staged_nonneg:
  assumes "staged E N tot n m f b x"
  shows "0 \<le> b" and "b \<le> tot"
proof -
  have "solvent (lx_eng x)" using assms ready_wf by (auto simp: staged_def wf_books_def)
  then have "0 \<le> v" if "map_get (balances (lx_eng x)) i = Some v" for i v
    using that by (auto simp: map_get_balances solvent_def)
  from this [of "id_text (fx_a f)" b] this [of "id_text (fx_b f)" "tot - b"]
  show "0 \<le> b" and "b \<le> tot" using assms by (simp_all add: staged_def)
qed

lemma staged_known:
  assumes "staged E N tot n m f b x"
  shows "bank_knows (balances (lx_eng x)) (JStr (id_text (fx_b f)))"
    and "bank_account (balances (lx_eng x)) (JStr (id_text (fx_a f))) = Some (id_text (fx_a f), b)"
proof -
  obtain w where "map_get (balances (lx_eng x)) (id_text (fx_b f)) = Some w"
    using staged_ids(7) [OF assms] by (metis balances_keys jsmap.get_None_iff not_Some_eq)
  then show "bank_knows (balances (lx_eng x)) (JStr (id_text (fx_b f)))"
    using staged_ids(5) [OF assms] by (simp add: bank_knows_def bank_account_key)
  show "bank_account (balances (lx_eng x)) (JStr (id_text (fx_a f))) = Some (id_text (fx_a f), b)"
    using assms staged_ids(4) [OF assms] by (simp add: staged_def bank_account_key)
qed

lemma staged_transfer:
  assumes "staged E N tot n m f b x" and "a \<le> b"
  shows "bank_accepts (balances (lx_eng x)) (plan_for Transfer key (transfer_body (fx_a f) (fx_b f) a ref) a)"
  using staged_known [OF assms(1)] staged_ids [OF assms(1)] assms(2)
  by (simp add: bank_accepts_def bank_covers_def bank_knows_def)

section \<open>Reading and moving\<close>

lemma snapshot_step:
  assumes "staged E N tot n m f b x" and "0 < m"
  obtains y where "lab_balance E no_net (fx_a f) label x = (Inr b, y)" and "staged E N tot n (m - 1) f b y"
    and "balances (lx_eng y) = balances (lx_eng x)"
proof -
  have r: "ready E N n m (lx_eng x)" "map_get (balances (lx_eng x)) (id_text (fx_a f)) = Some b"
    using assms(1) by (simp_all add: staged_def)
  obtain b' y where y: "lab_balance E no_net (fx_a f) label x = (Inr b', y)"
      "map_get (balances (lx_eng x)) (id_text (fx_a f)) = Some b'" "quiet 1 (lx_eng x) (lx_eng y)" "lx_fx y = lx_fx x"
    by (rule balance_step [OF r(1) staged_ids(6) [OF assms(1)]])
  then show ?thesis
    using that [of y] staged_quiet [OF assms(1) y(3)] assms(2) r(2) quiet_facts [OF y(3)] by simp
qed

text \<open>A fresh key, and the transfer made with it.\<close>

lemma transfer_step:
  assumes st: "staged E N tot n m f b x" and m: "4 \<le> m" and a: "0 < a" "a \<le> b" and tot: "tot \<le> 2 ^ 53"
    and key: "key = idemKey E i" "i < drawn (lx_eng x)" "key \<noteq> []" "map_get (idem (lx_eng x)) key = None"
  obtains R y t where "lab_call E no_net label POST (js ''/transfers'') (transfer_body (fx_a f) (fx_b f) a ref)
      (key_header key) prep x = (Inr R, y)"
    and "a_ok R" and "a_status R = 201" and "\<not> was_replayed R" and "signature R = JStr (t_id t)" and "t_id t \<noteq> []"
    and "recorded key \<lparr>i_fingerprint = fingerprint Transfer (transfer_body (fx_a f) (fx_b f) a ref),
      i_response = accepted (plan_for Transfer key (transfer_body (fx_a f) (fx_b f) a ref) a) t\<rparr> (lx_eng y)"
    and "staged E N tot n (m - 4) f (js_add b (- a)) y" and "lx_fx y = lx_fx x"
proof -
  note ids = staged_ids [OF st]
  have r: "ready E N n m (lx_eng x)" using st by (simp add: staged_def)
  have pre: "js ''/transfers'' = q_path (money_request Transfer key (transfer_body (fx_a f) (fx_b f) a ref))"
    "get_field (transfer_body (fx_a f) (fx_b f) a ref) (js ''amount'') = JNum a"
    "Transfer = Transfer \<longrightarrow> \<not> strict_eq (from_of Transfer (transfer_body (fx_a f) (fx_b f) a ref))
       (to_of Transfer (transfer_body (fx_a f) (fx_b f) a ref))"
    using ids by (simp_all add: strict_eq_def)
  obtain R y t where y: "lab_call E no_net label POST (js ''/transfers'') (transfer_body (fx_a f) (fx_b f) a ref)
        (key_header key) prep x = (Inr R, y)"
      "a_ok R" "a_status R = 201" "\<not> was_replayed R" "signature R = JStr (t_id t)" "t_id t \<noteq> []"
      "balances (lx_eng y) = bank_transfer js_add (wallet_id (fx_a f)) (wallet_id (fx_b f)) a (balances (lx_eng x))"
      "recorded key \<lparr>i_fingerprint = fingerprint Transfer (transfer_body (fx_a f) (fx_b f) a ref),
        i_response = accepted (plan_for Transfer key (transfer_body (fx_a f) (fx_b f) a ref) a) t\<rparr> (lx_eng y)"
      "ready E N n (m - 4) (lx_eng y)" "map_keys (wallets (lx_eng y)) = map_keys (wallets (lx_eng x))"
      "lx_fx y = lx_fx x"
    using move_step [OF r m key pre(1,2) a(1) pre(3) staged_transfer [OF st a(2)], of label prep]
    unfolding transfer_body_facts by metis
  have "map_get (balances (lx_eng x)) (id_text (fx_a f)) = Some b" using st by (simp add: staged_def)
  then have "map_get (balances (lx_eng y)) (id_text (fx_a f)) = Some (js_add b (- a))"
    unfolding y(7) ids(1,2) using ids(3,4) by (intro transfer_from)
  moreover have "fixture_on f (lx_eng y)" using st y(10) unfolding staged_def fixture_on_def by simp
  moreover have "map_get (balances (lx_eng y)) (id_text (fx_b f)) = Some (js_add (tot - b) a)"
    unfolding y(7) ids(1,2) using st ids(3-5) by (intro transfer_to [of _ _ b]) (simp_all add: staged_def)
  moreover have "js_add (tot - b) a = tot - js_add b (- a)"
    using staged_nonneg [OF st] a tot num.add_exact [of "tot - b" a] num.add_exact [of b "- a"] by simp
  ultimately have "staged E N tot n (m - 4) f (js_add b (- a)) y" using y(9) by (simp add: staged_def)
  then show ?thesis using that y by metis
qed

text \<open>A drawn key, with what its use needs.\<close>

lemma key_step:
  assumes "staged E N tot n m f b x" and "0 < m"
  obtains key y where "draw_key E x = (Inr key, y)" and "staged E N tot n (m - 1) f b y" and "lx_fx y = lx_fx x"
    and "key = idemKey E (drawn (lx_eng x))" and "drawn (lx_eng x) < drawn (lx_eng y)" and "key \<noteq> []"
    and "map_get (idem (lx_eng y)) key = None" and "balances (lx_eng y) = balances (lx_eng x)"
proof -
  have r: "ready E N n m (lx_eng x)" using assms(1) by (simp add: staged_def)
  obtain key y where y: "draw_key E x = (Inr key, y)" "quiet 1 (lx_eng x) (lx_eng y)" "lx_fx y = lx_fx x"
      "key = idemKey E (drawn (lx_eng x))" "key \<noteq> []" "map_get (idem (lx_eng y)) key = None"
      "drawn (lx_eng x) < drawn (lx_eng y)"
    by (rule draw_key_step [OF r assms(2)])
  show ?thesis
    by (rule that [OF y(1) staged_quiet [OF assms(1) y(2)] y(3,4,7,5,6) quiet_facts(1) [OF y(2)]]) (use assms(2) in simp)
qed

lemma staged_still:
  "staged E N tot n m f b x \<Longrightarrow> quiet 1 (lx_eng x) (lx_eng y) \<Longrightarrow> 0 < m \<Longrightarrow> staged E N tot n (m - 1) f b y"
  using staged_quiet [of E N tot n m f b x 1 y] by simp

lemma recorded_quiet: "recorded key r s \<Longrightarrow> quiet c s t \<Longrightarrow> recorded key r t"
  by (simp add: recorded_def quiet_facts)

lemma js_back: "0 \<le> a \<Longrightarrow> a \<le> b \<Longrightarrow> b \<le> 2 ^ 53 \<Longrightarrow> js_add b (- a) = b - a \<and> js_add (b - a) (- b) = - a"
  using num.add_exact [of b "- a"] num.add_exact [of "b - a" "- b"] by simp

section \<open>Replay\<close>

lemma staged_less: "staged E N tot n m f b x \<Longrightarrow> k \<le> m \<Longrightarrow> staged E N tot n k f b x"
  by (simp add: staged_def ready_def)

lemma replay_ok:
  assumes st: "staged E N tot n (m + 9) f b x" and b: "2500 \<le> b" and tot: "tot \<le> 2 ^ 53"
  obtains cs y where "replay_experiment E no_net f x = (Inr cs, y)" and "list_all as_pass cs"
    and "staged E N tot n m f (b - 2500) y"
proof -
  have le: "b \<le> 2 ^ 53" using staged_nonneg(2) [OF st] tot by simp
  let ?body = "transfer_body (fx_a f) (fx_b f) 2500 (js ''lab:replay'')"
  let ?label = "\<lambda>key i. js ''Attempt '' @ dec i @ js '' '' @ [0xB7] @ js '' key '' @ shortId (JStr key) 6"
  have pos: "0 < m + 9" "0 < m + 9 - 1" "4 \<le> m + 9 - 1 - 1" "0 < (2500 :: int)" by simp_all
  obtain x1 where x1: "lab_balance E no_net (fx_a f) (js ''Snapshot '' @ alpha) x = (Inr b, x1)"
      "staged E N tot n (m + 9 - 1) f b x1"
    using snapshot_step [OF st pos(1)] by blast
  obtain key x2 where x2: "draw_key E x1 = (Inr key, x2)" "staged E N tot n (m + 9 - 1 - 1) f b x2"
      "key = idemKey E (drawn (lx_eng x1))" "drawn (lx_eng x1) < drawn (lx_eng x2)" "key \<noteq> []"
      "map_get (idem (lx_eng x2)) key = None"
    using key_step [OF x1(2) pos(2)] by blast
  obtain r1 x3 t where x3: "lab_call E no_net (?label key 1) POST (js ''/transfers'') ?body (key_header key) False x2 = (Inr r1, x3)"
      "a_ok r1" "a_status r1 = 201" "signature r1 = JStr (t_id t)" "t_id t \<noteq> []"
      "recorded key \<lparr>i_fingerprint = fingerprint Transfer ?body, i_response = accepted (plan_for Transfer key ?body 2500) t\<rparr> (lx_eng x3)"
      "staged E N tot n (m + 9 - 1 - 1 - 4) f (js_add b (- 2500)) x3"
    using transfer_step [OF x2(2) pos(3,4) b tot x2(3-6)] by blast
  have pre: "js ''/transfers'' = q_path (money_request Transfer key ?body)"
    "get_field ?body (js ''amount'') = JNum 2500" "(0::int) < 2500"
    "Transfer = Transfer \<longrightarrow> \<not> strict_eq (from_of Transfer ?body) (to_of Transfer ?body)"
    using staged_ids [OF st] by (simp_all add: strict_eq_def)
  obtain r2 x4 where x4: "lab_call E no_net (?label key 2) POST (js ''/transfers'') ?body (key_header key) False x3 = (Inr r2, x4)"
      "quiet 1 (lx_eng x3) (lx_eng x4)" "a_ok r2" "was_replayed r2" "signature r2 = JStr (t_id t)"
    using retry_step [OF pre x2(5) x3(6) x3(5)] by blast
  obtain r3 x5 where x5: "lab_call E no_net (?label key 3) POST (js ''/transfers'') ?body (key_header key) False x4 = (Inr r3, x5)"
      "quiet 1 (lx_eng x4) (lx_eng x5)" "a_ok r3" "was_replayed r3" "signature r3 = JStr (t_id t)"
    using retry_step [OF pre x2(5) recorded_quiet [OF x3(6) x4(2)] x3(5)] by blast
  have st5: "staged E N tot n (m + 1) f (b - 2500) x5"
    using staged_still [OF staged_still [OF x3(7) x4(2)] x5(2)] b le js_back [of 2500 b] by simp
  have pos': "0 < m + 1" by simp
  obtain x6 where x6: "lab_balance E no_net (fx_a f) (js ''Snapshot '' @ alpha) x5 = (Inr (b - 2500), x6)"
      "staged E N tot n (m + 1 - 1) f (b - 2500) x6"
    using snapshot_step [OF st5 pos'] by blast
  have run: "replay_experiment E no_net f x = (Inr (replay_assertions b (b - 2500) [r1, r2, r3]), x6)"
    using x3(1) x4(1) x5(1)
    by (simp add: replay_experiment_def snapshot_def replay_attempt_def and_then_def give_def x1(1) x2(1) x6(1) Let_def)
  have "list_all as_pass (replay_assertions b (b - 2500) [r1, r2, r3])"
    using js_back [of 2500 b] b le x3(2-5) x4(3-5) x5(3-5)
    by (simp add: replay_assertions_def check_def same_signature_def strict_eq_def)
  with run show ?thesis using x6(2) by (intro that) simp_all
qed

section \<open>Tampering\<close>

text \<open>The canonical text of a transfer starts with its amount.\<close>

lemma between_canonical:
  "canonical (between a b n ref) =
   js ''{'' @ quote (js ''amount'') @ js '':'' @ num_text n @ js '','' @
   member (js ''from_wallet_id'', quote a) @ js '','' @
   member (js ''reference'', quote ref) @ js '','' @
   member (js ''to_wallet_id'', quote b) @ js ''}''"
proof -
  have lt: "js ''amount'' < js ''from_wallet_id''" "js ''from_wallet_id'' < js ''reference''"
    "js ''reference'' < js ''to_wallet_id''" "js ''amount'' < js ''reference''"
    "js ''amount'' < js ''to_wallet_id''" "js ''from_wallet_id'' < js ''to_wallet_id''"
    by (simp_all add: js_def)
  have keys: "sort (object_keys (between a b n ref)) =
      [js ''amount'', js ''from_wallet_id'', js ''reference'', js ''to_wallet_id'']"
    using lt by (auto simp: between_def insort_key_def)
  show ?thesis
    unfolding canonical_def keys
    by (simp add: between_def pick_def map_filter_simps member_def) (simp add: js_def)
qed

lemma transfer_body_between:
  "wallet_id a = JStr i \<Longrightarrow> wallet_id b = JStr j \<Longrightarrow> transfer_body a b n ref = between i j n ref"
  by (simp add: transfer_body_def between_def)

lemma quote_amount:
  "quote (js ''amount'') = js [CHR 0x22, CHR ''a'', CHR ''m'', CHR ''o'', CHR ''u'', CHR ''n'', CHR ''t'', CHR 0x22]"
  by (simp add: quote_def js_def escape_unit_def high_surrogate_def low_surrogate_def)

lemma tamper_lanes:
  "fst (fnv_lanes (js ''transfer|{'' @ quote (js ''amount'') @ js '':1000'')) \<noteq>
   fst (fnv_lanes (js ''transfer|{'' @ quote (js ''amount'') @ js '':900000''))"
  unfolding fnv_lanes_def fst_foldl_fnv quote_amount by (simp add: js_def)

lemma tamper_texts: "num_text 1000 = js ''1000''" "num_text 900000 = js ''900000''"
  by (simp_all add: num_text_exact) (simp_all add: dec.simps digit_def js_def)

text \<open>The tampered amount has another fingerprint, for any wallets.\<close>

lemma tamper_fingerprints:
  "fingerprint Transfer (between i j 1000 ref) \<noteq> fingerprint Transfer (between i j 900000 ref)"
proof -
  have shape: "kind_text Transfer @ js ''|'' @ canonical (between i j n ref) =
      (js ''transfer|{'' @ quote (js ''amount'') @ js '':'' @ num_text n) @ js '','' @
      member (js ''from_wallet_id'', quote i) @ js '','' @ member (js ''reference'', quote ref) @ js '','' @
      member (js ''to_wallet_id'', quote j) @ js ''}''" for n
    unfolding between_canonical by (simp add: js_append [of "''transfer|''" "''{''", simplified] flip: append_assoc)
      (simp add: js_def)
  have "js ''transfer|{'' @ quote (js ''amount'') @ js '':'' @ num_text 1000 =
      js ''transfer|{'' @ quote (js ''amount'') @ js '':1000''"
    "js ''transfer|{'' @ quote (js ''amount'') @ js '':'' @ num_text 900000 =
      js ''transfer|{'' @ quote (js ''amount'') @ js '':900000''"
    by (simp_all add: tamper_texts js_def)
  then show ?thesis
    using fnv_prefix [OF tamper_lanes] unfolding fingerprint_def fingerprint_eq_fnv shape by metis
qed

lemma tamper_ok:
  assumes st: "staged E N tot n (m + 8) f b x" and b: "1000 \<le> b" and tot: "tot \<le> 2 ^ 53"
  obtains cs y where "tamper_experiment E no_net f x = (Inr cs, y)" and "list_all as_pass cs"
    and "staged E N tot n m f (b - 1000) y"
proof -
  have le: "b \<le> 2 ^ 53" using staged_nonneg(2) [OF st] tot by simp
  let ?body = "\<lambda>n. transfer_body (fx_a f) (fx_b f) n (js ''lab:tamper'')"
  have pos: "0 < m + 8" "0 < m + 8 - 1" "4 \<le> m + 8 - 1 - 1" "0 < (1000 :: int)" by simp_all
  obtain x1 where x1: "lab_balance E no_net (fx_a f) (js ''Snapshot '' @ alpha) x = (Inr b, x1)"
      "staged E N tot n (m + 8 - 1) f b x1"
    using snapshot_step [OF st pos(1)] by blast
  obtain key x2 where x2: "draw_key E x1 = (Inr key, x2)" "staged E N tot n (m + 8 - 1 - 1) f b x2"
      "key = idemKey E (drawn (lx_eng x1))" "drawn (lx_eng x1) < drawn (lx_eng x2)" "key \<noteq> []"
      "map_get (idem (lx_eng x2)) key = None"
    using key_step [OF x1(2) pos(2)] by blast
  obtain r1 x3 t where x3: "lab_call E no_net (js ''Original $10.00 '' @ [0xB7] @ js '' key '' @ shortId (JStr key) 6) POST
        (js ''/transfers'') (?body 1000) (key_header key) False x2 = (Inr r1, x3)" "a_ok r1"
      "recorded key \<lparr>i_fingerprint = fingerprint Transfer (?body 1000),
         i_response = accepted (plan_for Transfer key (?body 1000) 1000) t\<rparr> (lx_eng x3)"
      "staged E N tot n (m + 8 - 1 - 1 - 4) f (js_add b (- 1000)) x3"
    using transfer_step [OF x2(2) pos(3,4) b tot x2(3-6)] by blast
  note ids = staged_ids [OF st]
  have pre: "js ''/transfers'' = q_path (money_request Transfer key (?body 900000))"
    "get_field (?body 900000) (js ''amount'') = JNum 900000" "(0::int) < 900000"
    "Transfer = Transfer \<longrightarrow> \<not> strict_eq (from_of Transfer (?body 900000)) (to_of Transfer (?body 900000))"
    using ids by (simp_all add: strict_eq_def)
  have other: "i_fingerprint \<lparr>i_fingerprint = fingerprint Transfer (?body 1000),
      i_response = accepted (plan_for Transfer key (?body 1000) 1000) t\<rparr> \<noteq> fingerprint Transfer (?body 900000)"
    using tamper_fingerprints by (simp add: transfer_body_between [OF ids(1,2)])
  obtain r2 x4 where x4: "lab_call E no_net (js ''Tampered $9,000.00 '' @ [0xB7] @ js '' same key'') POST
        (js ''/transfers'') (?body 900000) (key_header key) False x3 = (Inr r2, x4)"
      "quiet 1 (lx_eng x3) (lx_eng x4)" "a_status r2 = 422" "\<not> was_replayed r2"
    using reused_step [OF pre x2(5) x3(3) other] by blast
  have st4: "staged E N tot n (m + 1) f (b - 1000) x4"
    using staged_still [OF x3(4) x4(2)] b le js_back [of 1000 b] by simp
  have pos': "0 < m + 1" by simp
  obtain x5 where x5: "lab_balance E no_net (fx_a f) (js ''Snapshot '' @ alpha) x4 = (Inr (b - 1000), x5)"
      "staged E N tot n (m + 1 - 1) f (b - 1000) x5"
    using snapshot_step [OF st4 pos'] by blast
  have run: "tamper_experiment E no_net f x = (Inr (tamper_assertions b (b - 1000) r1 r2), x5)"
    using x3(1) x4(1)
    by (simp add: tamper_experiment_def snapshot_def and_then_def give_def x1(1) x2(1) x5(1))
  have "list_all as_pass (tamper_assertions b (b - 1000) r1 r2)"
    using js_back [of 1000 b] b le x3(2) x4(3,4) by (simp add: tamper_assertions_def check_def)
  with run show ?thesis using x5(2) by (intro that) simp_all
qed

section \<open>Overdraft\<close>

lemma overdraft_ok:
  assumes st: "staged E N tot n (m + 6) f b x" and tot: "tot < 2 ^ 53"
  obtains cs y where "overdraft_experiment E no_net f x = (Inr cs, y)" and "list_all as_pass cs"
    and "staged E N tot n m f b y"
proof -
  have b: "b < 2 ^ 53" using staged_nonneg(2) [OF st] tot by simp
  let ?count = "JNum (int (length (wallet_entries (id_text (fx_a f)) (entries (lx_eng x)))))"
  let ?body = "withdraw_body (fx_a f) (b + 1)"
  have pos: "0 < m + 6" "0 < m + 6 - 1" "0 < m + 6 - 1 - 1" "0 < m + 6 - 1 - 1 - 1" by simp_all
  note ids = staged_ids [OF st]
  have plus: "js_add b 1 = b + 1" using b staged_nonneg [OF st] num.add_exact [of b 1] by simp
  obtain r0 x1 where x1: "lab_reconcile E no_net (js ''Reconcile '' @ alpha @ js '' (before)'') (fx_a f) x = (Inr r0, x1)"
      "quiet 1 (lx_eng x) (lx_eng x1)" "a_ok r0" "entry_count r0 = ?count"
    using reconcile_step [OF _ ids(6)] st [unfolded staged_def] by blast
  have st1: "staged E N tot n (m + 6 - 1) f b x1" by (rule staged_still [OF st x1(2) pos(1)])
  obtain b' x2 where x2: "lab_balance E no_net (fx_a f) (js ''Snapshot '' @ alpha) x1 = (Inr b', x2)"
      "map_get (balances (lx_eng x1)) (id_text (fx_a f)) = Some b'" "quiet 1 (lx_eng x1) (lx_eng x2)"
    using balance_step [OF _ staged_ids(6) [OF st1]] st1 [unfolded staged_def] by blast
  have b': "b' = b" using x2(2) st1 by (simp add: staged_def)
  have st2: "staged E N tot n (m + 6 - 1 - 1) f b x2" by (rule staged_still [OF st1 x2(3) pos(2)])
  have r2: "ready E N n (m + 6 - 1 - 1) (lx_eng x2)" using st2 by (simp add: staged_def)
  obtain key x3 where x3: "draw_key E x2 = (Inr key, x3)" "quiet 1 (lx_eng x2) (lx_eng x3)" "key \<noteq> []"
      "map_get (idem (lx_eng x3)) key = None"
    using draw_key_step [OF r2 pos(3)] by blast
  have st3: "staged E N tot n (m + 6 - 1 - 1 - 1) f b x3" by (rule staged_still [OF st2 x3(2) pos(3)])
  have "js ''/withdrawals'' = q_path (money_request Withdrawal key ?body)"
    "get_field ?body (js ''amount'') = JNum (b + 1)" "0 < b + 1"
    "Withdrawal = Transfer \<longrightarrow> \<not> strict_eq (from_of Withdrawal ?body) (to_of Withdrawal ?body)"
    "from_of Withdrawal ?body = JStr (id_text (fx_a f))" "map_get (balances (lx_eng x3)) (id_text (fx_a f)) = Some b"
    "b < b + 1" "bank_knows (balances (lx_eng x3)) (to_of Withdrawal ?body)"
    using ids(1) staged_nonneg [OF st] st3 by (simp_all add: staged_def bank_knows_def)
  note pre = this
  obtain r x4 where x4: "lab_call E no_net (js ''Withdraw '' @ dollars (b + 1)) POST (js ''/withdrawals'') ?body
        (key_header key) False x3 = (Inr r, x4)" "quiet 1 (lx_eng x3) (lx_eng x4)" "a_status r = 422"
    using overdraft_step [OF pre(1-4) x3(3,4) pre(5) ids(4) pre(6-8)] by blast
  have st4: "staged E N tot n (m + 6 - 1 - 1 - 1 - 1) f b x4" by (rule staged_still [OF st3 x4(2) pos(4)])
  obtain b'' x5 where x5: "lab_balance E no_net (fx_a f) (js ''Snapshot '' @ alpha) x4 = (Inr b'', x5)"
      "map_get (balances (lx_eng x4)) (id_text (fx_a f)) = Some b''" "quiet 1 (lx_eng x4) (lx_eng x5)"
    using balance_step [OF _ staged_ids(6) [OF st4]] st4 [unfolded staged_def] by blast
  have b'': "b'' = b" using x5(2) st4 by (simp add: staged_def)
  have st5: "staged E N tot n (m + 6 - 1 - 1 - 1 - 1 - 1) f b x5" using staged_still [OF st4 x5(3)] by simp
  obtain r1 x6 where x6: "lab_reconcile E no_net (js ''Reconcile '' @ alpha @ js '' (after)'') (fx_a f) x5 = (Inr r1, x6)"
      "a_ok r1" "flag r1 (js ''balanced'')"
      "entry_count r1 = JNum (int (length (wallet_entries (id_text (fx_a f)) (entries (lx_eng x5)))))"
      "quiet 1 (lx_eng x5) (lx_eng x6)"
    using reconcile_step [OF _ staged_ids(6) [OF st5]] st5 [unfolded staged_def] by blast
  have "entries (lx_eng x5) = entries (lx_eng x)"
    using quiet_facts(4) [OF x1(2)] quiet_facts(4) [OF x2(3)] quiet_facts(4) [OF x3(2)]
      quiet_facts(4) [OF x4(2)] quiet_facts(4) [OF x5(3)] by simp
  then have "list_all as_pass (overdraft_assertions b b r0 r r1)"
    using x1(3,4) x4(3) x6(2-4) by (simp add: overdraft_assertions_def check_def strict_eq_def)
  moreover have "overdraft_experiment E no_net f x = (Inr (overdraft_assertions b b r0 r r1), x6)"
    using x1(1) x2(1) x3(1) x4(1) x5(1) x6(1)
    by (simp add: overdraft_experiment_def snapshot_def and_then_def give_def b' b'' plus)
  moreover have "staged E N tot n m f b x6" using staged_still [OF st5 x6(5)] by simp
  ultimately show ?thesis using that by blast
qed

section \<open>The fixture\<close>

text \<open>Topping up brings the first wallet to at least 1,000 dollars.\<close>

lemma top_up_ok:
  assumes st: "staged E N tot n m f b x" and m: "6 \<le> m" and b: "b < 2 ^ 53"
  obtains b' tot' y where "top_up E no_net f x = (Inr (), y)" and "staged E N tot' n (m - 6) f b' y"
    and "100000 \<le> b'" and "tot' \<le> tot + 150000"
proof -
  note ids = staged_ids [OF st]
  have pos: "0 < m" "0 < m - 1" using m by simp_all
  let ?a = "js_add (js_add 100000 (- b)) 50000"
  obtain x1 where x1: "lab_balance E no_net (fx_a f) (js ''Read '' @ js_string (wallet_owner (fx_a f))) x = (Inr b, x1)"
      "staged E N tot n (m - 1) f b x1" "balances (lx_eng x1) = balances (lx_eng x)"
    using snapshot_step [OF st pos(1)] by blast
  show ?thesis
  proof (cases "b < 100000")
    case False
    then show ?thesis
      using that [of x1 tot b] x1 staged_less [OF x1(2), of "m - 6"] b
      by (simp add: top_up_def and_then_def give_def)
  next
    case True
    have nn: "0 \<le> b" by (rule staged_nonneg(1) [OF st])
    then have a: "?a = 150000 - b" using True num.add_exact [of 100000 "- b"] num.add_exact [of "100000 - b" 50000] by simp
    obtain key x2 where x2: "draw_key E x1 = (Inr key, x2)" "staged E N tot n (m - 1 - 1) f b x2"
        "key = idemKey E (drawn (lx_eng x1))" "drawn (lx_eng x1) < drawn (lx_eng x2)" "key \<noteq> []"
        "map_get (idem (lx_eng x2)) key = None" "balances (lx_eng x2) = balances (lx_eng x1)"
      using key_step [OF x1(2) pos(2)] by blast
    let ?body = "deposit_body (fx_a f) ?a (js ''lab:topup'')"
    have acc: "bank_accepts (balances (lx_eng x2)) (plan_for Deposit key ?body ?a)"
      using staged_known(2) [OF x2(2)] ids(1,4)
      by (simp add: bank_accepts_def bank_knows_def bank_covers_def) (simp add: bank_account_def)
    have r2: "ready E N n (m - 1 - 1) (lx_eng x2)" "4 \<le> m - 1 - 1" using x2(2) m by (simp_all add: staged_def)
    have pre: "js ''/deposits'' = q_path (money_request Deposit key ?body)" "get_field ?body (js ''amount'') = JNum ?a"
      "0 < ?a" "Deposit = Transfer \<longrightarrow> \<not> strict_eq (from_of Deposit ?body) (to_of Deposit ?body)"
      using True a by simp_all
    obtain R x3 where x3: "lab_call E no_net (js ''Top up '' @ alpha) POST (js ''/deposits'') ?body (key_header key) True x2 = (Inr R, x3)"
        "balances (lx_eng x3) = bank_transfer js_add (from_of Deposit ?body) (to_of Deposit ?body) ?a (balances (lx_eng x2))"
        "ready E N n (m - 1 - 1 - 4) (lx_eng x3)" "map_keys (wallets (lx_eng x3)) = map_keys (wallets (lx_eng x2))"
      using move_step [OF r2 x2(3-6) pre acc] by blast
    have "map_get (balances (lx_eng x2)) (id_text (fx_a f)) = Some b" using x2(2) by (simp add: staged_def)
    then have "map_get (balances (lx_eng x3)) (id_text (fx_a f)) = Some (js_add b ?a)"
      unfolding x3(2) deposit_body_facts ids(1) by (rule deposit_to) (rule ids(4))
    moreover have "js_add b ?a = 150000" using a nn True num.add_exact [of b "150000 - b"] by simp
    moreover have "fixture_on f (lx_eng x3)" using x2(2) x3(4) unfolding staged_def fixture_on_def by simp
    moreover have "map_get (balances (lx_eng x3)) (id_text (fx_b f)) = map_get (balances (lx_eng x2)) (id_text (fx_b f))"
      unfolding x3(2) deposit_body_facts ids(1) using ids(3) by (intro deposit_other) simp
    ultimately have "staged E N (tot - b + 150000) n (m - 6) f 150000 x3"
      using x3(3) x2(2) by (simp add: staged_def)
    then show ?thesis
      using that [of x3 "tot - b + 150000" 150000] x1(1) x2(1) x3(1) True nn by (simp add: top_up_def and_then_def give_def)
  qed
qed

text \<open>The fixture wallets are created, unless the session has them.\<close>

lemma trim_not_Nil: "c \<in> set s \<Longrightarrow> \<not> is_space c \<Longrightarrow> trim s \<noteq> []"
proof -
  assume c: "c \<in> set s" "\<not> is_space c"
  then have "c \<in> set (dropWhile is_space s)" by (induction s) auto
  with c show ?thesis by (auto simp: trim_def dropWhile_eq_Nil_conv)
qed

lemma owner_body_trim: "trim (js_string (coalesce (get_field (owner_body g tag) (js ''owner'')) (JStr []))) \<noteq> []"
proof -
  have "0x4C \<in> set (js ''Lab '' @ g @ js '' '' @ [0xB7] @ js '' '' @ tag)" by (simp add: js_def)
  moreover have "\<not> is_space 0x4C" by (simp add: is_space_def)
  ultimately have "trim (js ''Lab '' @ g @ js '' '' @ [0xB7] @ js '' '' @ tag) \<noteq> []" by (rule trim_not_Nil)
  then show ?thesis by (simp add: owner_body_def coalesce_def)
qed

lemma make_fixture_ok:
  assumes r: "ready E N n (m + 11) (lx_eng x)"
  obtains f y where "make_fixture E no_net tag x = (Inr f, y)" and "staged E N 50000 n m f 0 y"
proof -
  have three: "3 \<le> m + 11" "3 \<le> m + 11 - 3" by simp_all
  obtain a x1 v where x1: "lab_call E no_net (js ''Create fixture '' @ alpha) POST (js ''/wallets'') (owner_body alpha tag) [] True x = (Inr a, x1)"
      "a_ok a" "wallet_id (a_data a) = JStr (w_id v)" "id_text (a_data a) = w_id v" "w_balance v = 0"
      "w_id v \<notin> set (map_keys (wallets (lx_eng x)))" "wallets (lx_eng x1) = wallets (lx_eng x) @ [(w_id v, v)]"
      "ready E N n (m + 11 - 3) (lx_eng x1)"
    using create_step [OF r three(1) owner_body_trim] by blast
  obtain b x2 w where x2: "lab_call E no_net (js ''Create fixture '' @ beta) POST (js ''/wallets'') (owner_body beta tag) [] True x1 = (Inr b, x2)"
      "a_ok b" "wallet_id (a_data b) = JStr (w_id w)" "id_text (a_data b) = w_id w"
      "w_id w \<notin> set (map_keys (wallets (lx_eng x1)))" "wallets (lx_eng x2) = wallets (lx_eng x1) @ [(w_id w, w)]"
      "ready E N n (m + 11 - 3 - 3) (lx_eng x2)" "w_balance w = 0"
    using create_step [OF x1(8) three(2) owner_body_trim] by blast
  let ?f = "\<lparr>fx_a = a_data a, fx_b = a_data b\<rparr>"
  let ?x2 = "x2\<lparr>lx_fx := Some ?f\<rparr>"
  have "map_get (wallets (lx_eng x1)) (w_id v) = Some v" using map_get_snoc [OF x1(6), of v] x1(7) by simp
  then have "map_get (wallets (lx_eng x2)) (w_id v) = Some v"
    using x2(6) by (simp add: map_add_def)
  then have "map_get (balances (lx_eng x2)) (w_id v) = Some 0" using x1(5) by (simp add: map_get_balances)
  moreover have "fixture_on ?f (lx_eng x2)"
    using x1(3,4,7) x2(3-6) by (auto simp: fixture_on_def)
  moreover have "map_get (balances (lx_eng x2)) (w_id w) = Some 0"
    using map_get_snoc [OF x2(5), of w] x2(6,8) by (simp add: map_get_balances)
  ultimately have st: "staged E N 0 n (m + 11 - 3 - 3) ?f 0 ?x2" using x1(4) x2(4,7) by (simp add: staged_def)
  note ids = staged_ids [OF st]
  have pos: "0 < m + 11 - 3 - 3" "4 \<le> m + 11 - 3 - 3 - 1" by simp_all
  obtain key x3 where x3: "draw_key E ?x2 = (Inr key, x3)" "staged E N 0 n (m + 11 - 3 - 3 - 1) ?f 0 x3"
      "key = idemKey E (drawn (lx_eng ?x2))" "drawn (lx_eng ?x2) < drawn (lx_eng x3)" "key \<noteq> []"
      "map_get (idem (lx_eng x3)) key = None" "balances (lx_eng x3) = balances (lx_eng ?x2)"
    using key_step [OF st pos(1)] by blast
  let ?body = "deposit_body (fx_b ?f) 50000 (js ''lab:fixture'')"
  have r3: "ready E N n (m + 11 - 3 - 3 - 1) (lx_eng x3)" using x3(2) by (simp add: staged_def)
  have pre: "js ''/deposits'' = q_path (money_request Deposit key ?body)" "get_field ?body (js ''amount'') = JNum 50000"
    "(0 :: int) < 50000" "Deposit = Transfer \<longrightarrow> \<not> strict_eq (from_of Deposit ?body) (to_of Deposit ?body)"
    by simp_all
  have acc: "bank_accepts (balances (lx_eng x3)) (plan_for Deposit key ?body 50000)"
    using staged_known(1) [OF x3(2)] ids(2,5)
    by (simp add: bank_accepts_def bank_knows_def bank_covers_def) (simp add: bank_account_def)
  obtain R x4 where x4: "lab_call E no_net (js ''Fund '' @ beta @ js '' $500.00'') POST (js ''/deposits'') ?body (key_header key) True x3 = (Inr R, x4)"
      "balances (lx_eng x4) = bank_transfer js_add (from_of Deposit ?body) (to_of Deposit ?body) 50000 (balances (lx_eng x3))"
      "ready E N n (m + 11 - 3 - 3 - 1 - 4) (lx_eng x4)" "map_keys (wallets (lx_eng x4)) = map_keys (wallets (lx_eng x3))"
    using move_step [OF r3 pos(2) x3(3-6) pre acc] by blast
  have "map_get (balances (lx_eng x3)) (id_text (fx_b ?f)) = Some 0" using x3(2) by (simp add: staged_def)
  then have b: "map_get (balances (lx_eng x4)) (id_text (fx_b ?f)) = Some 50000"
    using x4(2) ids(2,5) deposit_to [of "balances (lx_eng x3)" "id_text (fx_b ?f)" 0 50000]
    by (simp add: num.add_exact)
  have "map_get (balances (lx_eng x4)) (id_text (fx_a ?f)) = Some 0"
    using x3(2) ids(2,3) x4(2) deposit_other unfolding staged_def by simp
  moreover have "fixture_on ?f (lx_eng x4)" using x3(2) x4(4) unfolding staged_def fixture_on_def by simp
  ultimately have "staged E N 50000 n m ?f 0 x4" using x4(3) b by (simp add: staged_def)
  moreover have "make_fixture E no_net tag x = (Inr ?f, x4)"
    using x1(1,2) x2(1,2) x3(1) x4(1)
    by (simp add: make_fixture_def and_then_def give_def set_fixture_def Let_def)
  ultimately show ?thesis using that by blast
qed

section \<open>The fixture of the session\<close>

text \<open>Only the creation of a fixture sets the fixture of the session.\<close>

definition keeps_fixture :: "'a lab \<Rightarrow> bool" where
  "keeps_fixture m \<longleftrightarrow> (\<forall>x. lx_fx (snd (m x)) = lx_fx x)"

named_theorems keeps_intro \<open>computations that leave the fixture alone\<close>

lemma keeps_then [keeps_intro]:
  "keeps_fixture m \<Longrightarrow> (\<And>v. keeps_fixture (g v)) \<Longrightarrow> keeps_fixture (and_then m g)"
  unfolding keeps_fixture_def and_then_def
  by (metis (no_types, lifting) old.prod.case snd_conv surj_pair sum.case_eq_if old.sum.exhaust)

lemma keeps_base [keeps_intro]:
  "keeps_fixture (give v)" "keeps_fixture (throw e)" "keeps_fixture (log_step p)" "keeps_fixture (draw_key E)"
  by (simp_all add: keeps_fixture_def give_def throw_def log_step_def draw_key_def)

lemma keeps_call [keeps_intro]: "keeps_fixture (lab_call E net label m path body hs prep)"
  by (auto simp: keeps_fixture_def lab_call_def split: prod.split option.split)

lemma keeps_batch [keeps_intro]: "keeps_fixture (\<lambda>x. run_batch E sched (g x) x)"
  by (auto simp: keeps_fixture_def run_batch_def Let_def split: prod.split option.split)

lemma keeps_reads [keeps_intro]:
  "keeps_fixture (lab_balance E net w label)" "keeps_fixture (snapshot E net greek w)"
  "keeps_fixture (lab_reconcile E net label w)" "keeps_fixture (replay_attempt E net key body i)"
  by (auto simp: lab_balance_def snapshot_def lab_reconcile_def replay_attempt_def intro!: keeps_intro)

lemma keeps_experiment: "keeps_fixture (chosen_experiment E net rnd k sched ms x f)"
proof (cases x)
qed (simp_all add: chosen_experiment_def replay_experiment_def tamper_experiment_def overdraft_experiment_def
    batch_experiment_def Let_def; intro keeps_intro)+

lemma keeps_top_up: "keeps_fixture (top_up E net f)"
  by (auto simp: top_up_def intro!: keeps_intro)

lemma keeps_fixtureD: "keeps_fixture m \<Longrightarrow> m x = (r, y) \<Longrightarrow> lx_fx y = lx_fx x"
  by (metis keeps_fixture_def snd_conv)

lemma and_then_Inr: "and_then m g x = (Inr v, y) \<longleftrightarrow> (\<exists>u z. m x = (Inr u, z) \<and> g u z = (Inr v, y))"
  by (auto simp: and_then_def split: prod.splits sum.splits)

lemma ensure_fixture_set:
  assumes "ensure_fixture E net tag x = (Inr f, y)"
  shows "lx_fx y = Some f"
proof (cases "lx_fx x")
  case None
  then have "make_fixture E net tag x = (Inr f, y)" using assms by (simp add: ensure_fixture_def)
  then show ?thesis
    by (auto simp: make_fixture_def and_then_Inr throw_def give_def set_fixture_def Let_def split: if_splits
        dest!: keeps_fixtureD [OF keeps_base(4)] keeps_fixtureD [OF keeps_call])
next
  case (Some g)
  then show ?thesis using assms by (simp add: ensure_fixture_def give_def)
qed

section \<open>The verdicts\<close>

text \<open>
  The session has a fixture on this engine, with balances that leave room for \<open>c\<close> deposits of the
  largest size, or none yet.
\<close>

definition spare :: "nat \<Rightarrow> fixture option \<Rightarrow> engine \<Rightarrow> bool" where
  "spare c fx e \<longleftrightarrow>
     (case fx of None \<Rightarrow> c \<le> 1000
      | Some f \<Rightarrow> fixture_on f e \<and>
          (\<exists>a b. map_get (balances e) (id_text (fx_a f)) = Some a \<and>
             map_get (balances e) (id_text (fx_b f)) = Some b \<and> a + b < 2 ^ 53 - int c * 150000))"

definition usable :: "fixture option \<Rightarrow> engine \<Rightarrow> bool" where
  "usable = spare 1"

lemma ensure_ok:
  assumes r: "ready E N n (m + 11) (lx_eng x)" and u: "spare c (lx_fx x) (lx_eng x)"
  obtains f a tot y where "ensure_fixture E no_net tag x = (Inr f, y)" and "staged E N tot n m f a y"
    and "tot < 2 ^ 53 - int c * 150000"
proof (cases "lx_fx x")
  case None
  obtain f y where "make_fixture E no_net tag x = (Inr f, y)" "staged E N 50000 n m f 0 y"
    using make_fixture_ok [OF r] by blast
  then show ?thesis using that [of f y 50000 0] None u by (simp add: ensure_fixture_def spare_def)
next
  case (Some f)
  then obtain a b where "fixture_on f (lx_eng x)" "map_get (balances (lx_eng x)) (id_text (fx_a f)) = Some a"
    "map_get (balances (lx_eng x)) (id_text (fx_b f)) = Some b" "a + b < 2 ^ 53 - int c * 150000"
    using u by (auto simp: spare_def)
  moreover have "ready E N n m (lx_eng x)" using r by (simp add: ready_def)
  ultimately show ?thesis using that [of f x "a + b" a] Some by (simp add: ensure_fixture_def give_def staged_def)
qed

text \<open>The fixture is there and its first wallet has at least 1,000 dollars.\<close>

lemma prepared:
  assumes r: "ready E N n (m + 17) e" and u: "spare (Suc c) fx e"
  obtains f a tot y where "\<And>rnd k sched ms x. run_experiment E no_net tag rnd k sched ms x fx e =
      chosen_experiment E no_net rnd k sched ms x f y"
    and "staged E N tot n m f a y" and "100000 \<le> a" and "tot < 2 ^ 53 - int c * 150000" and "lx_fx y = Some f"
proof -
  let ?x = "\<lparr>lx_eng = e, lx_log = [], lx_fx = fx\<rparr>"
  have "ready E N n (m + 6 + 11) (lx_eng ?x)" using r by (simp add: add.assoc)
  then obtain f a tot x1 where x1: "ensure_fixture E no_net tag ?x = (Inr f, x1)" "staged E N tot n (m + 6) f a x1"
      "tot < 2 ^ 53 - int (Suc c) * 150000"
    by (rule ensure_ok [where c = "Suc c"]) (use u in simp)
  have six: "6 \<le> m + 6" and a: "a < 2 ^ 53" using staged_nonneg(2) [OF x1(2)] x1(3) by simp_all
  obtain a' tot' y where y: "top_up E no_net f x1 = (Inr (), y)" "staged E N tot' n (m + 6 - 6) f a' y" "100000 \<le> a'"
      "tot' \<le> tot + 150000"
    by (rule top_up_ok [OF x1(2) six a])
  show ?thesis
  proof (rule that [of f y tot' a'])
    show "run_experiment E no_net tag rnd k sched ms x fx e = chosen_experiment E no_net rnd k sched ms x f y"
      for rnd k sched ms x
      using x1(1) y(1) by (simp add: run_experiment_def and_then_def)
    show "lx_fx y = Some f"
      using ensure_fixture_set [OF x1(1)] keeps_fixtureD [OF keeps_top_up y(1)] by simp
  qed (use x1(3) y in auto)
qed

text \<open>An experiment whose assertions hold on every prepared fixture has the verdict \<open>pass\<close>.\<close>

lemma run_passes:
  assumes r: "ready E N n (m + 17) e" and u: "usable fx e"
    and ok: "\<And>f a tot y. staged E N tot n m f a y \<Longrightarrow> 100000 \<le> a \<Longrightarrow> tot < 2 ^ 53 \<Longrightarrow>
      \<exists>cs z. chosen_experiment E no_net rnd k sched ms x f y = (Inr cs, z) \<and> list_all as_pass cs"
  shows "lr_state (lab_result_of (run_experiment E no_net tag rnd k sched ms x fx e)) = Pass"
proof (rule prepared [OF r u [unfolded usable_def One_nat_def]])
  fix f a tot y
  assume y: "\<And>rnd k sched ms x. run_experiment E no_net tag rnd k sched ms x fx e =
      chosen_experiment E no_net rnd k sched ms x f y" "staged E N tot n m f a y" "100000 \<le> a"
      "tot < 2 ^ 53 - int 0 * 150000"
  then obtain cs z where "chosen_experiment E no_net rnd k sched ms x f y = (Inr cs, z)" "list_all as_pass cs"
    using ok [OF y(2,3)] by auto
  then show ?thesis by (simp add: y(1) lab_result_of_def)
qed

text \<open>The first two experiments pass on every sound engine.\<close>

lemma lab_replay_passes:
  assumes "ready E N n 26 e" and "usable fx e"
  shows "lr_state (lab_result_of (run_experiment E no_net tag rnd k sched ms Replay fx e)) = Pass"
proof (rule run_passes [where m = 9, OF _ assms(2)])
  fix f a tot y
  assume st: "staged E N tot n 9 f a y" "100000 \<le> a" "tot < 2 ^ 53"
  then show "\<exists>cs z. chosen_experiment E no_net rnd k sched ms Replay f y = (Inr cs, z) \<and> list_all as_pass cs"
    using replay_ok [of E N tot n 0 f a y] by (fastforce simp: chosen_experiment_def)
qed (use assms(1) in simp)

lemma lab_tamper_passes:
  assumes "ready E N n 25 e" and "usable fx e"
  shows "lr_state (lab_result_of (run_experiment E no_net tag rnd k sched ms Tamper fx e)) = Pass"
proof (rule run_passes [where m = 8, OF _ assms(2)])
  fix f a tot y
  assume st: "staged E N tot n 8 f a y" "100000 \<le> a" "tot < 2 ^ 53"
  then show "\<exists>cs z. chosen_experiment E no_net rnd k sched ms Tamper f y = (Inr cs, z) \<and> list_all as_pass cs"
    using tamper_ok [of E N tot n 0 f a y] by (fastforce simp: chosen_experiment_def)
qed (use assms(1) in simp)

end
