(* ===== verification/Batch.thy ===== *)
theory Batch
  imports Verdicts
begin

text \<open>
  The concurrent batch of the Systems Lab. Its transfers run under any schedule; by
  serializability their effect is that of serving them one by one in the order in which they
  finish, and there each is accepted and moves its amount, or is refused for lack of funds and
  changes nothing. So all six assertions of the experiment hold.
\<close>

section \<open>One transfer of the batch\<close>

definition batch_delta :: "bool \<times> int \<Rightarrow> int" where
  "batch_delta p = (if fst p then - snd p else snd p)"

text \<open>The balances of the two wallets, with room for exact sums.\<close>

definition pair_on :: "jstr \<Rightarrow> jstr \<Rightarrow> int \<Rightarrow> int \<Rightarrow> engine \<Rightarrow> bool" where
  "pair_on i j a b s \<longleftrightarrow> map_get (balances s) i = Some a \<and> map_get (balances s) j = Some b \<and>
     i \<noteq> j \<and> i \<noteq> [] \<and> j \<noteq> [] \<and> 0 \<le> a \<and> 0 \<le> b \<and> a + b \<le> 2 ^ 53"

lemma pair_on_swap: "pair_on i j a b s \<longleftrightarrow> pair_on j i b a s"
  by (auto simp: pair_on_def)

lemma transfer_cases:
  assumes p: "plans q p" and acc: "p_from p = JStr i" "p_to p = JStr j" and on: "pair_on i j a b s"
    and new: "map_get (idem s) (p_key p) = None"
  obtains (posted) s' r x where "handle E q s = (s', Returned r)" and "r_status r = 201"
      and "pair_on i j (a - p_amount p) (b + p_amount p) s'" and "idem s' = map_set (p_key p) x (idem s)"
  | (refused) r where "handle E q s = (s, Returned r)" and "r_status r = 422"
proof (cases "p_amount p \<le> a")
  case True
  have on': "map_get (balances s) i = Some a" "map_get (balances s) j = Some b" "i \<noteq> j" "i \<noteq> []" "j \<noteq> []"
    "0 \<le> a" "0 \<le> b" "a + b \<le> 2 ^ 53"
    using on by (simp_all add: pair_on_def)
  have pos: "0 < p_amount p" by (rule plans_amount [OF p])
  have "bank_accepts (balances s) p"
    using True acc on' by (simp add: bank_accepts_def bank_knows_def bank_covers_def bank_account_key)
  then obtain t where t: "snd (handle E q s) = Returned (accepted p t)"
      "balances (fst (handle E q s)) = bank_transfer js_add (JStr i) (JStr j) (p_amount p) (balances s)"
      "idem (fst (handle E q s)) =
        map_set (p_key p) \<lparr>i_fingerprint = p_fingerprint p, i_response = accepted p t\<rparr> (idem s)"
    using handle_accepts [OF p new, of E] acc by metis
  have "js_add a (- p_amount p) = a - p_amount p" "js_add b (p_amount p) = b + p_amount p"
    using True pos on' num.add_exact [of a "- p_amount p"] num.add_exact [of b "p_amount p"] by simp_all
  then have "pair_on i j (a - p_amount p) (b + p_amount p) (fst (handle E q s))"
    using transfer_from [OF on'(1,4,3), of "p_amount p"] transfer_to [OF on'(1,2,4,5,3), of "p_amount p"]
      t(2) True pos on' by (simp add: pair_on_def)
  then show ?thesis using posted t(1,3) by (metis accepted_simps(1) prod.collapse)
next
  case False
  have on': "map_get (balances s) i = Some a" "map_get (balances s) j = Some b" "i \<noteq> []" "j \<noteq> []"
    using on by (simp_all add: pair_on_def)
  obtain w v where w: "map_get (wallets s) i = Some w" "w_balance w = a" "map_get (wallets s) j = Some v"
    using on'(1,2) by (auto simp: map_get_balances)
  have "crit_begin p s = None"
    using new acc w by (simp add: crit_begin_None_iff missing_def get_wallet_def)
  then have "handle E q s = (s, Returned (insufficient w (p_amount p)))"
    using handle_overdraft [OF p, of s w E] acc w False on' by (simp add: get_wallet_def)
  then show ?thesis using refused by simp
qed

lemma batch_body_facts [simp]:
  "get_field (batch_body f i p) (js ''amount'') = JNum (snd p)"
  "from_of Transfer (batch_body f i p) = wallet_id (if fst p then fx_a f else fx_b f)"
  "to_of Transfer (batch_body f i p) = wallet_id (if fst p then fx_b f else fx_a f)"
  by (simp_all add: batch_body_def)

definition batch_item :: "env \<Rightarrow> fixture \<Rightarrow> nat \<Rightarrow> nat \<Rightarrow> bool \<times> int \<Rightarrow> plan" where
  "batch_item E f d i p = plan_for Transfer (idemKey E (d + i)) (batch_body f i p) (snd p)"

text \<open>A fixture on known ids.\<close>

definition fixture_ids :: "fixture \<Rightarrow> jstr \<Rightarrow> jstr \<Rightarrow> bool" where
  "fixture_ids f i j \<longleftrightarrow> wallet_id (fx_a f) = JStr i \<and> wallet_id (fx_b f) = JStr j \<and> i \<noteq> j"

lemma batch_plans:
  assumes "fixture_ids f u v" and "0 < snd p"
  shows "plans (batch_request E f d i p) (batch_item E f d i p)"
proof -
  have "plans (sim_request POST (js ''/transfers'') (batch_body f i p)
      (request_headers (batch_body f i p) (key_header (idemKey E (d + i)))))
    (plan_for Transfer (idemKey E (d + i)) (batch_body f i p) (snd p))"
    by (rule sim_plans) (use assms in \<open>auto simp: fixture_ids_def strict_eq_def\<close>)
  then show ?thesis by (simp add: batch_request_def batch_item_def Let_def)
qed

lemma batch_step_cases:
  assumes f: "fixture_ids f u v" and amt: "0 < snd p" and on: "pair_on u v a b s"
    and new: "map_get (idem s) (idemKey E (d + i)) = None"
  obtains (posted) s' r x where "handle E (batch_request E f d i p) s = (s', Returned r)" and "r_status r = 201"
      and "pair_on u v (a + batch_delta p) (b - batch_delta p) s'"
      and "idem s' = map_set (idemKey E (d + i)) x (idem s)"
  | (refused) r where "handle E (batch_request E f d i p) s = (s, Returned r)" and "r_status r = 422"
proof -
  note plan = batch_plans [OF f amt, of E d i]
  have new': "map_get (idem s) (p_key (batch_item E f d i p)) = None" using new by (simp add: batch_item_def)
  show ?thesis
  proof (cases "fst p")
    case True
    have "p_from (batch_item E f d i p) = JStr u" "p_to (batch_item E f d i p) = JStr v"
      using f True by (simp_all add: batch_item_def fixture_ids_def)
    from transfer_cases [OF plan this on new', where E = E] show ?thesis
      using that True by (simp add: batch_item_def batch_delta_def) metis
  next
    case False
    have "p_from (batch_item E f d i p) = JStr v" "p_to (batch_item E f d i p) = JStr u"
      using f False by (simp_all add: batch_item_def fixture_ids_def)
    from transfer_cases [OF plan this on [unfolded pair_on_swap [of u]] new', where E = E] show ?thesis
      using that False pair_on_swap by (simp add: batch_item_def batch_delta_def) metis
  qed
qed

section \<open>All of them, in the order in which they finish\<close>

definition outcome_ok :: "outcome \<Rightarrow> bool" where
  "outcome_ok x \<longleftrightarrow> (case x of Returned r \<Rightarrow> accepted_res r | Threw \<Rightarrow> False)"

definition clean :: "outcome \<Rightarrow> bool" where
  "clean x \<longleftrightarrow> (case x of Returned r \<Rightarrow> r_status r = 201 \<or> r_status r = 422 | Threw \<Rightarrow> False)"

definition moved :: "(bool \<times> int) list \<Rightarrow> (nat \<Rightarrow> outcome) \<Rightarrow> nat \<Rightarrow> int" where
  "moved plan out i = (if outcome_ok (out i) then batch_delta (plan ! i) else 0)"

lemma batch_all:
  assumes "fixture_ids f u v" and "distinct is" and "\<forall>i \<in> set is. 0 < snd (plan ! i)"
    and "inj_on (\<lambda>i. idemKey E (d + i)) (set is)"
    and "\<forall>i \<in> set is. map_get (idem s) (idemKey E (d + i)) = None" and "pair_on u v a b s"
    and "serve_all E (map (\<lambda>i. batch_request E f d i (plan ! i)) is) s = (s', map out is)"
  shows "pair_on u v (a + sum (moved plan out) (set is)) (b - sum (moved plan out) (set is)) s' \<and>
    (\<forall>i \<in> set is. clean (out i)) \<and>
    (\<forall>k. k \<notin> (\<lambda>i. idemKey E (d + i)) ` set is \<longrightarrow> map_get (idem s') k = map_get (idem s) k)"
  using assms(2-)
proof (induction "is" arbitrary: s a b)
  case Nil
  then show ?case by simp
next
  case (Cons i js)
  let ?q = "batch_request E f d i (plan ! i)"
  obtain s1 where h: "handle E ?q s = (s1, out i)"
      "serve_all E (map (\<lambda>i. batch_request E f d i (plan ! i)) js) s1 = (s', map out js)"
    using Cons.prems(6) by (auto split: prod.splits)
  have i: "0 < snd (plan ! i)" "map_get (idem s) (idemKey E (d + i)) = None" "i \<notin> set js"
    using Cons.prems by simp_all
  have other: "idemKey E (d + j) \<noteq> idemKey E (d + i)" if "j \<in> set js" for j
    using Cons.prems(3) that i(3) by (auto simp: inj_on_def)
  have step: "pair_on u v (a + moved plan out i) (b - moved plan out i) s1 \<and> clean (out i) \<and>
      (\<forall>k. k \<noteq> idemKey E (d + i) \<longrightarrow> map_get (idem s1) k = map_get (idem s) k)"
    using assms(1) i(1) Cons.prems(5) i(2)
  proof (cases rule: batch_step_cases)
    case (posted s2 r x)
    then show ?thesis using h(1) by (simp add: clean_def moved_def outcome_ok_def accepted_res_def map_set_get)
  next
    case (refused r)
    then show ?thesis using h(1) Cons.prems(5)
      by (simp add: clean_def moved_def outcome_ok_def accepted_res_def)
  qed
  have "\<forall>j \<in> set js. map_get (idem s1) (idemKey E (d + j)) = None"
    using step other Cons.prems(4) by simp
  then have IH: "pair_on u v (a + moved plan out i + sum (moved plan out) (set js))
        (b - moved plan out i - sum (moved plan out) (set js)) s'"
      "\<forall>j \<in> set js. clean (out j)"
      "\<forall>k. k \<notin> (\<lambda>i. idemKey E (d + i)) ` set js \<longrightarrow> map_get (idem s') k = map_get (idem s1) k"
    using Cons.IH [of s1 "a + moved plan out i" "b - moved plan out i"] Cons.prems(1-3) step h(2)
    by (simp_all add: inj_on_def)
  then show ?case using step i(3) by (simp add: algebra_simps)
qed

section \<open>The amounts\<close>

text \<open>\<open>Math.random()\<close> gives a number in \<open>[0, 1)\<close>.\<close>

definition unit_random :: "env \<Rightarrow> bool" where
  "unit_random E \<longleftrightarrow> (\<forall>i. 0 \<le> random E i \<and> random E i < 2 ^ 53)"

lemma planned_amount:
  assumes "unit_random E"
  shows "0 < snd (planned E rnd i)" and "snd (planned E rnd i) \<le> 23500"
proof -
  let ?r = "random E (rnd + 2 * i + 1)"
  have r: "0 \<le> ?r" "?r < 2 ^ 53" using assms by (simp_all add: unit_random_def)
  have "0 \<le> js_mul ?r 115" "js_mul ?r 115 \<le> 2 * (?r * 115)"
    using r fl_nonneg [of "?r * 115"] fl_le [of "?r * 115"] by (simp_all add: js_mul_def)
  then have "0 \<le> js_mul ?r 115 div 2 ^ 53" "js_mul ?r 115 div 2 ^ 53 \<le> 230 * 2 ^ 53 div 2 ^ 53"
    using r by (simp, intro zdiv_mono1) simp_all
  then show "0 < snd (planned E rnd i)" "snd (planned E rnd i) \<le> 23500" by (simp_all add: planned_def)
qed

lemma batch_plan_nth [simp]: "length (batch_plan E rnd n) = n" "i < n \<Longrightarrow> batch_plan E rnd n ! i = planned E rnd i"
  by (simp_all add: batch_plan_def)

lemma batch_requests_nth:
  "length (batch_requests E f d plan) = length plan"
  "i < length plan \<Longrightarrow> batch_requests E f d plan ! i = batch_request E f d i (plan ! i)"
  by (simp_all add: batch_requests_def nth_enumerate_eq)

text \<open>The sum the experiment computes over the accepted transfers is exact, in any order.\<close>

lemma expected_delta_sum:
  assumes "length rs = length plan" and "\<forall>i < length plan. out i = Returned (rs ! i)"
    and "\<forall>i < length plan. 0 < snd (plan ! i) \<and> snd (plan ! i) \<le> 23500" and "length plan \<le> 2 ^ 30"
  shows "expected_delta (zip plan rs) = sum (moved plan out) {..<length plan}"
proof -
  let ?ok = "filter (\<lambda>(p, r). accepted_res r) (zip plan rs)"
  let ?ds = "map (\<lambda>(p, r). batch_delta p) ?ok"
  have small: "\<bar>x\<bar> \<le> 23500" if x: "x \<in> set ?ds" for x
  proof -
    obtain p r where "(p, r) \<in> set (zip plan rs)" "x = batch_delta p" using x by auto
    then obtain i where "i < length plan" "p = plan ! i" by (auto simp: in_set_zip)
    then show ?thesis using assms(3) \<open>x = batch_delta p\<close> by (fastforce simp: batch_delta_def)
  qed
  have bound: "\<bar>sum_list ys\<bar> \<le> 23500 * int (length ys)" if "set ys \<subseteq> set ?ds" for ys
    using that
  proof (induction ys)
    case (Cons y ys)
    then show ?case using small [of y] by simp
  qed simp
  have len: "length ?ds \<le> length plan"
    using length_filter_le [of "\<lambda>(p, r). accepted_res r" "zip plan rs"] assms(1) by simp
  have "js_sum ?ds = sum_list ?ds"
    unfolding js_sum_def
  proof (rule num.sum_exact)
    fix ys zs assume ds: "?ds = ys @ zs"
    have "set ys \<subseteq> set ?ds" unfolding ds by simp
    moreover have "length ys \<le> length plan" using len unfolding ds by simp
    ultimately show "\<bar>sum_list ys\<bar> \<le> 2 ^ 53" using bound [of ys] assms(4) by simp
  qed
  moreover have "expected_delta (zip plan rs) = js_sum ?ds" by (simp add: expected_delta_def batch_delta_def)
  moreover have "sum_list ?ds = (\<Sum>i\<leftarrow>[0..<length plan]. moved plan out i)"
  proof -
    have z: "zip plan rs = map (\<lambda>i. (plan ! i, rs ! i)) [0..<length plan]"
      using assms(1) by (intro nth_equalityI) simp_all
    have "sum_list (map (\<lambda>(p, r). batch_delta p) (filter (\<lambda>(p, r). accepted_res r)
        (map (\<lambda>i. (plan ! i, rs ! i)) is))) = (\<Sum>i\<leftarrow>is. moved plan out i)"
      if "\<forall>i \<in> set is. out i = Returned (rs ! i)" for "is"
      using that by (induction "is") (simp_all add: moved_def outcome_ok_def)
    then show ?thesis unfolding z using assms(2) by simp
  qed
  ultimately show ?thesis by (simp add: interv_sum_list_conv_sum_set_nat atLeast0LessThan)
qed

section \<open>The run\<close>

text \<open>A completed execution is one that \<open>run\<close> computes, and conversely.\<close>

lemma run_snoc: "run E (sched @ [i]) order s =
    Option.bind (run E sched order s) (\<lambda>(order', t). run E [i] order' t)"
  by (induction sched arbitrary: order s) (auto split: option.split)

lemma execution_run: "execution E s sched order t \<Longrightarrow> run E sched [] s = Some (order, t)"
  by (induction rule: execution.induct) (simp_all add: run_snoc)

lemma run_is_execution: "run E sched [] s = Some (order, t) \<Longrightarrow> execution E s sched order t"
  using run_execution [OF execution.idle] by fastforce

lemma those_map: "\<forall>x \<in> set xs. f x = Some (g x) \<Longrightarrow> those (map f xs) = Some (map g xs)"
  by (induction xs) simp_all

definition result_of :: "sys \<Rightarrow> nat \<Rightarrow> res" where
  "result_of t i = (case outcome_of t i of Returned r \<Rightarrow> r | Threw \<Rightarrow> undefined)"

text \<open>The state after a batch of \<open>k\<close> transfers that were all answered.\<close>

lemma batch_run:
  assumes ready: "ready E N n (5 * length plan + m) s" and f: "fixture_ids f u v" and on: "pair_on u v a b s"
    and plan: "\<forall>i < length plan. 0 < snd (plan ! i)"
    and run: "run E sched [] (start (s\<lparr>drawn := drawn s + length plan\<rparr>) (batch_requests E f (drawn s) plan)) = Some (order, t)"
    and fin: "all_finished t"
  defines "d \<equiv> sum (moved plan (outcome_of t)) {..<length plan}"
  shows "pair_on u v (a + d) (b - d) (eng t)" and "\<forall>i < length plan. clean (outcome_of t i)"
    and "ready E N n (length plan + m) (eng t)"
proof -
  let ?k = "length plan" and ?s = "s\<lparr>drawn := drawn s + length plan\<rparr>" and ?qs = "batch_requests E f (drawn s) plan"
  have ex: "execution E (start ?s ?qs) sched order t" by (rule run_is_execution [OF run])
  have len: "length ?qs = ?k" by (rule batch_requests_nth(1))
  have serial: "length (threads t) = ?k" "distinct order" "set order = {i. i < ?k \<and> done_with (phase_of t i) \<noteq> None}"
      "serve_all E (map ((!) ?qs) order) ?s = (eng t, map (outcome_of t) order)"
    using execution_serial [OF ex] len by simp_all
  have "done_with (phase_of t i) \<noteq> None" if "i < ?k" for i
    using fin that serial(1) by (auto simp: all_finished_def list_all_length split_beta)
  then have order: "set order = {..<?k}" using serial(3) by auto
  have r: "fresh_ids E N" "sound E n s" "fresh_keys E N s" "drawn s + (5 * ?k + m) \<le> N"
    using ready by (simp_all add: ready_def)
  have inj: "inj_on (\<lambda>i. idemKey E (drawn s + i)) {..<?k}"
  proof (rule inj_onI)
    fix i j assume "i \<in> {..<?k}" "j \<in> {..<?k}" "idemKey E (drawn s + i) = idemKey E (drawn s + j)"
    then show "i = j" using r(3,4) inj_onD [of "idemKey E" "{..<N}" "drawn s + i" "drawn s + j"]
      by (simp add: fresh_keys_def)
  qed
  have new: "\<forall>i \<in> {..<?k}. map_get (idem ?s) (idemKey E (drawn s + i)) = None"
    using r(3,4) by (auto simp: fresh_keys_def)
  have req: "map ((!) ?qs) order = map (\<lambda>i. batch_request E f (drawn s) i (plan ! i)) order"
    using order batch_requests_nth(2) by auto
  have on': "pair_on u v a b ?s" using on by (simp add: pair_on_def)
  have pl: "\<forall>i \<in> {..<?k}. 0 < snd (plan ! i)" using plan by simp
  have sv: "serve_all E (map (\<lambda>i. batch_request E f (drawn s) i (plan ! i)) order) ?s = (eng t, map (outcome_of t) order)"
    using serial(4) by (simp only: req)
  have all: "pair_on u v (a + d) (b - d) (eng t)" "\<forall>i \<in> {..<?k}. clean (outcome_of t i)"
      "\<forall>k. k \<notin> (\<lambda>i. idemKey E (drawn s + i)) ` {..<?k} \<longrightarrow> map_get (idem (eng t)) k = map_get (idem ?s) k"
    using batch_all [OF f serial(2) _ _ _ on' sv, unfolded order, OF pl inj new] unfolding d_def by blast+
  show "pair_on u v (a + d) (b - d) (eng t)" by (rule all(1))
  show "\<forall>i < ?k. clean (outcome_of t i)" using all(2) by simp
  have d: "drawn (eng t) \<le> drawn s + ?k + 3 * ?k" using execution_drawn [OF ex] len by simp
  have ge: "drawn s + ?k \<le> drawn (eng t)"
    using fold_serve_drawn [of ?s E "map ((!) ?qs) order"] by (simp add: execution_fold [OF ex])
  have "sound E n ?s" by (rule sound_quiet [OF r(2) quiet_refl(1) [where c = ?k]]) simp_all
  then have "sound_within E N n ?s" by (simp add: sound_within_def)
  then have "sound_within E N n (eng t)" unfolding execution_fold [OF ex] by (rule served.run_inv)
  then have "sound E n (eng t)" using r(1,4) d by (simp add: sound_within_def)
  moreover have "fresh_keys E N (eng t)"
    unfolding fresh_keys_def
  proof (intro conjI allI impI)
    show inj': "inj_on (idemKey E) {..<N}" using r(3) by (simp add: fresh_keys_def)
    fix j assume j: "drawn (eng t) \<le> j \<and> j < N"
    then have "idemKey E j \<noteq> idemKey E (drawn s + i)" if "i < ?k" for i
      using inj_onD [OF inj', of j "drawn s + i"] ge that r(4) by auto
    then have "map_get (idem (eng t)) (idemKey E j) = map_get (idem ?s) (idemKey E j)" using all(3) by blast
    then show "map_get (idem (eng t)) (idemKey E j) = None" using r(3) j ge by (simp add: fresh_keys_def)
  qed
  ultimately show "ready E N n (?k + m) (eng t)" using r(1,4) d by (simp add: ready_def)
qed

definition finishes :: "env \<Rightarrow> nat list \<Rightarrow> engine \<Rightarrow> request list \<Rightarrow> bool" where
  "finishes E sched e qs \<longleftrightarrow> (\<exists>order t. run E sched [] (start e qs) = Some (order, t) \<and> all_finished t)"

lemma some_finishes:
  assumes "\<forall>q \<in> set qs. typed q"
  obtains sched where "finishes E sched e qs"
proof -
  have "\<exists>sched order t. execution E (start e qs) sched order t \<and> all_finished t"
    by (rule can_finish [OF start_well_locked]) (use assms in \<open>auto simp: start_def\<close>)
  then show ?thesis using that execution_run unfolding finishes_def by blast
qed

lemma plans_unique: "plans q p \<Longrightarrow> plans q p' \<Longrightarrow> p = p'"
  by (auto simp: plans_def)

lemma batch_typed:
  assumes f: "fixture_ids f u v" and q: "q \<in> set (batch_requests E f d plan)"
    and pos: "\<forall>i < length plan. 0 < snd (plan ! i)"
  shows "typed q"
proof -
  obtain i where i: "i < length plan" "q = batch_request E f d i (plan ! i)"
    using q batch_requests_nth by (metis in_set_conv_nth)
  have item: "plans q (batch_item E f d i (plan ! i))" using batch_plans [OF f] pos i by simp
  have "string_ids (batch_item E f d i (plan ! i))"
    using f by (simp add: string_ids_def batch_item_def fixture_ids_def)
  then show ?thesis using plans_unique [OF item] by (auto simp: typed_def)
qed

text \<open>What \<open>run_batch\<close> returns: unfinished, or the answers in the order of the plan.\<close>

lemma run_batch_cases:
  assumes ready: "ready E N n (5 * length plan + (length plan + m)) (lx_eng x)" and f: "fixture_ids f u v"
    and on: "pair_on u v a b (lx_eng x)" and plan: "\<forall>i < length plan. 0 < snd (plan ! i) \<and> snd (plan ! i) \<le> 23500"
    and k: "length plan \<le> 2 ^ 30"
  obtains (unfinished) y where "run_batch E sched (batch_requests E f (drawn (lx_eng x)) plan) x = (Inl (js ''unfinished''), y)"
      and "\<not> finishes E sched ((lx_eng x)\<lparr>drawn := drawn (lx_eng x) + length plan\<rparr>)
        (batch_requests E f (drawn (lx_eng x)) plan)"
  | (answered) rs y where "run_batch E sched (batch_requests E f (drawn (lx_eng x)) plan) x = (Inr rs, y)"
      and "length rs = length plan" and "\<forall>r \<in> set rs. r_status r = 201 \<or> r_status r = 422"
      and "pair_on u v (a + expected_delta (zip plan rs)) (b - expected_delta (zip plan rs)) (lx_eng y)"
      and "ready E N n (length plan + m) (lx_eng y)"
proof -
  let ?s = "lx_eng x" and ?k = "length plan"
  let ?qs = "batch_requests E f (drawn ?s) plan"
  let ?run = "run E sched [] (start (?s\<lparr>drawn := drawn ?s + ?k\<rparr>) ?qs)"
  have len: "length ?qs = ?k" by (rule batch_requests_nth(1))
  show ?thesis
  proof (cases "\<exists>order t. ?run = Some (order, t) \<and> all_finished t")
    case False
    then show ?thesis
      using unfinished [of x] by (auto simp: finishes_def run_batch_def len Let_def split: option.split)
  next
    case True
    then obtain order t where run: "?run = Some (order, t)" "all_finished t" by blast
    have pos: "\<forall>i < ?k. 0 < snd (plan ! i)" using plan by simp
    note after = batch_run [OF ready f on pos run]
    let ?d = "sum (moved plan (outcome_of t)) {..<?k}"
    let ?rs = "map (result_of t) [0..<?k]"
    have out: "outcome_of t i = Returned (result_of t i)" if "i < ?k" for i
      using after(2) that by (auto simp: clean_def result_of_def split: outcome.splits)
    have rs: "those (map (\<lambda>i. outcome_result (outcome_of t i)) [0..<?k]) = Some ?rs"
      using out by (intro those_map) simp
    have clean: "\<forall>r \<in> set ?rs. r_status r = 201 \<or> r_status r = 422"
      using after(2) out by (auto simp: clean_def)
    have delta: "expected_delta (zip plan ?rs) = ?d"
      using out plan k by (intro expected_delta_sum) simp_all
    let ?y = "x\<lparr>lx_eng := (eng t)\<lparr>drawn := drawn (eng t) + ?k, ticks := ticks (eng t) + 2 * ?k\<rparr>\<rparr>"
    have q: "quiet ?k (eng t) (lx_eng ?y)" using quiet_refl(2) [of "eng t" "drawn (eng t) + ?k" ?k] by simp
    have "ready E N n (?k + (?k + m) - ?k) (lx_eng ?y)" by (rule ready_quiet [OF after(3) q]) simp
    then have r: "ready E N n (?k + m) (lx_eng ?y)" by simp
    have "pair_on u v (a + ?d) (b - ?d) (lx_eng ?y)" using after(1) by (simp add: pair_on_def)
    then have "pair_on u v (a + expected_delta (zip plan ?rs)) (b - expected_delta (zip plan ?rs)) (lx_eng ?y)"
      unfolding delta .
    moreover have "run_batch E sched ?qs x = (Inr ?rs, ?y)"
      using run rs by (simp add: run_batch_def len Let_def)
    ultimately show ?thesis using answered [of ?rs ?y] clean r by simp
  qed
qed

text \<open>The whole experiment.\<close>

lemma read_step:
  assumes "ready E N n m (lx_eng x)" and "map_get (balances (lx_eng x)) (id_text w) = Some b" and "0 < m"
  obtains y where "lab_balance E no_net w label x = (Inr b, y)" and "quiet 1 (lx_eng x) (lx_eng y)"
    and "ready E N n (m - 1) (lx_eng y)"
proof -
  have "id_text w \<in> set (map_keys (wallets (lx_eng x)))"
    using assms(2) jsmap.get_some_key [of "balances (lx_eng x)"] by (metis balances_keys)
  from balance_step [OF assms(1) this] obtain b' y where y: "lab_balance E no_net w label x = (Inr b', y)"
      "map_get (balances (lx_eng x)) (id_text w) = Some b'" "quiet 1 (lx_eng x) (lx_eng y)"
    by blast
  then show ?thesis using that [of y] ready_quiet [OF assms(1) y(3)] assms(2,3) by simp
qed

lemma check_step:
  assumes "ready E N n m (lx_eng x)" and "map_get (balances (lx_eng x)) (id_text w) = Some b" and "0 < m"
  obtains R y where "lab_reconcile E no_net label w x = (Inr R, y)" and "quiet 1 (lx_eng x) (lx_eng y)"
    and "ready E N n (m - 1) (lx_eng y)" and "a_ok R" and "flag R (js ''balanced'')" and "flag R (js ''chain_valid'')"
proof -
  have "id_text w \<in> set (map_keys (wallets (lx_eng x)))"
    using assms(2) jsmap.get_some_key [of "balances (lx_eng x)"] by (metis balances_keys)
  from reconcile_step [OF assms(1) this] obtain R y where y: "lab_reconcile E no_net label w x = (Inr R, y)"
      "quiet 1 (lx_eng x) (lx_eng y)" "a_ok R" "flag R (js ''balanced'')" "flag R (js ''chain_valid'')"
    by blast
  have "ready E N n (m - 1) (lx_eng y)" using ready_quiet [OF assms(1) y(2)] assms(3) by simp
  then show ?thesis using that y by blast
qed

lemma batch_ok:
  assumes st: "staged E N tot n (m + (6 * k + 6)) f a x" and tot: "tot < 2 ^ 53"
    and E: "unit_random E" and k: "k \<le> 2 ^ 30"
  obtains e reqs where "\<forall>q \<in> set reqs. typed q"
    and "\<And>sched. (\<exists>cs a' y. batch_experiment E no_net rnd k sched ms f x = (Inr cs, y) \<and> list_all as_pass cs \<and>
        staged E N tot n m f a' y) \<or>
      \<not> finishes E sched e reqs \<and> (\<exists>y. batch_experiment E no_net rnd k sched ms f x = (Inl (js ''unfinished''), y))"
proof -
  let ?u = "id_text (fx_a f)" and ?v = "id_text (fx_b f)" and ?plan = "batch_plan E rnd k"
  note ids = staged_ids [OF st]
  define b where "b = tot - a"
  have r: "ready E N n (m + (6 * k + 6)) (lx_eng x)" and a: "map_get (balances (lx_eng x)) ?u = Some a"
    and b: "map_get (balances (lx_eng x)) ?v = Some b"
    using st by (simp_all add: staged_def b_def)
  have nn: "0 \<le> a" "0 \<le> b" and sum: "a + b < 2 ^ 53" using staged_nonneg [OF st] tot by (simp_all add: b_def)
  have f: "fixture_ids f ?u ?v" using ids(1-3) by (simp add: fixture_ids_def)
  have on: "pair_on ?u ?v a b (lx_eng x)" using a b ids nn sum by (simp add: pair_on_def)
  have pos: "0 < m + (6 * k + 6)" "0 < m + (6 * k + 6) - 1" by simp_all
  obtain x1 where x1: "lab_balance E no_net (fx_a f) (js ''Snapshot '' @ alpha) x = (Inr a, x1)"
      "quiet 1 (lx_eng x) (lx_eng x1)" "ready E N n (m + (6 * k + 6) - 1) (lx_eng x1)"
    using read_step [OF r a pos(1)] by blast
  have b1: "map_get (balances (lx_eng x1)) ?v = Some b" using b quiet_facts(1) [OF x1(2)] by simp
  obtain x2 where x2: "lab_balance E no_net (fx_b f) (js ''Snapshot '' @ beta) x1 = (Inr b, x2)"
      "quiet 1 (lx_eng x1) (lx_eng x2)" "ready E N n (m + (6 * k + 6) - 1 - 1) (lx_eng x2)"
    using read_step [OF x1(3) b1 pos(2)] by blast
  have on2: "pair_on ?u ?v a b (lx_eng x2)"
    using on quiet_facts(1) [OF x1(2)] quiet_facts(1) [OF x2(2)] by (simp add: pair_on_def)
  have r2: "ready E N n (5 * length ?plan + (length ?plan + (m + 4))) (lx_eng x2)" using x2(3) by (simp add: ready_def)
  have plan: "\<forall>i < length ?plan. 0 < snd (?plan ! i) \<and> snd (?plan ! i) \<le> 23500"
    using planned_amount [OF E] by simp
  have k': "length ?plan \<le> 2 ^ 30" using k by simp
  let ?reqs = "batch_requests E f (drawn (lx_eng x2)) ?plan"
  let ?e = "(lx_eng x2)\<lparr>drawn := drawn (lx_eng x2) + length ?plan\<rparr>"
  have "(\<exists>cs a' y. batch_experiment E no_net rnd k sched ms f x = (Inr cs, y) \<and> list_all as_pass cs \<and>
        staged E N tot n m f a' y) \<or>
      \<not> finishes E sched ?e ?reqs \<and>
      (\<exists>y. batch_experiment E no_net rnd k sched ms f x = (Inl (js ''unfinished''), y))" for sched
    using r2 f on2 plan k'
  proof (cases rule: run_batch_cases [where sched = sched])
    case (unfinished y)
    then show ?thesis
      using x1(1) x2(1) by (simp add: batch_experiment_def snapshot_def and_then_def Let_def)
  next
    case (answered rs y)
    let ?d = "expected_delta (zip ?plan rs)"
    let ?y = "y\<lparr>lx_log := lx_log y @ [batch_step ?plan rs ms]\<rparr>"
    have y: "map_get (balances (lx_eng ?y)) ?u = Some (a + ?d)" "map_get (balances (lx_eng ?y)) ?v = Some (b - ?d)"
        "0 \<le> a + ?d" "0 \<le> b - ?d" "ready E N n (k + (m + 4)) (lx_eng ?y)"
      using answered(4,5) by (simp_all add: pair_on_def)
    have p4: "0 < k + (m + 4)" "0 < k + (m + 4) - 1" "0 < k + (m + 4) - 1 - 1" "0 < k + (m + 4) - 1 - 1 - 1" by simp_all
    obtain x3 where x3: "lab_balance E no_net (fx_a f) (js ''Snapshot '' @ alpha) ?y = (Inr (a + ?d), x3)"
        "quiet 1 (lx_eng ?y) (lx_eng x3)" "ready E N n (k + (m + 4) - 1) (lx_eng x3)"
      using read_step [OF y(5,1) p4(1)] by blast
    have bal3: "balances (lx_eng x3) = balances (lx_eng ?y)" by (rule quiet_facts(1) [OF x3(2)])
    obtain x4 where x4: "lab_balance E no_net (fx_b f) (js ''Snapshot '' @ beta) x3 = (Inr (b - ?d), x4)"
        "quiet 1 (lx_eng x3) (lx_eng x4)" "ready E N n (k + (m + 4) - 1 - 1) (lx_eng x4)"
      using read_step [OF x3(3) y(2) [folded bal3] p4(2)] by blast
    have bal4: "balances (lx_eng x4) = balances (lx_eng ?y)" using quiet_facts(1) [OF x4(2)] bal3 by simp
    obtain ra x5 where x5: "lab_reconcile E no_net (js ''Reconcile '' @ alpha) (fx_a f) x4 = (Inr ra, x5)"
        "quiet 1 (lx_eng x4) (lx_eng x5)" "ready E N n (k + (m + 4) - 1 - 1 - 1) (lx_eng x5)"
        "a_ok ra" "flag ra (js ''balanced'')" "flag ra (js ''chain_valid'')"
      using check_step [OF x4(3) y(1) [folded bal4] p4(3)] by blast
    have bal5: "balances (lx_eng x5) = balances (lx_eng ?y)" using quiet_facts(1) [OF x5(2)] bal4 by simp
    obtain rb x6 where x6: "lab_reconcile E no_net (js ''Reconcile '' @ beta) (fx_b f) x5 = (Inr rb, x6)"
        "a_ok rb" "flag rb (js ''balanced'')" "flag rb (js ''chain_valid'')"
        "quiet 1 (lx_eng x5) (lx_eng x6)" "ready E N n (k + (m + 4) - 1 - 1 - 1 - 1) (lx_eng x6)"
      using check_step [OF x5(3) y(2) [folded bal5] p4(4)] by blast
    have run: "batch_experiment E no_net rnd k sched ms f x =
        (Inr (batch_assertions ?plan rs a b (a + ?d) (b - ?d) ra rb), x6)"
      using x1(1) x2(1) answered(1) x3(1) x4(1) x5(1) x6(1)
      by (simp add: batch_experiment_def snapshot_def and_then_def give_def log_step_def Let_def)
    have "unanswered rs = 0" "bad_rejects rs = 0"
      using answered(3) by (auto simp: unanswered_def bad_rejects_def accepted_res_def filter_empty_conv)
    moreover have "js_add a b = a + b" "js_add (a + ?d) (b - ?d) = a + b" "js_add (a + ?d) (- a) = ?d"
      using num.add_exact [of a b] num.add_exact [of "a + ?d" "b - ?d"] num.add_exact [of "a + ?d" "- a"] nn sum y(3,4)
      by simp_all
    ultimately have "list_all as_pass (batch_assertions ?plan rs a b (a + ?d) (b - ?d) ra rb)"
      using y(3,4) x5(4-6) x6(2-4) by (simp add: batch_assertions_def check_def Let_def)
    moreover have "staged E N tot n m f (a + ?d) x6"
      unfolding staged_def
    proof (intro conjI)
      have bal6: "balances (lx_eng x6) = balances (lx_eng ?y)" using quiet_facts(1) [OF x6(5)] bal5 by simp
      show "ready E N n m (lx_eng x6)" using x6(6) by (simp add: ready_def)
      show "map_get (balances (lx_eng x6)) ?u = Some (a + ?d)" using y(1) bal6 by simp
      show "map_get (balances (lx_eng x6)) ?v = Some (tot - (a + ?d))" using y(2) bal6 by (simp add: b_def)
      then have "?u \<in> set (map_keys (wallets (lx_eng x6)))" "?v \<in> set (map_keys (wallets (lx_eng x6)))"
        using \<open>map_get (balances (lx_eng x6)) ?u = _\<close> jsmap.get_some_key [of "balances (lx_eng x6)"]
        by (metis balances_keys)+
      then show "fixture_on f (lx_eng x6)" using ids(1-3) by (simp add: fixture_on_def)
    qed
    ultimately show ?thesis using run by blast
  qed
  then show ?thesis using that batch_typed [OF f] plan by blast
qed

end
