(* ===== verification/Lab_Session.thy ===== *)
theory Lab_Session
  imports Batch
begin

text \<open>
  A session of the Systems Lab: the page keeps the results and the fixture, runs one experiment
  or all of them, and shows a scoreboard and a card per experiment. The main fact: on the engine
  in the page a run of all experiments verifies four of four guarantees, since every experiment
  leaves the engine and the fixture fit for the next one.
\<close>

section \<open>The experiments\<close>

record exp_text =
  ex_title :: jstr
  ex_claim :: jstr
  ex_method :: jstr

definition EXPS :: "(exp_id \<times> exp_text) list" where
  "EXPS =
     [(Replay, \<lparr>ex_title = js ''Idempotency replay'',
        ex_claim = js ''Sending the same transfer three times with one Idempotency-Key moves money exactly once and returns the same transaction each time.'',
        ex_method = js ''Transfer $25.00 '' @ alpha @ [0x2192] @ beta @ js '' three times, sequentially, with an identical key and body.''\<rparr>),
      (Tamper, \<lparr>ex_title = js ''Payload tampering'',
        ex_claim = js ''Reusing a key with a different body is rejected rather than replayed, so an attacker cannot swap the amount behind a key.'',
        ex_method = js ''Post $10.00 under key K, then post $9,000.00 under the same key K.''\<rparr>),
      (Overdraft, \<lparr>ex_title = js ''Overdraft rejection'',
        ex_claim = js ''A withdrawal larger than the available balance is rejected inside the transaction and writes no ledger entries.'',
        ex_method = js ''Withdraw (balance + $0.01) from '' @ alpha @ js '', then reconcile.''\<rparr>),
      (Concurrency, \<lparr>ex_title = js ''Concurrent batching'',
        ex_claim = js ''Many simultaneous transfers in both directions keep total value constant, never drive a balance negative, and leave the ledger reconciled.'',
        ex_method = js ''Fire N transfers at once (random direction and amount), each with its own key.''\<rparr>)]"

section \<open>The session\<close>

record lab_page =
  lb_results :: "exp_id \<Rightarrow> lab_result"
  lb_fixture :: "fixture option"
  lb_engine :: engine

text \<open>What a run takes from outside: random name suffix, random numbers, schedule, time of the batch.\<close>

record run_input =
  in_tag :: jstr
  in_random :: nat
  in_sched :: "nat list"
  in_ms :: int

definition blank_lab :: "engine \<Rightarrow> lab_page" where
  "blank_lab e = \<lparr>lb_results = \<lambda>x. idle, lb_fixture = None, lb_engine = e\<rparr>"

text \<open>What \<open>bump\<close> does to the engine: the list of wallets is fetched.\<close>

definition bumped :: "env \<Rightarrow> (nat \<Rightarrow> fetched) \<Rightarrow> engine \<Rightarrow> engine" where
  "bumped E net e = fst (api_request E (net (ticks e)) GET (js ''/wallets'') JUndef [] e)"

text \<open>\<open>run\<close>: the result, the fixture the session has then, and the refresh; it returns the verdict.\<close>

definition run_one ::
  "env \<Rightarrow> (nat \<Rightarrow> fetched) \<Rightarrow> nat \<Rightarrow> run_input \<Rightarrow> exp_id \<Rightarrow> lab_page \<Rightarrow> bool \<times> lab_page" where
  "run_one E net k io x pg =
     (let r = run_experiment E net (in_tag io) (in_random io) k (in_sched io) (in_ms io) x (lb_fixture pg) (lb_engine pg)
      in (case fst r of Inl e \<Rightarrow> False | Inr cs \<Rightarrow> list_all as_pass cs,
          pg\<lparr>lb_results := (lb_results pg)(x := lab_result_of r), lb_fixture := lx_fx (snd r),
             lb_engine := bumped E net (lx_eng (snd r))\<rparr>))"

text \<open>The loop of \<open>runAll\<close> with its counter.\<close>

fun run_each ::
  "env \<Rightarrow> (nat \<Rightarrow> fetched) \<Rightarrow> nat \<Rightarrow> (exp_id \<Rightarrow> run_input) \<Rightarrow> exp_id list \<Rightarrow> nat \<times> lab_page \<Rightarrow> nat \<times> lab_page" where
  "run_each E net k io [] (passed, pg) = (passed, pg)"
| "run_each E net k io (x # xs) (passed, pg) =
     (let (p, pg') = run_one E net k (io x) x pg in run_each E net k io xs (if p then passed + 1 else passed, pg'))"

definition verdict_toast :: "jstr \<Rightarrow> nat \<Rightarrow> toast" where
  "verdict_toast i passed =
     \<lparr>to_id = i, to_tone = (if passed = length EXPS then Ok else Err),
      to_title = dec passed @ js '' of '' @ dec (length EXPS) @ js '' guarantees verified'',
      to_detail = Some (if passed = length EXPS then js ''All assertions passed''
        else js ''Inspect the failing experiment for details'')\<rparr>"

definition run_all ::
  "env \<Rightarrow> (nat \<Rightarrow> fetched) \<Rightarrow> nat \<Rightarrow> (exp_id \<Rightarrow> run_input) \<Rightarrow> lab_page \<Rightarrow> toast \<times> lab_page" where
  "run_all E net k io pg =
     (let (passed, pg') = run_each E net k io (map fst EXPS) (0, pg); e = lb_engine pg'
      in (verdict_toast (uuid E (drawn e)) passed, pg'\<lparr>lb_engine := e\<lparr>drawn := drawn e + 1\<rparr>\<rparr>))"

text \<open>The button that forgets the fixture; it is disabled while an experiment runs.\<close>

definition any_running :: "lab_page \<Rightarrow> bool" where
  "any_running pg \<longleftrightarrow> list_ex (\<lambda>(x, t). lr_state (lb_results pg x) = Running) EXPS"

definition new_fixture :: "lab_page \<Rightarrow> lab_page" where
  "new_fixture pg = (if any_running pg then pg else pg\<lparr>lb_fixture := None\<rparr>)"

section \<open>Scoreboard and cards\<close>

definition finished :: "lab_result \<Rightarrow> bool" where
  "finished r \<longleftrightarrow> lr_state r \<in> {Pass, Fail, Error}"

datatype score_tone = ScoreGreen | ScoreRed | ScorePlain

record scoreboard =
  sc_passed :: nat
  sc_total :: nat
  sc_tone :: score_tone
  sc_bars :: "lab_state list"
  sc_fixture :: "(jstr \<times> jstr) option"

definition scoreboard :: "lab_page \<Rightarrow> scoreboard" where
  "scoreboard pg =
     (let results = map (\<lambda>(x, t). lb_results pg x) EXPS;
          done = length (filter finished results);
          passed = length (filter (\<lambda>r. lr_state r = Pass) results)
      in \<lparr>sc_passed = passed, sc_total = length EXPS,
          sc_tone = (if 0 < done \<and> passed = done then ScoreGreen else if 0 < done then ScoreRed else ScorePlain),
          sc_bars = map lr_state results,
          sc_fixture = map_option (\<lambda>f. (shortId (wallet_id (fx_a f)) 8, shortId (wallet_id (fx_b f)) 8)) (lb_fixture pg)\<rparr>)"

definition verdict_badge :: "lab_state \<Rightarrow> tone option \<times> jstr" where
  "verdict_badge s =
     (case s of Pass \<Rightarrow> (Some Ok, js ''Verified'') | Fail \<Rightarrow> (Some Err, js ''Failed'')
      | Error \<Rightarrow> (Some Err, js ''Aborted'') | Running \<Rightarrow> (Some Info, js ''Running'') | Idle \<Rightarrow> (None, js ''Not run''))"

record step_row =
  st_number :: jstr
  st_label :: jstr
  st_replayed :: bool
  st_note :: "(bool \<times> jstr) option"
  st_status :: badge_tone
  st_ms :: jstr

definition step_row :: "nat \<Rightarrow> lab_step \<Rightarrow> step_row" where
  "step_row i s =
     \<lparr>st_number = pad_start 2 (dec (i + 1)), st_label = sp_label s, st_replayed = sp_replayed s,
      st_note = (if truthy (sp_note s) then Some (400 \<le> sp_status s \<or> sp_status s = 0, js_string (sp_note s)) else None),
      st_status = status_tone (sp_status s), st_ms = ms_text (sp_ms s)\<rparr>"

record exp_card =
  ec_index :: jstr
  ec_text :: exp_text
  ec_verdict :: "tone option \<times> jstr"
  ec_button :: jstr
  ec_steps :: "step_row list"
  ec_error :: "jstr option"
  ec_checks :: "assertion list"

definition exp_card :: "nat \<Rightarrow> exp_text \<Rightarrow> lab_result \<Rightarrow> exp_card" where
  "exp_card i t r =
     \<lparr>ec_index = js ''EXP-0'' @ dec i, ec_text = t, ec_verdict = verdict_badge (lr_state r),
      ec_button = (if lr_state r = Idle then js ''Run'' else js ''Re-run''),
      ec_steps = map (\<lambda>(i, s). step_row i s) (enumerate 0 (lr_steps r)),
      ec_error = (case lr_error r of None \<Rightarrow> None
        | Some e \<Rightarrow> if e = [] then None else Some (js ''Experiment aborted: '' @ e)),
      ec_checks = lr_assertions r\<rparr>"

definition exp_cards :: "lab_page \<Rightarrow> exp_card list" where
  "exp_cards pg = map (\<lambda>(i, (x, t)). exp_card (i + 1) t (lb_results pg x)) (enumerate 0 EXPS)"

section \<open>A run leaves a fit session\<close>

text \<open>What an experiment draws.\<close>

definition draws_of :: "nat \<Rightarrow> exp_id \<Rightarrow> nat" where
  "draws_of k x = (case x of Replay \<Rightarrow> 9 | Tamper \<Rightarrow> 8 | Overdraft \<Rightarrow> 6 | Concurrency \<Rightarrow> 6 * k + 6)"

lemma chosen_ok:
  fixes rnd :: nat and ms :: int
  assumes st: "staged E N tot n (m + draws_of k x) f a y" and a: "100000 \<le> a" and tot: "tot < 2 ^ 53"
    and E: "unit_random E" and k: "k \<le> 2 ^ 30"
  defines "good \<equiv> \<lambda>sched. \<exists>cs a' z. chosen_experiment E no_net rnd k sched ms x f y = (Inr cs, z) \<and>
    list_all as_pass cs \<and> staged E N tot n m f a' z"
  shows "good sched \<or> x = Concurrency \<and> (\<exists>z. chosen_experiment E no_net rnd k sched ms x f y = (Inl (js ''unfinished''), z))"
    and "\<exists>sched. good sched"
proof -
  have le: "tot \<le> 2 ^ 53" "2500 \<le> a" "1000 \<le> a" using a tot by simp_all
  have all: "(\<forall>sched. good sched \<or> x = Concurrency \<and>
        (\<exists>z. chosen_experiment E no_net rnd k sched ms x f y = (Inl (js ''unfinished''), z))) \<and> (\<exists>sched. good sched)"
  proof (cases x)
    case Replay
    then have "staged E N tot n (m + 9) f a y" using st by (simp add: draws_of_def)
    then obtain cs z where "replay_experiment E no_net f y = (Inr cs, z)" "list_all as_pass cs" "staged E N tot n m f (a - 2500) z"
      by (rule replay_ok [OF _ le(2,1)])
    then show ?thesis using Replay by (auto simp: good_def chosen_experiment_def)
  next
    case Tamper
    then have "staged E N tot n (m + 8) f a y" using st by (simp add: draws_of_def)
    then obtain cs z where "tamper_experiment E no_net f y = (Inr cs, z)" "list_all as_pass cs" "staged E N tot n m f (a - 1000) z"
      by (rule tamper_ok [OF _ le(3,1)])
    then show ?thesis using Tamper by (auto simp: good_def chosen_experiment_def)
  next
    case Overdraft
    then have "staged E N tot n (m + 6) f a y" using st by (simp add: draws_of_def)
    then obtain cs z where "overdraft_experiment E no_net f y = (Inr cs, z)" "list_all as_pass cs" "staged E N tot n m f a z"
      by (rule overdraft_ok [OF _ tot])
    then show ?thesis using Overdraft by (auto simp: good_def chosen_experiment_def)
  next
    case Concurrency
    then have "staged E N tot n (m + (6 * k + 6)) f a y" using st by (simp add: draws_of_def)
    then show ?thesis
    proof (rule batch_ok [OF _ tot E k])
      fix e qs
      assume typed: "\<forall>q \<in> set qs. typed q"
        and run: "\<And>sched. (\<exists>cs a' z. batch_experiment E no_net rnd k sched ms f y = (Inr cs, z) \<and> list_all as_pass cs \<and>
          staged E N tot n m f a' z) \<or>
        \<not> finishes E sched e qs \<and> (\<exists>z. batch_experiment E no_net rnd k sched ms f y = (Inl (js ''unfinished''), z))"
      have eq: "chosen_experiment E no_net rnd k sched ms Concurrency f y = batch_experiment E no_net rnd k sched ms f y" for sched
        by (simp add: chosen_experiment_def)
      obtain sched where "finishes E sched e qs" using some_finishes [OF typed] by blast
      then have "good sched" using run [of sched] unfolding good_def Concurrency eq by blast
      then show ?thesis using run unfolding good_def Concurrency eq by blast
    qed
  qed
  then show "good sched \<or> x = Concurrency \<and> (\<exists>z. chosen_experiment E no_net rnd k sched ms x f y = (Inl (js ''unfinished''), z))"
    and "\<exists>sched. good sched" by blast+
qed

text \<open>The experiments can be enumerated, in the order of the page.\<close>

lemma UNIV_exp_id: "UNIV = {Replay, Tamper, Overdraft, Concurrency}"
  using exp_id.exhaust by auto

instantiation exp_id :: enum
begin

definition "enum_exp_id = [Replay, Tamper, Overdraft, Concurrency]"

definition "enum_all_exp_id P \<longleftrightarrow> P Replay \<and> P Tamper \<and> P Overdraft \<and> P Concurrency"

definition "enum_ex_exp_id P \<longleftrightarrow> P Replay \<or> P Tamper \<or> P Overdraft \<or> P Concurrency"

instance
  by standard (simp_all add: UNIV_exp_id enum_exp_id_def enum_all_exp_id_def enum_ex_exp_id_def)

end

lemma EXPS_enum: "map fst EXPS = Enum.enum"
  by (simp add: EXPS_def enum_exp_id_def)

text \<open>The refresh after a run draws one id.\<close>

lemma bumped_quiet: "quiet 1 e (bumped E no_net e)"
proof -
  have h: "handle E (get_request (js ''/wallets'')) (e\<lparr>ticks := ticks e + 1\<rparr>) =
      (e\<lparr>ticks := ticks e + 1\<rparr>, Returned (ok (WalletsBody (map snd (wallets e))) 200 []))"
    by (simp add: handle_def dispatch_def get_request_def route_of_def strip_prefix_def take_js)
  show ?thesis
  proof (rule api_get [OF h])
    fix R
    assume "api_request E Unreachable GET (js ''/wallets'') JUndef [] e =
        (e\<lparr>ticks := ticks e + 1, drawn := drawn (e\<lparr>ticks := ticks e + 1\<rparr>) + 1,
          ticks := ticks (e\<lparr>ticks := ticks e + 1\<rparr>) + 2\<rparr>, Some R)"
    then have "bumped E no_net e = e\<lparr>drawn := drawn e + 1, ticks := ticks e + 3\<rparr>" by (simp add: bumped_def)
    then show ?thesis unfolding quiet_def by (intro exI [of _ "drawn e + 1"] exI [of _ "ticks e + 3"]) simp
  qed
qed

definition fit :: "env \<Rightarrow> nat \<Rightarrow> nat \<Rightarrow> nat \<Rightarrow> nat \<Rightarrow> lab_page \<Rightarrow> bool" where
  "fit E N n m c pg \<longleftrightarrow> ready E N n m (lb_engine pg) \<and> spare c (lb_fixture pg) (lb_engine pg)"

lemma staged_fit:
  assumes st: "staged E N tot n (m + 1) f a z" and fx: "lx_fx z = Some f" and tot: "tot < 2 ^ 53 - int c * 150000"
    and pg: "lb_engine pg = bumped E no_net (lx_eng z)" "lb_fixture pg = lx_fx z"
  shows "fit E N n m c pg"
proof -
  note q = bumped_quiet [of "lx_eng z" E]
  have "ready E N n (m + 1 - 1) (lb_engine pg)"
    unfolding pg(1) by (rule ready_quiet [OF _ q]) (use st in \<open>simp_all add: staged_def\<close>)
  moreover have "spare c (Some f) (lx_eng z)"
    unfolding spare_def option.case
    using st tot by (intro conjI exI [of _ a] exI [of _ "tot - a"]) (simp_all add: staged_def)
  then have "spare c (lb_fixture pg) (lb_engine pg)"
    using quiet_facts(1,5) [OF q] by (simp add: spare_def pg fx)
  ultimately show ?thesis by (simp add: fit_def)
qed

lemma run_one_ok:
  assumes fit: "fit E N n (m + 18 + draws_of k x) (Suc c) pg" and E: "unit_random E" and k: "k \<le> 2 ^ 30"
  defines "good \<equiv> \<lambda>io. \<exists>r pg'. run_one E no_net k io x pg = (True, pg') \<and> fit E N n m c pg' \<and>
    lb_results pg' = (lb_results pg)(x := r) \<and> lr_state r = Pass"
  shows "good io \<or> x = Concurrency \<and> lr_error (lb_results (snd (run_one E no_net k io x pg)) x) = Some (js ''unfinished'')"
    and "\<exists>sched. good (io\<lparr>in_sched := sched\<rparr>)"
proof -
  have r: "ready E N n (m + 1 + draws_of k x + 17) (lb_engine pg)" and s: "spare (Suc c) (lb_fixture pg) (lb_engine pg)"
    using fit by (simp_all add: fit_def ready_def)
  have "(good io \<or> x = Concurrency \<and> lr_error (lb_results (snd (run_one E no_net k io x pg)) x) = Some (js ''unfinished'')) \<and>
    (\<exists>sched. good (io\<lparr>in_sched := sched\<rparr>))"
  proof (rule prepared [OF r s, of "in_tag io"])
    fix f a tot y
    let ?run = "\<lambda>sched. chosen_experiment E no_net (in_random io) k sched (in_ms io) x f y"
    assume eq: "\<And>rnd k sched ms x. run_experiment E no_net (in_tag io) rnd k sched ms x (lb_fixture pg) (lb_engine pg) =
        chosen_experiment E no_net rnd k sched ms x f y"
      and st: "staged E N tot n (m + 1 + draws_of k x) f a y" and a: "100000 \<le> a" and tot: "tot < 2 ^ 53 - int c * 150000"
      and fx: "lx_fx y = Some f"
    have small: "tot < 2 ^ 53" using tot by simp
    have pass: "good (io\<lparr>in_sched := sched\<rparr>)"
      if run: "?run sched = (Inr cs, z)" "list_all as_pass cs" "staged E N tot n (m + 1) f a' z" for sched cs a' z
    proof -
      let ?pg = "pg\<lparr>lb_results := (lb_results pg)(x := lab_result_of (?run sched)), lb_fixture := lx_fx z,
          lb_engine := bumped E no_net (lx_eng z)\<rparr>"
      have "lx_fx z = Some f" using keeps_fixtureD [OF keeps_experiment run(1)] fx by simp
      then have "fit E N n m c ?pg" by (intro staged_fit [OF run(3) _ tot]) simp_all
      moreover have "run_one E no_net k (io\<lparr>in_sched := sched\<rparr>) x pg = (True, ?pg)"
        using run(1,2) by (simp add: run_one_def eq)
      moreover have "lr_state (lab_result_of (?run sched)) = Pass" using run(1,2) by (simp add: lab_result_of_def)
      ultimately show ?thesis unfolding good_def
        by (intro exI [of _ "lab_result_of (?run sched)"] exI [of _ ?pg] conjI) simp_all
    qed
    note ok = chosen_ok [OF st a small E k, where rnd = "in_random io" and ms = "in_ms io"]
    have "good io \<or> x = Concurrency \<and> lr_error (lb_results (snd (run_one E no_net k io x pg)) x) = Some (js ''unfinished'')"
      using ok(1) [where sched = "in_sched io"]
    proof (elim disjE conjE exE)
      fix cs a' z
      assume "?run (in_sched io) = (Inr cs, z)" "list_all as_pass cs" "staged E N tot n (m + 1) f a' z"
      then show ?thesis using pass [of "in_sched io"] by simp
    next
      fix z
      assume "x = Concurrency" "?run (in_sched io) = (Inl (js ''unfinished''), z)"
      then show ?thesis by (simp add: run_one_def eq lab_result_of_def)
    qed
    then show ?thesis using ok(2) pass by blast
  qed
  then show "good io \<or> x = Concurrency \<and> lr_error (lb_results (snd (run_one E no_net k io x pg)) x) = Some (js ''unfinished'')"
    and "\<exists>sched. good (io\<lparr>in_sched := sched\<rparr>)" by blast+
qed

section \<open>All experiments\<close>

definition verified :: "toast \<times> lab_page \<Rightarrow> bool" where
  "verified out \<longleftrightarrow> to_tone (fst out) = Ok \<and> to_title (fst out) = js ''4 of 4 guarantees verified'' \<and>
     (\<forall>x. lr_state (lb_results (snd out) x) = Pass)"

lemma run_all_ok:
  assumes fit: "fit E N n (6 * k + 102) 4 pg" and E: "unit_random E" and k: "k \<le> 2 ^ 30"
  shows "verified (run_all E no_net k io pg) \<or>
      lr_error (lb_results (snd (run_all E no_net k io pg)) Concurrency) = Some (js ''unfinished'')"
    and "\<exists>sched. verified (run_all E no_net k (io(Concurrency := (io Concurrency)\<lparr>in_sched := sched\<rparr>)) pg)"
proof -
  have f0: "fit E N n (6 * k + 75 + 18 + draws_of k Replay) (Suc 3) pg" using fit by (simp add: draws_of_def add.commute)
  obtain r1 p1 where 1: "run_one E no_net k (io Replay) Replay pg = (True, p1)" "fit E N n (6 * k + 75) 3 p1"
      "lb_results p1 = (lb_results pg)(Replay := r1)" "lr_state r1 = Pass"
    using run_one_ok(1) [OF f0 E k, of "io Replay"] by auto
  have f1: "fit E N n (6 * k + 49 + 18 + draws_of k Tamper) (Suc 2) p1" using 1(2) by (simp add: draws_of_def add.commute numeral_3_eq_3)
  obtain r2 p2 where 2: "run_one E no_net k (io Tamper) Tamper p1 = (True, p2)" "fit E N n (6 * k + 49) 2 p2"
      "lb_results p2 = (lb_results p1)(Tamper := r2)" "lr_state r2 = Pass"
    using run_one_ok(1) [OF f1 E k, of "io Tamper"] by auto
  have f2: "fit E N n (6 * k + 25 + 18 + draws_of k Overdraft) (Suc 1) p2" using 2(2) by (simp add: draws_of_def add.commute numeral_2_eq_2)
  obtain r3 p3 where 3: "run_one E no_net k (io Overdraft) Overdraft p2 = (True, p3)" "fit E N n (6 * k + 25) 1 p3"
      "lb_results p3 = (lb_results p2)(Overdraft := r3)" "lr_state r3 = Pass"
    using run_one_ok(1) [OF f2 E k, of "io Overdraft"] by auto
  have f3: "fit E N n (1 + 18 + draws_of k Concurrency) (Suc 0) p3" using 3(2) by (simp add: draws_of_def add.commute)
  let ?last = "\<lambda>io'. run_one E no_net k io' Concurrency p3"
  have all: "run_all E no_net k io' pg = (let (p, p4) = ?last (io' Concurrency); e = lb_engine p4
      in (verdict_toast (uuid E (drawn e)) (if p then 4 else 3), p4\<lparr>lb_engine := e\<lparr>drawn := drawn e + 1\<rparr>\<rparr>))"
    if "\<forall>x. x \<noteq> Concurrency \<longrightarrow> io' x = io x" for io'
    using 1(1) 2(1) 3(1) that by (simp add: run_all_def EXPS_def Let_def eval_nat_numeral split: prod.split)
  have ok: "verified (run_all E no_net k io' pg)"
    if "\<forall>x. x \<noteq> Concurrency \<longrightarrow> io' x = io x" "?last (io' Concurrency) = (True, p4)"
      "lb_results p4 = (lb_results p3)(Concurrency := r4)" "lr_state r4 = Pass" for io' p4 r4
  proof -
    have "lr_state (lb_results p4 x) = Pass" for x using 1(3,4) 2(3,4) 3(3,4) that(3,4) by (cases x) simp_all
    then show ?thesis
      using that(2) all [OF that(1)] by (simp add: verified_def verdict_toast_def EXPS_def Let_def dec.simps digit_def js_def)
  qed
  show "verified (run_all E no_net k io pg) \<or>
      lr_error (lb_results (snd (run_all E no_net k io pg)) Concurrency) = Some (js ''unfinished'')"
    using run_one_ok(1) [OF f3 E k, of "io Concurrency"]
  proof (elim disjE conjE exE)
    fix r4 p4
    assume "?last (io Concurrency) = (True, p4)" "lb_results p4 = (lb_results p3)(Concurrency := r4)" "lr_state r4 = Pass"
    then show ?thesis using ok [of io] by simp
  next
    assume "lr_error (lb_results (snd (?last (io Concurrency))) Concurrency) = Some (js ''unfinished'')"
    then show ?thesis using all [of io] by (simp add: Let_def split: prod.splits)
  qed
  show "\<exists>sched. verified (run_all E no_net k (io(Concurrency := (io Concurrency)\<lparr>in_sched := sched\<rparr>)) pg)"
    using run_one_ok(2) [OF f3 E k, of "io Concurrency"] ok [of "io(Concurrency := (io Concurrency)\<lparr>in_sched := _\<rparr>)"]
    by (metis fun_upd_def)
qed

text \<open>The scoreboard of a session in which all have passed.\<close>

lemma verified_scoreboard:
  assumes "verified out"
  shows "sc_passed (scoreboard (snd out)) = sc_total (scoreboard (snd out))" and "sc_tone (scoreboard (snd out)) = ScoreGreen"
    and "sc_bars (scoreboard (snd out)) = replicate 4 Pass"
  using assms by (simp_all add: verified_def scoreboard_def EXPS_def finished_def Let_def eval_nat_numeral)

end
