(* ===== verification/Api_Console.thy ===== *)
theory Api_Console
  imports Dashboard
begin

text \<open>
  The API console: the filtered list of traces and its statistics, the presets, the request it
  sends and the \<open>curl\<close> command of a trace. \<open>JSON.parse\<close> of the typed body is a parameter of the
  send; what it prints is \<open>JSON.stringify\<close> with and without indentation.
\<close>

section \<open>The list and its statistics\<close>

datatype status_filter = All | F2xx | F4xx | F5xx

definition trace_shown :: "status_filter \<Rightarrow> jstr \<Rightarrow> trace \<Rightarrow> bool" where
  "trace_shown f q t =
     (let st = tr_status t
      in if f = F2xx \<and> \<not> (200 \<le> st \<and> st < 300) then False
         else if f = F4xx \<and> \<not> (400 \<le> st \<and> st < 500) then False
         else if f = F5xx \<and> \<not> (500 \<le> st \<or> st = 0) then False
         else q = [] \<or> contains (lower q) (lower (tr_path t)))"

definition trace_list :: "status_filter \<Rightarrow> jstr \<Rightarrow> trace list \<Rightarrow> trace list" where
  "trace_list f q ts = filter (trace_shown f q) ts"

definition active_trace :: "jstr option \<Rightarrow> status_filter \<Rightarrow> jstr \<Rightarrow> trace list \<Rightarrow> trace option" where
  "active_trace i f q ts =
     (case find (\<lambda>t. Some (tr_id t) = i) ts of
        Some t \<Rightarrow> Some t
      | None \<Rightarrow> (case trace_list f q ts of [] \<Rightarrow> None | t # _ \<Rightarrow> Some t))"

record trace_stats =
  ts_n :: nat
  ts_p50 :: int
  ts_p99 :: int
  ts_err :: nat

text \<open>\<open>ms[Math.floor(ms.length * p / 100)] ?? 0\<close>.\<close>

definition percentile :: "nat \<Rightarrow> int list \<Rightarrow> int" where
  "percentile p ms =
     (let i = length ms * p div 100 in if i < length ms then sort ms ! i else 0)"

definition is_error :: "trace \<Rightarrow> bool" where
  "is_error t \<longleftrightarrow> 400 \<le> tr_status t \<or> tr_status t = 0"

definition stats :: "trace list \<Rightarrow> trace_stats" where
  "stats ts =
     (let ms = map tr_ms ts
      in \<lparr>ts_n = length ts, ts_p50 = percentile 50 ms, ts_p99 = percentile 99 ms,
          ts_err = length (filter is_error ts)\<rparr>)"

section \<open>Printing values\<close>

text \<open>\<open>JSON.stringify(v)\<close>, and with an indentation of two.\<close>

fun stringify_all :: "jsval \<Rightarrow> jstr option" where
  "stringify_all JUndef = None"
| "stringify_all JNull = Some (js ''null'')"
| "stringify_all (JBool b) = Some (if b then js ''true'' else js ''false'')"
| "stringify_all (JNum n) = Some (num_text n)"
| "stringify_all (JFrac t) = Some t"
| "stringify_all (JStr s) = Some (quote s)"
| "stringify_all (JArr vs) =
     Some (0x5B # join (js '','')
       (map (\<lambda>v. case stringify_all v of None \<Rightarrow> js ''null'' | Some t \<Rightarrow> t) vs) @ [0x5D])"
| "stringify_all (JObj fs) =
     Some (0x7B # join (js '','')
       (map member (List.map_filter (\<lambda>(k, t). map_option (\<lambda>t. (k, t)) t)
          (map (\<lambda>p. (fst p, stringify_all (snd p))) fs))) @ [0x7D])"

definition newline :: "nat \<Rightarrow> jstr" where
  "newline depth = 0xA # replicate (2 * depth) 0x20"

definition block :: "code_unit \<Rightarrow> code_unit \<Rightarrow> nat \<Rightarrow> jstr list \<Rightarrow> jstr" where
  "block l r depth items =
     (if items = [] then [l, r]
      else l # newline (depth + 1) @ join (0x2C # newline (depth + 1)) items @ newline depth @ [r])"

fun pretty :: "nat \<Rightarrow> jsval \<Rightarrow> jstr option" where
  "pretty d (JArr vs) =
     Some (block 0x5B 0x5D d
       (map (\<lambda>v. case pretty (d + 1) v of None \<Rightarrow> js ''null'' | Some t \<Rightarrow> t) vs))"
| "pretty d (JObj fs) =
     Some (block 0x7B 0x7D d
       (map (\<lambda>(k, t). quote k @ js '': '' @ t) (List.map_filter (\<lambda>(k, t). map_option (\<lambda>t. (k, t)) t)
          (map (\<lambda>p. (fst p, pretty (d + 1) (snd p))) fs))))"
| "pretty d v = stringify_all v"

section \<open>Presets\<close>

record preset =
  ps_method :: http_method
  ps_path :: jstr
  ps_body :: "(jsval \<Rightarrow> jsval \<Rightarrow> jsval) option"
  ps_idem :: bool

definition PRESETS :: "(jstr \<times> preset) list" where
  "PRESETS =
     [(js ''GET /health'',
        \<lparr>ps_method = GET, ps_path = js ''/health'', ps_body = None, ps_idem = False\<rparr>),
      (js ''GET /wallets'',
        \<lparr>ps_method = GET, ps_path = js ''/wallets'', ps_body = None, ps_idem = False\<rparr>),
      (js ''GET /wallets/{id}/reconcile'',
        \<lparr>ps_method = GET, ps_path = js ''/wallets/{id}/reconcile'', ps_body = None, ps_idem = False\<rparr>),
      (js ''POST /deposits'',
        \<lparr>ps_method = POST, ps_path = js ''/deposits'',
         ps_body = Some (\<lambda>w w2. JObj [(js ''wallet_id'', w), (js ''amount'', JNum 10000),
           (js ''reference'', JStr (js ''console''))]), ps_idem = True\<rparr>),
      (js ''POST /transfers'',
        \<lparr>ps_method = POST, ps_path = js ''/transfers'',
         ps_body = Some (\<lambda>w w2. JObj [(js ''from_wallet_id'', w), (js ''to_wallet_id'', w2),
           (js ''amount'', JNum 2500), (js ''reference'', JStr (js ''console''))]), ps_idem = True\<rparr>),
      (js ''POST /withdrawals (no key)'',
        \<lparr>ps_method = POST, ps_path = js ''/withdrawals'',
         ps_body = Some (\<lambda>w w2. JObj [(js ''wallet_id'', w), (js ''amount'', JNum 100)]),
         ps_idem = False\<rparr>)]"

text \<open>\<open>s.replace(p, x)\<close> of the first occurrence.\<close>

fun replace_first :: "jstr \<Rightarrow> jstr \<Rightarrow> jstr \<Rightarrow> jstr" where
  "replace_first p x [] = (if p = [] then x else [])"
| "replace_first p x (c # s) =
     (if take (length p) (c # s) = p then x @ drop (length p) (c # s) else c # replace_first p x s)"

record console_form =
  cf_preset :: jstr
  cf_method :: http_method
  cf_path :: jstr
  cf_key :: jstr
  cf_body :: jstr

text \<open>\<open>applyPreset\<close>, with the wallets of the store and the fresh key it may draw.\<close>

definition apply_preset :: "jstr \<Rightarrow> store \<Rightarrow> jstr \<Rightarrow> console_form option" where
  "apply_preset name st fresh =
     map_option (\<lambda>p.
       let sel = (case selected st of None \<Rightarrow> JUndef | Some w \<Rightarrow> wallet_id w);
           other = (case find (\<lambda>w. \<not> strict_eq (wallet_id w) sel) (st_wallets st) of
                      None \<Rightarrow> JUndef | Some w \<Rightarrow> wallet_id w)
       in \<lparr>cf_preset = name, cf_method = ps_method p,
           cf_path = replace_first (js ''{id}'')
             (if nullish sel then js ''{id}'' else js_string sel) (ps_path p),
           cf_key = (if ps_idem p then fresh else []),
           cf_body = (case ps_body p of None \<Rightarrow> []
             | Some f \<Rightarrow> (case pretty 0 (f sel other) of None \<Rightarrow> js ''undefined'' | Some t \<Rightarrow> t))\<rparr>)
       (map_of PRESETS name)"

text \<open>
  \<open>send\<close>: \<open>parse\<close> gives the value of a text or the message of the parser; \<open>Inl\<close> the body is not JSON, \<open>Inr\<close> the engine after the request and its result.
\<close>

definition console_body :: "(jstr \<Rightarrow> jstr + jsval) \<Rightarrow> console_form \<Rightarrow> jstr + jsval" where
  "console_body parse cf =
     (if cf_method cf = POST \<and> trim (cf_body cf) \<noteq> [] then parse (cf_body cf) else Inr JUndef)"

definition console_headers :: "console_form \<Rightarrow> headers" where
  "console_headers cf =
     (if cf_key cf = [] then [] else [(js ''Idempotency-Key'', cf_key cf)])"

definition console_path :: "console_form \<Rightarrow> jstr" where
  "console_path cf =
     (if take 1 (cf_path cf) = js ''/'' then cf_path cf else js ''/'' @ cf_path cf)"

definition console_send ::
  "env \<Rightarrow> fetched \<Rightarrow> (jstr \<Rightarrow> jstr + jsval) \<Rightarrow> console_form \<Rightarrow> engine \<Rightarrow>
   jstr + engine \<times> api_result option" where
  "console_send E net parse cf s =
     (case console_body parse cf of
        Inl message \<Rightarrow> Inl (js ''Invalid JSON: '' @ message)
      | Inr body \<Rightarrow>
          Inr (api_request E net (cf_method cf) (console_path cf) body (console_headers cf) s))"

section \<open>curl\<close>

definition curl :: "jstr \<Rightarrow> trace \<Rightarrow> jstr" where
  "curl origin t =
     join (js '' '' @ [0x5C, 0xA] @ js ''  '')
       ([js ''curl -X '' @ method_text (tr_method t) @ js '' '' @ [0x27] @ origin @ tr_path t @ [0x27]] @
        map (\<lambda>(k, v). js ''-H '' @ [0x27] @ k @ js '': '' @ v @ [0x27]) (tr_request_headers t) @
        (if tr_request_body t = JUndef then []
         else [js ''-d '' @ [0x27] @
               (case stringify_all (tr_request_body t) of None \<Rightarrow> js ''undefined'' | Some x \<Rightarrow> x) @ [0x27]]))"

section \<open>Facts\<close>

lemma stats_err: "ts_err (stats ts) = length (trace_list F4xx [] ts) + length (trace_list F5xx [] ts)"
  by (induction ts) (auto simp: stats_def trace_list_def trace_shown_def is_error_def Let_def)

lemma percentile_member: "ms \<noteq> [] \<Longrightarrow> p < 100 \<Longrightarrow> percentile p ms \<in> set ms"
proof -
  assume ms: "ms \<noteq> []" and p: "p < 100"
  have "length ms * p div 100 < length ms" using ms p by (simp add: less_mult_imp_div_less)
  then show ?thesis using ms nth_mem [of "length ms * p div 100" "sort ms"] by (simp add: percentile_def Let_def)
qed

lemma console_headers_key: "key_headers (console_headers cf)"
  by (simp add: console_headers_def key_headers_def)

section \<open>Which errors a request with a key can get\<close>

lemma read_code:
  assumes "dispatch E q s = Inl (s1, Returned r)" and "r_body r = ErrorBody c m"
    and "map_get (q_headers q) (js ''idempotency-key'') = Some k" and "k \<noteq> []"
  shows "c \<noteq> js ''idempotency_key_required''"
proof (cases "q_route q")
  case (RMoney kd)
  then show ?thesis
    using assms validate_key_required [of kd "q_headers q" _ r k c m]
    by (auto simp: dispatch_def split: sum.splits)
next
  case RCreate
  then show ?thesis
    using assms by (cases rule: create_wallet_cases [of E "q_body q" s]) (auto simp: dispatch_def)
next
  case (RWallet i)
  then show ?thesis using assms by (auto simp: dispatch_def wallet_not_found_def split: option.splits)
next
  case (RReconcile i)
  then show ?thesis
    using assms by (auto simp: dispatch_def reconcile_route_def wallet_not_found_def split: option.splits)
qed (use assms in \<open>auto simp: dispatch_def\<close>)

lemma critical_code:
  assumes "idem_wf n s" and "critical E p s = (s1, Returned r)" and "r_body r = ErrorBody c m"
  shows "c \<noteq> js ''idempotency_key_required''"
proof (cases "crit_begin p s")
  case None
  then have "crit_end E p s = (s1, Returned r)" using assms(2) by (simp add: critical_def)
  then show ?thesis
    using assms(3) by (cases rule: crit_end_cases [of E p s]) (auto simp: insufficient_def)
next
  case (Some r')
  then have r: "crit_begin p s = Some r" using assms(2) by (simp add: critical_def)
  show ?thesis
  proof (cases "map_get (idem s) (p_key p)")
    case None
    then show ?thesis using r assms(3) by (auto simp: crit_begin_def split: if_splits)
  next
    case (Some x)
    obtain t where "answers t x" using idem_wf_answer [OF assms(1) Some] by metis
    then show ?thesis
      using r assms(3) Some by (auto simp: crit_begin_def answers_def key_reused_def split: if_splits)
  qed
qed

lemma handle_code:
  assumes "idem_wf n s" and "handle E q s = (s1, Returned r)" and "r_body r = ErrorBody c m"
    and "map_get (q_headers q) (js ''idempotency-key'') = Some k" and "k \<noteq> []"
  shows "c \<noteq> js ''idempotency_key_required''"
  using assms read_code [of E q s s1 r c m k] critical_code [of n s E _ s1 r c m]
  by (auto simp: handle_def split: sum.splits)

lemma err_code_body:
  "a_data r = body_value b \<Longrightarrow>
   errCode r = (case b of ErrorBody c m \<Rightarrow> JStr c | _ \<Rightarrow> JStr (js ''http_'' @ num_text (a_status r)))"
  by (cases b)
    (simp_all add: errCode_def wallet_value_def tx_value_def recon_value_def health_value_def coalesce_def Let_def)

lemma http_not_key: "js ''http_'' @ t \<noteq> js ''idempotency_key_required''"
  by (simp add: js_append_eq_js)

lemma post_key_code:
  assumes "idem_wf n s" and "key_headers hs" and "api_request E Unreachable POST path body hs s = (s', Some r)"
  shows "errCode r \<noteq> JStr (js ''idempotency_key_required'')"
proof -
  define hs' where "hs' = fst (with_key E POST hs s)"
  define s0 where "s0 = (snd (with_key E POST hs s))\<lparr>ticks := ticks (snd (with_key E POST hs s)) + 1\<rparr>"
  define q where "q = sim_request POST path body (request_headers body hs')"
  obtain k where k: "k \<noteq> []" "map_get (q_headers q) (js ''idempotency-key'') = Some k"
    using sent_key [OF assms(2), of body E s] by (metis hs'_def q_def request.select_convs(3) sim_request_def)
  have idem: "idem_wf n s0" using assms(1) by (simp add: s0_def with_key_def)
  obtain s1 out where ho: "handle E q s0 = (s1, out)" by fastforce
  note call = assms(3) [unfolded api_request_def Let_def split_beta, folded hs'_def, folded q_def s0_def]
  obtain a where out: "out = Returned a" using call ho by (cases out) (auto split: prod.splits)
  have h: "handle E q s0 = (s1, Returned a)" using ho out by simp
  have d: "deliver E (ticks (snd (with_key E POST hs s))) POST path (request_headers body hs') body (r_status a)
        (r_headers a) (body_value (r_body a)) False s1 = (s', Some r)"
    using call h by (auto split: prod.splits)
  have data: "normalize (body_value (r_body a)) = Some (a_data r)"
    using d by (auto simp: deliver_def split: option.splits)
  note shape = data [unfolded normalize_body option.inject]
  show ?thesis
  proof (cases "r_body a")
    case (ErrorBody c m)
    then have "a_data r = body_value (r_body a)" using shape [symmetric] by (simp only: res_body.case ErrorBody)
    then have "errCode r = JStr c" using err_code_body [of r "r_body a"] by (simp add: ErrorBody)
    then show ?thesis using handle_code [OF idem h ErrorBody k(2,1)] by simp
  qed (use shape [symmetric] http_not_key in \<open>auto simp: err_code_body errCode_def coalesce_def wallet_value_def
        tx_value_def recon_value_def health_value_def Let_def\<close>)
qed

text \<open>
  A POST of the console never fails for a missing key, even with an empty key field (as in the
  preset that is labelled so): the request function adds a fresh key.
\<close>

lemma console_post_has_key:
  assumes "idem_wf n s" and "cf_method cf = POST"
    and "console_send E Unreachable parse cf s = Inr (s', Some r)"
  shows "errCode r \<noteq> JStr (js ''idempotency_key_required'')"
proof -
  obtain body where "api_request E Unreachable POST (console_path cf) body (console_headers cf) s = (s', Some r)"
    using assms(2,3) by (auto simp: console_send_def split: sum.splits)
  then show ?thesis using post_key_code [OF assms(1) console_headers_key] by simp
qed

end
