(* ===== verification/Json_View.thy ===== *)
theory Json_View
  imports Api_Console
begin

text \<open>
  The view of a JSON value: the component \<open>Json\<close> escapes a text, wraps strings, key words and
  numbers in coloured spans and hands the result to the browser as HTML. The global replacement
  is a scan of the escaped text into tokens. The facts: the only tags of the result are the
  five of the highlighter, and without them it is the escaped text, which reads back as the text.
\<close>

section \<open>Escaping\<close>

definition escape_html :: "jstr \<Rightarrow> jstr" where
  "escape_html s =
     concat (map (\<lambda>c. if c = 0x3C then js ''&lt;'' else [c])
       (concat (map (\<lambda>c. if c = 0x26 then js ''&amp;'' else [c]) s)))"

section \<open>Tokens\<close>

text \<open>The rest of a string literal, \<open>(?:\\.|[^"\\])*"\<close>; a full stop matches no line terminator.\<close>

definition line_end :: "code_unit \<Rightarrow> bool" where
  "line_end c \<longleftrightarrow> c \<in> {0xA, 0xD, 0x2028, 0x2029}"

fun string_rest :: "jstr \<Rightarrow> (jstr \<times> jstr) option" where
  "string_rest [] = None"
| "string_rest [c] = (if c = 0x22 then Some ([c], []) else None)"
| "string_rest (c # d # s) =
     (if c = 0x22 then Some ([c], d # s)
      else if c = 0x5C then
        (if line_end d then None
         else map_option (\<lambda>(m, r). (c # d # m, r)) (string_rest s))
      else map_option (\<lambda>(m, r). (c # m, r)) (string_rest (d # s)))"

definition match_string :: "jstr \<Rightarrow> (jstr \<times> jstr) option" where
  "match_string s =
     (case s of [] \<Rightarrow> None
      | c # r \<Rightarrow> if c = 0x22 then map_option (\<lambda>(m, r). (c # m, r)) (string_rest r) else None)"

text \<open>\<open>(\s*:)?\<close>\<close>

definition match_colon :: "jstr \<Rightarrow> jstr \<times> jstr" where
  "match_colon s =
     (let w = takeWhile is_space s; r = dropWhile is_space s
      in case r of [] \<Rightarrow> ([], s) | c # r' \<Rightarrow> if c = 0x3A then (w @ [c], r') else ([], s))"

text \<open>\<open>\b(true|false|null)\b\<close> after the character \<open>p\<close>.\<close>

definition word_at :: "jstr \<Rightarrow> jstr \<Rightarrow> bool" where
  "word_at k s \<longleftrightarrow> take (length k) s = k \<and>
     (case drop (length k) s of [] \<Rightarrow> True | c # _ \<Rightarrow> \<not> is_word_char c)"

definition match_word :: "code_unit option \<Rightarrow> jstr \<Rightarrow> (jstr \<times> jstr) option" where
  "match_word p s =
     (if (case p of None \<Rightarrow> False | Some c \<Rightarrow> is_word_char c) then None
      else map_option (\<lambda>k. (k, drop (length k) s))
             (find (\<lambda>k. word_at k s) [js ''true'', js ''false'', js ''null'']))"

text \<open>\<open>-?\d+(?:\.\d+)?\<close>\<close>

definition match_digits :: "jstr \<Rightarrow> (jstr \<times> jstr) option" where
  "match_digits s =
     (let w = takeWhile is_digit s in if w = [] then None else Some (w, dropWhile is_digit s))"

definition match_fraction :: "jstr \<Rightarrow> jstr \<times> jstr" where
  "match_fraction s =
     (case s of [] \<Rightarrow> ([], s)
      | c # r \<Rightarrow> if c = 0x2E then (case match_digits r of None \<Rightarrow> ([], s) | Some (f, r') \<Rightarrow> (c # f, r'))
                 else ([], s))"

definition match_unsigned :: "jstr \<Rightarrow> (jstr \<times> jstr) option" where
  "match_unsigned s =
     (case match_digits s of None \<Rightarrow> None
      | Some (w, r) \<Rightarrow> (let (f, r') = match_fraction r in Some (w @ f, r')))"

definition match_number :: "jstr \<Rightarrow> (jstr \<times> jstr) option" where
  "match_number s =
     (case s of [] \<Rightarrow> None
      | c # r \<Rightarrow> if c = 0x2D then map_option (\<lambda>(m, r). (c # m, r)) (match_unsigned r) else match_unsigned s)"

datatype token = Plain code_unit | Str jstr jstr | Word jstr | Num jstr

text \<open>The match at the head of a text that follows \<open>p\<close>, with what is left.\<close>

definition next_token :: "code_unit option \<Rightarrow> code_unit \<Rightarrow> jstr \<Rightarrow> token \<times> jstr" where
  "next_token p c s =
     (case match_string (c # s) of
        Some (m, r) \<Rightarrow> (let (k, r') = match_colon r in (Str m k, r'))
      | None \<Rightarrow>
          (case match_word p (c # s) of
             Some (m, r) \<Rightarrow> (Word m, r)
           | None \<Rightarrow> (case match_number (c # s) of
                        Some (m, r) \<Rightarrow> (Num m, r)
                      | None \<Rightarrow> (Plain c, s))))"

fun token_text :: "token \<Rightarrow> jstr" where
  "token_text (Plain c) = [c]"
| "token_text (Str s k) = s @ k"
| "token_text (Word s) = s"
| "token_text (Num s) = s"

text \<open>The scan makes progress, and its matches are pieces of the text.\<close>

lemma string_rest_split: "string_rest s = Some (m, r) \<Longrightarrow> s = m @ r \<and> m \<noteq> []"
  by (induction s arbitrary: m r rule: string_rest.induct) (auto split: if_splits)

lemma match_string_split: "match_string s = Some (m, r) \<Longrightarrow> s = m @ r \<and> m \<noteq> []"
  using string_rest_split by (auto simp: match_string_def split: list.splits if_splits)

lemma match_colon_split: "match_colon s = (k, r) \<Longrightarrow> s = k @ r"
  unfolding match_colon_def Let_def
  by (auto split: list.splits if_splits) (metis append.assoc append_Cons append_Nil takeWhile_dropWhile_id)

lemma match_word_split:
  assumes "match_word p s = Some (m, r)"
  shows "s = m @ r \<and> m \<noteq> []"
proof -
  have "find (\<lambda>k. word_at k s) [js ''true'', js ''false'', js ''null''] = Some m" and r: "r = drop (length m) s"
    using assms unfolding match_word_def by (auto split: if_splits simp del: find.simps)
  then have "word_at m s" "m \<in> {js ''true'', js ''false'', js ''null''}" by (auto split: if_splits)
  then have "take (length m) s = m" "m \<noteq> []" by (auto simp: word_at_def)
  then show ?thesis using r by (metis append_take_drop_id)
qed

lemma match_digits_split: "match_digits s = Some (m, r) \<Longrightarrow> s = m @ r \<and> m \<noteq> []"
  by (auto simp: match_digits_def Let_def split: if_splits)

lemma match_fraction_split: "match_fraction s = (f, r) \<Longrightarrow> s = f @ r"
  using match_digits_split by (fastforce simp: match_fraction_def split: list.splits if_splits option.splits)

lemma match_unsigned_split: "match_unsigned s = Some (m, r) \<Longrightarrow> s = m @ r \<and> m \<noteq> []"
  using match_digits_split match_fraction_split
  by (fastforce simp: match_unsigned_def split: option.splits prod.splits)

lemma match_number_split: "match_number s = Some (m, r) \<Longrightarrow> s = m @ r \<and> m \<noteq> []"
  using match_unsigned_split by (auto simp: match_number_def split: list.splits if_splits)

lemma next_token_split:
  assumes "next_token p c s = (t, r)"
  shows "c # s = token_text t @ r \<and> token_text t \<noteq> []"
proof (cases "match_string (c # s)")
  case (Some x)
  obtain m r0 k r1 where x: "x = (m, r0)" "match_colon r0 = (k, r1)" by (metis surj_pair)
  then have "t = Str m k" "r = r1" using assms Some by (simp_all add: next_token_def)
  then show ?thesis using match_string_split [of "c # s" m r0] match_colon_split [OF x(2)] Some x(1) by simp
next
  case None
  show ?thesis
  proof (cases "match_word p (c # s)")
    case (Some x)
    then show ?thesis
      using assms None match_word_split [of p "c # s"] by (auto simp: next_token_def split: prod.splits)
  next
    case none: None
    show ?thesis
      using assms None none match_number_split [of "c # s"]
      by (auto simp: next_token_def split: option.splits prod.splits)
  qed
qed

lemma next_token_shorter: "next_token p c s = (t, r) \<Longrightarrow> length r \<le> length s"
  using next_token_split [of p c s t r] arg_cong [of "c # s" "token_text t @ r" length]
  by (cases "token_text t") auto

function tokens :: "code_unit option \<Rightarrow> jstr \<Rightarrow> token list" where
  "tokens p [] = []"
| "tokens p (c # s) =
     (let (t, r) = next_token p c s in t # tokens (Some (last (token_text t))) r)"
  by pat_completeness auto
termination
  by (relation "measure (\<lambda>(p, s). length s)") (auto dest!: next_token_shorter [OF sym])

declare tokens.simps(2) [simp del]

section \<open>Highlighting\<close>

definition span :: "string \<Rightarrow> jstr \<Rightarrow> jstr" where
  "span k s = js (''<span class='' @ [CHR 0x22] @ k @ [CHR 0x22] @ ''>'') @ s @ js ''</span>''"

fun token_html :: "token \<Rightarrow> jstr" where
  "token_html (Plain c) = [c]"
| "token_html (Str s k) = (if k = [] then span ''j-s'' s else span ''j-k'' s @ k)"
| "token_html (Word s) = span ''j-b'' s"
| "token_html (Num s) = span ''j-n'' s"

definition highlight :: "jstr \<Rightarrow> jstr" where
  "highlight s = concat (map token_html (tokens None s))"

definition json_text :: "jsval \<Rightarrow> jstr" where
  "json_text v =
     (case v of JStr s \<Rightarrow> s | _ \<Rightarrow> (case pretty 0 v of None \<Rightarrow> js ''null'' | Some t \<Rightarrow> t))"

definition json_html :: "jsval \<Rightarrow> jstr" where
  "json_html v = highlight (escape_html (json_text v))"

section \<open>What a browser sees\<close>

text \<open>The text between the tags, the tags, and the characters two entities stand for.\<close>

fun strip_tags :: "bool \<Rightarrow> jstr \<Rightarrow> jstr" where
  "strip_tags tag [] = []"
| "strip_tags tag (c # s) =
     (if tag then strip_tags (c \<noteq> 0x3E) s
      else if c = 0x3C then strip_tags True s else c # strip_tags False s)"

fun tags :: "jstr option \<Rightarrow> jstr \<Rightarrow> jstr list" where
  "tags t [] = (case t of None \<Rightarrow> [] | Some u \<Rightarrow> [u])"
| "tags None (c # s) = tags (if c = 0x3C then Some [] else None) s"
| "tags (Some u) (c # s) = (if c = 0x3E then u # tags None s else tags (Some (u @ [c])) s)"

function unescape_html :: "jstr \<Rightarrow> jstr" where
  "unescape_html [] = []"
| "unescape_html (c # s) =
     (if c = 0x26 \<and> take 3 s = js ''lt;'' then 0x3C # unescape_html (drop 3 s)
      else if c = 0x26 \<and> take 4 s = js ''amp;'' then 0x26 # unescape_html (drop 4 s)
      else c # unescape_html s)"
  by pat_completeness auto
termination
  by (relation "measure length") auto

declare unescape_html.simps(2) [simp del]

section \<open>The view shows the text and nothing else\<close>

lemma tokens_text: "concat (map token_text (tokens p s)) = s"
proof (induction p s rule: tokens.induct)
  case (2 p c s)
  obtain t r where t: "next_token p c s = (t, r)" by fastforce
  have "concat (map token_text (tokens (Some (last (token_text t))) r)) = r" using 2 [OF t [symmetric] refl] .
  then show ?case
    using next_token_split [OF t, THEN conjunct1, symmetric] by (simp add: tokens.simps(2) t)
qed simp

lemma escape_html_Cons:
  "escape_html (c # s) =
     (if c = 0x26 then js ''&amp;'' else if c = 0x3C then js ''&lt;'' else [c]) @ escape_html s"
  by (simp add: escape_html_def) (simp add: js_def)

lemma escape_html_Nil [simp]: "escape_html [] = []"
  by (simp add: escape_html_def)

lemma escaped_no_tag: "0x3C \<notin> set (escape_html s)"
  by (induction s) (auto simp: escape_html_Cons, auto simp: js_def)

lemma unescape_escape: "unescape_html (escape_html s) = s"
proof (induction s)
  case (Cons c s)
  have "unescape_html (js ''&amp;'' @ t) = 0x26 # unescape_html t" "unescape_html (js ''&lt;'' @ t) = 0x3C # unescape_html t"
    for t by (simp_all add: unescape_html.simps js_def)
  then show ?case using Cons by (simp add: escape_html_Cons unescape_html.simps)
qed simp

text \<open>Plain text and the tags of the highlighter, as the two readers see them.\<close>

definition own_tags :: "jstr set" where
  "own_tags = {js (''span class='' @ [CHR 0x22] @ k @ [CHR 0x22]) |k. k \<in> {''j-k'', ''j-s'', ''j-b'', ''j-n''}} \<union>
     {js ''/span''}"

lemma strip_plain: "0x3C \<notin> set x \<Longrightarrow> strip_tags False (x @ s) = x @ strip_tags False s"
  by (induction x) auto

lemma tags_plain: "0x3C \<notin> set x \<Longrightarrow> tags None (x @ s) = tags None s"
  by (induction x) auto

lemma strip_inside: "0x3E \<notin> set t \<Longrightarrow> strip_tags True (t @ 0x3E # s) = strip_tags False s"
  by (induction t) auto

lemma tags_inside: "0x3E \<notin> set t \<Longrightarrow> tags (Some u) (t @ 0x3E # s) = (u @ t) # tags None s"
  by (induction t arbitrary: u) auto

lemma strip_tag: "0x3E \<notin> set t \<Longrightarrow> strip_tags False (0x3C # t @ 0x3E # s) = strip_tags False s"
  by (simp add: strip_inside)

lemma tags_tag: "0x3E \<notin> set t \<Longrightarrow> tags None (0x3C # t @ 0x3E # s) = t # tags None s"
  by (simp add: tags_inside)

lemma span_shape:
  "span k s = 0x3C # js (''span class='' @ [CHR 0x22] @ k @ [CHR 0x22]) @ 0x3E # s @ 0x3C # js ''/span'' @ [0x3E]"
  by (simp add: span_def js_def)

lemma class_tag: "k \<in> {''j-k'', ''j-s'', ''j-b'', ''j-n''} \<Longrightarrow> 0x3E \<notin> set (js (''span class='' @ [CHR 0x22] @ k @ [CHR 0x22]))"
  and end_tag: "0x3E \<notin> set (js ''/span'')"
  by (auto simp: js_def)

lemma span_readers:
  assumes "k \<in> {''j-k'', ''j-s'', ''j-b'', ''j-n''}" and "0x3C \<notin> set x"
  shows "strip_tags False (span k x @ s) = x @ strip_tags False s"
    and "set (tags None (span k x @ s)) \<subseteq> own_tags \<union> set (tags None s)"
proof -
  let ?o = "js (''span class='' @ [CHR 0x22] @ k @ [CHR 0x22])"
  have shape: "span k x @ s = 0x3C # ?o @ 0x3E # (x @ (0x3C # js ''/span'' @ 0x3E # s))" by (simp add: span_shape)
  show "strip_tags False (span k x @ s) = x @ strip_tags False s"
    unfolding shape by (simp only: strip_tag [OF class_tag [OF assms(1)]] strip_tag [OF end_tag] strip_plain [OF assms(2)])
  have "tags None (span k x @ s) = ?o # js ''/span'' # tags None s"
    unfolding shape by (simp only: tags_tag [OF class_tag [OF assms(1)]] tags_tag [OF end_tag] tags_plain [OF assms(2)])
  moreover have "?o \<in> own_tags" "js ''/span'' \<in> own_tags" using assms(1) unfolding own_tags_def by blast+
  ultimately show "set (tags None (span k x @ s)) \<subseteq> own_tags \<union> set (tags None s)" by auto
qed

lemma token_readers:
  assumes "0x3C \<notin> set (token_text t)"
  shows "strip_tags False (token_html t @ s) = token_text t @ strip_tags False s"
    and "set (tags None (token_html t @ s)) \<subseteq> own_tags \<union> set (tags None s)"
proof -
  have "strip_tags False (token_html t @ s) = token_text t @ strip_tags False s \<and>
      set (tags None (token_html t @ s)) \<subseteq> own_tags \<union> set (tags None s)"
  proof (cases t)
    case (Str x k)
    then have x: "0x3C \<notin> set x" "0x3C \<notin> set k" using assms by simp_all
    show ?thesis
      using Str span_readers [of "''j-s''" x s] span_readers [of "''j-k''" x "k @ s"] x strip_plain [OF x(2), of s]
        tags_plain [OF x(2), of s]
      by simp
  qed (use assms span_readers [of "''j-b''" _ s] span_readers [of "''j-n''" _ s] in auto)
  then show "strip_tags False (token_html t @ s) = token_text t @ strip_tags False s"
    and "set (tags None (token_html t @ s)) \<subseteq> own_tags \<union> set (tags None s)" by blast+
qed

lemma html_readers:
  assumes "0x3C \<notin> set (concat (map token_text ts))"
  shows "strip_tags False (concat (map token_html ts)) = concat (map token_text ts)"
    and "set (tags None (concat (map token_html ts))) \<subseteq> own_tags"
  using assms token_readers by (induction ts) fastforce+

lemma view_text: "unescape_html (strip_tags False (json_html v)) = json_text v"
  and view_tags: "set (tags None (json_html v)) \<subseteq> own_tags"
  using html_readers [of "tokens None (escape_html (json_text v))"] escaped_no_tag [of "json_text v"]
  by (simp_all add: json_html_def highlight_def tokens_text unescape_escape)

end
