(* ===== verification/Wallets_Page.thy ===== *)
theory Wallets_Page
  imports Calls
begin

text \<open>
  The wallets page: the cards of the wallets and the form that opens a wallet, with the engine
  and the store it acts on. The main fact: on the engine in the page a wallet that is opened is
  selected and listed, at the end, with the trimmed owner and the balance 0.
\<close>

section \<open>The card of a wallet\<close>

record wallet_card =
  wc_initials :: jstr
  wc_hue :: int
  wc_owner :: jsval
  wc_id :: jstr
  wc_active :: bool
  wc_balance :: jstr
  wc_currency :: jstr
  wc_version :: jstr

text \<open>\<open>None\<close>: the owner is not text and rendering its monogram throws.\<close>

definition wallet_card :: "jsval \<Rightarrow> bool \<Rightarrow> wallet_card option" where
  "wallet_card w active =
     map_option (\<lambda>(i, h).
         \<lparr>wc_initials = i, wc_hue = h, wc_owner = wallet_owner w, wc_id = shortId (wallet_id w) 12,
          wc_active = active,
          wc_balance = money_text (balance_of w) (js_string (get_field w (js ''currency''))) False,
          wc_currency = js_string (get_field w (js ''currency'')),
          wc_version = js ''v'' @ js_string (get_field w (js ''version''))\<rparr>)
       (monogram (wallet_owner w))"

text \<open>All cards, with the selected wallet marked.\<close>

definition wallet_cards :: "store \<Rightarrow> wallet_card list option" where
  "wallet_cards st =
     those (map (\<lambda>w. wallet_card w
         (case selected st of None \<Rightarrow> False | Some v \<Rightarrow> strict_eq (wallet_id w) (wallet_id v))) (st_wallets st))"

text \<open>
  The panel of the selected wallet, \<open>Some None\<close> while there is none; when it was opened (a relative
  time) is left out. \<open>None\<close>: rendering throws. Its buttons choose a kind of movement and lead to the transact page.
\<close>

record wallet_hero =
  wh_initials :: jstr
  wh_hue :: int
  wh_owner :: jsval
  wh_id :: jstr
  wh_balance :: money_parts
  wh_currency :: jstr
  wh_version :: jstr

definition wallet_hero :: "store \<Rightarrow> wallet_hero option option" where
  "wallet_hero st =
     (case selected st of
        None \<Rightarrow> Some None
      | Some w \<Rightarrow>
          map_option (\<lambda>(i, h). Some
              \<lparr>wh_initials = i, wh_hue = h, wh_owner = wallet_owner w, wh_id = js_string (wallet_id w),
               wh_balance = moneyParts (balance_of w) (js_string (get_field w (js ''currency''))),
               wh_currency = js_string (get_field w (js ''currency'')),
               wh_version = js ''v'' @ js_string (get_field w (js ''version''))\<rparr>)
            (monogram (wallet_owner w)))"

definition on_transact :: "tx_kind \<Rightarrow> tx_kind \<times> store \<Rightarrow> tx_kind \<times> store" where
  "on_transact m p = (m, go (js ''transact'') (snd p))"

section \<open>Opening a wallet\<close>

record wallets_page =
  wp_store :: store
  wp_engine :: engine
  wp_owner :: jstr
  wp_busy :: bool
  wp_error :: jsval

text \<open>A request of the page; its trace goes to the store.\<close>

definition page_request ::
  "env \<Rightarrow> fetched \<Rightarrow> http_method \<Rightarrow> jstr \<Rightarrow> jsval \<Rightarrow> wallets_page \<Rightarrow> api_result option \<times> wallets_page" where
  "page_request E net m path body pg =
     (case api_request E net m path body [] (wp_engine pg) of
        (e, None) \<Rightarrow> (None, pg\<lparr>wp_engine := e\<rparr>)
      | (e, Some r) \<Rightarrow> (Some r, pg\<lparr>wp_engine := e, wp_store := on_trace (a_trace r) (wp_store pg)\<rparr>))"

text \<open>\<open>bump()\<close>: a new revision and the wallet list once more.\<close>

definition bump_page :: "env \<Rightarrow> fetched \<Rightarrow> wallets_page \<Rightarrow> wallets_page" where
  "bump_page E net pg =
     (case page_request E net GET (js ''/wallets'') JUndef (pg\<lparr>wp_store := bump_revision (wp_store pg)\<rparr>) of
        (None, pg') \<Rightarrow> pg'
      | (Some r, pg') \<Rightarrow>
          (case refresh_wallets r (wp_store pg') of
             None \<Rightarrow> pg' | Some st \<Rightarrow> pg'\<lparr>wp_store := st\<rparr>))"

definition created_toast :: "jstr \<Rightarrow> api_result \<Rightarrow> toast" where
  "created_toast i r =
     \<lparr>to_id = i, to_tone = Ok, to_title = js ''Wallet created'',
      to_detail = Some (js_string (get_field (a_data r) (js ''id'')) @ js '' '' @ [0xB7] @ js '' HTTP '' @
        num_text (a_status r))\<rparr>"

text \<open>The selection of the answer's id; an answer without one selects nothing.\<close>

definition select_answer :: "api_result \<Rightarrow> store \<Rightarrow> store" where
  "select_answer r st =
     (let i = get_field (a_data r) (js ''id'')
      in if nullish i then st\<lparr>st_selected := None\<rparr> else select_wallet (js_string i) st)"

text \<open>After a success: the toast, the empty field, the selection and the refresh.\<close>

definition opened :: "env \<Rightarrow> fetched \<Rightarrow> api_result \<Rightarrow> wallets_page \<Rightarrow> wallets_page" where
  "opened E net r pg =
     (let e = wp_engine pg;
          st = show_toast (created_toast (uuid E (drawn e)) r) (wp_store pg)
      in bump_page E net
           (pg\<lparr>wp_engine := e\<lparr>drawn := drawn e + 1\<rparr>, wp_owner := [], wp_store := select_answer r st\<rparr>))"

text \<open>\<open>submit\<close>; an exception of the request, or of an answer \<open>null\<close>, leaves the page as it is there.\<close>

definition open_wallet :: "env \<Rightarrow> (nat \<Rightarrow> fetched) \<Rightarrow> wallets_page \<Rightarrow> wallets_page" where
  "open_wallet E net pg =
     (if trim (wp_owner pg) = [] then pg\<lparr>wp_error := JStr (js ''Give the wallet an owner name.'')\<rparr>
      else
        case page_request E (net 0) POST (js ''/wallets'') (JObj [(js ''owner'', JStr (trim (wp_owner pg)))])
               (pg\<lparr>wp_busy := True, wp_error := JNull\<rparr>) of
          (None, pg1) \<Rightarrow> pg1
        | (Some r, pg1) \<Rightarrow>
            (let pg2 = pg1\<lparr>wp_busy := False\<rparr>
             in if \<not> a_ok r then pg2\<lparr>wp_error := errMsg r\<rparr>
                else if nullish (a_data r) then pg2
                else opened E (net 1) r pg2))"

section \<open>What opening a wallet does\<close>

lemma trim_trim: "trim (trim s) = trim s"
proof -
  let ?u = "dropWhile is_space s"
  let ?d = "dropWhile is_space (rev ?u)"
  have "dropWhile is_space (rev ?d) = rev ?d"
  proof (cases ?u)
    case (Cons c t)
    then have c: "\<not> is_space c" using hd_dropWhile [of is_space s] by simp
    then have "?d = dropWhile is_space (rev t) @ [c]" using Cons by (auto simp: dropWhile_append)
    then show ?thesis using c by simp
  next
    case Nil
    then show ?thesis by (simp only: rev.simps dropWhile.simps)
  qed
  then show ?thesis by (simp add: trim_def)
qed

lemma handle_wallets: "handle E (get_request (js ''/wallets'')) s = (s, Returned (ok (WalletsBody (map snd (wallets s))) 200 []))"
  by (simp add: handle_def dispatch_def get_request_def route_of_def strip_prefix_def take_js)

text \<open>The list a refresh gives, and the selection in it.\<close>

definition listed_wallet :: "wallet \<Rightarrow> jsval" where
  "listed_wallet w = normal_item (normal_item (wallet_value w))"

lemma listed_get: "k \<noteq> js ''id'' \<Longrightarrow> k \<noteq> js ''currency'' \<Longrightarrow> get_field (listed_wallet w) k = get_field (wallet_value w) k"
proof -
  assume k: "k \<noteq> js ''id''" "k \<noteq> js ''currency''"
  obtain fs where fs: "normal_item (wallet_value w) = JObj fs" by (simp add: normal_item_def spread_with_def)
  have "get_field (normal_item (wallet_value w)) k = get_field (wallet_value w) k"
    unfolding wallet_value_def using k by (rule get_normal_item)
  then show ?thesis using get_normal_item [OF k, of fs] by (simp only: listed_wallet_def fs)
qed

lemma listed_fields [simp]:
  "wallet_id (listed_wallet w) = JStr (w_id w)" "wallet_owner (listed_wallet w) = JStr (w_owner w)"
  "balance_of (listed_wallet w) = w_balance w"
proof -
  show "wallet_id (listed_wallet w) = JStr (w_id w)"
    by (simp add: listed_wallet_def wallet_id_def normal_item_def get_spread_with string_field_def wallet_value_def)
  show "wallet_owner (listed_wallet w) = JStr (w_owner w)" "balance_of (listed_wallet w) = w_balance w"
    by (simp_all add: wallet_owner_def balance_of_def listed_get) (simp_all add: wallet_value_def as_number_def)
qed

text \<open>The refresh of the list when the engine in the page answers.\<close>

lemma bump_lists:
  obtains e t where "wallets e = wallets (wp_engine pg)"
    and "bump_page E Unreachable pg = pg\<lparr>wp_engine := e, wp_store :=
      (on_trace t (bump_revision (wp_store pg)))
        \<lparr>st_wallets := map (listed_wallet \<circ> snd) (wallets (wp_engine pg)),
         st_selected := (case st_selected (wp_store pg) of Some i \<Rightarrow> Some i
           | None \<Rightarrow> (case wallets (wp_engine pg) of [] \<Rightarrow> None | (k, w) # _ \<Rightarrow> Some (w_id w)))\<rparr>\<rparr>"
proof -
  let ?e = "wp_engine pg"
  let ?ws = "map snd (wallets ?e)"
  have "handle E (get_request (js ''/wallets'')) (?e\<lparr>ticks := ticks ?e + 1\<rparr>) =
      (?e\<lparr>ticks := ticks ?e + 1\<rparr>, Returned (ok (WalletsBody ?ws) 200 []))"
    using handle_wallets [of E "?e\<lparr>ticks := ticks ?e + 1\<rparr>"] by simp
  note h = this
  show ?thesis
  proof (rule api_get [OF h])
    fix R
    let ?e' = "?e\<lparr>ticks := ticks ?e + 1, drawn := drawn (?e\<lparr>ticks := ticks ?e + 1\<rparr>) + 1,
        ticks := ticks (?e\<lparr>ticks := ticks ?e + 1\<rparr>) + 2\<rparr>"
    assume R: "api_request E Unreachable GET (js ''/wallets'') JUndef [] ?e = (?e', Some R)"
      "a_ok R \<longleftrightarrow> 200 \<le> r_status (ok (WalletsBody ?ws) 200 []) \<and> r_status (ok (WalletsBody ?ws) 200 []) < 300"
      "normalize (body_value (r_body (ok (WalletsBody ?ws) 200 []))) = Some (a_data R)"
    have data: "a_data R = JObj [(js ''data'', JArr (map (\<lambda>w. normal_item (wallet_value w)) ?ws))]"
      using R(3) by (simp only: ok_simps normalize_body option.inject res_body.case)
    have nn: "\<not> nullish (normal_item v)" for v by (simp add: normal_item_def spread_with_def)
    have sel: "(case map listed_wallet ?ws of [] \<Rightarrow> None | w # _ \<Rightarrow> Some (js_string (get_field w (js ''id'')))) =
        (case wallets ?e of [] \<Rightarrow> None | (k, w) # _ \<Rightarrow> Some (w_id w))"
      using listed_fields(1) by (simp add: wallet_id_def split: list.split prod.split)
    have "refresh_wallets R st = Some (st\<lparr>st_wallets := map listed_wallet ?ws,
        st_selected := (case st_selected st of Some i \<Rightarrow> Some i
          | None \<Rightarrow> (case wallets ?e of [] \<Rightarrow> None | (k, w) # _ \<Rightarrow> Some (w_id w)))\<rparr>)" for st
      using R(2) nn sel by (cases "st_selected st") (simp_all add: refresh_wallets_def data list_ex_iff listed_wallet_def [symmetric] comp_def Let_def)
    then show ?thesis
      using R(1) by (intro that [of ?e' "a_trace R"])
        (simp_all add: bump_page_def page_request_def on_trace_def bump_revision_def comp_def)
  qed
qed

text \<open>A blank owner is refused by the form: nothing is sent.\<close>

lemma blank_owner: "trim (wp_owner pg) = [] \<Longrightarrow> wp_engine (open_wallet E net pg) = wp_engine pg \<and>
    wp_store (open_wallet E net pg) = wp_store pg"
  by (simp add: open_wallet_def)

lemma open_wallet_ok:
  assumes r: "ready E N n 5 (wp_engine pg)" and owner: "trim (wp_owner pg) \<noteq> []"
  obtains w where "w_owner w = trim (wp_owner pg)" and "w_balance w = 0"
    and "wallets (wp_engine (open_wallet E no_net pg)) = wallets (wp_engine pg) @ [(w_id w, w)]"
    and "w_id w \<notin> set (map_keys (wallets (wp_engine pg)))"
    and "st_selected (wp_store (open_wallet E no_net pg)) = Some (w_id w)"
    and "st_wallets (wp_store (open_wallet E no_net pg)) =
      map (listed_wallet \<circ> snd) (wallets (wp_engine pg)) @ [listed_wallet w]"
    and "wp_owner (open_wallet E no_net pg) = []" and "wp_error (open_wallet E no_net pg) = JNull"
    and "\<not> wp_busy (open_wallet E no_net pg)"
proof -
  let ?body = "JObj [(js ''owner'', JStr (trim (wp_owner pg)))]"
  let ?x = "\<lparr>lx_eng = wp_engine pg, lx_log = [], lx_fx = None\<rparr>"
  have o: "trim (js_string (coalesce (get_field ?body (js ''owner'')) (JStr []))) = trim (wp_owner pg)"
    by (simp add: coalesce_def trim_trim)
  have rx: "ready E N n 5 (lx_eng ?x)" using r by simp
  obtain R y w where y: "lab_call E no_net [] POST (js ''/wallets'') ?body [] True ?x = (Inr R, y)" "a_ok R"
      "w_balance w = 0" "w_id w \<notin> set (map_keys (wallets (wp_engine pg)))"
      "wallets (lx_eng y) = wallets (wp_engine pg) @ [(w_id w, w)]" "a_data R = wallet_value w"
      "w_owner w = trim (wp_owner pg)"
    by (rule create_step [OF rx, of ?body "[]" True]) (use owner o in auto)
  have req: "api_request E Unreachable POST (js ''/wallets'') ?body [] (wp_engine pg) = (lx_eng y, Some R)"
    using y(1) by (auto simp: lab_call_def split: prod.splits option.splits)
  have i: "get_field (a_data R) (js ''id'') = JStr (w_id w)" using y(6) by (simp add: wallet_value_def)
  define pg1 where "pg1 = pg\<lparr>wp_error := JNull, wp_busy := False,
      wp_engine := (lx_eng y)\<lparr>drawn := drawn (lx_eng y) + 1\<rparr>, wp_owner := [],
      wp_store := select_wallet (w_id w) (show_toast (created_toast (uuid E (drawn (lx_eng y))) R)
        (on_trace (a_trace R) (wp_store pg)))\<rparr>"
  have "open_wallet E no_net pg = bump_page E Unreachable pg1"
    using owner y(2,6) i by (simp add: open_wallet_def page_request_def req opened_def select_answer_def pg1_def Let_def)
  moreover have "wallets (wp_engine pg1) = wallets (wp_engine pg) @ [(w_id w, w)]" "st_selected (wp_store pg1) = Some (w_id w)"
    "wp_owner pg1 = []" "wp_error pg1 = JNull" "\<not> wp_busy pg1"
    using y(5) by (simp_all add: pg1_def select_wallet_def)
  moreover obtain e t where "wallets e = wallets (wp_engine pg1)"
      "bump_page E Unreachable pg1 = pg1\<lparr>wp_engine := e, wp_store :=
        (on_trace t (bump_revision (wp_store pg1)))\<lparr>st_wallets := map (listed_wallet \<circ> snd) (wallets (wp_engine pg1)),
         st_selected := (case st_selected (wp_store pg1) of Some i \<Rightarrow> Some i
           | None \<Rightarrow> (case wallets (wp_engine pg1) of [] \<Rightarrow> None | (k, w) # _ \<Rightarrow> Some (w_id w)))\<rparr>\<rparr>"
    by (rule bump_lists [of pg1 E])
  ultimately show ?thesis using that [of w] y(3,4,7) by simp
qed

text \<open>The selected wallet is the new one.\<close>

lemma opened_selected:
  assumes "st_wallets st = map (listed_wallet \<circ> snd) ws @ [listed_wallet w]" and "st_selected st = Some (w_id w)"
    and "\<forall>(k, v) \<in> set ws. w_id v = k" and "w_id w \<notin> set (map_keys ws)"
  shows "selected st = Some (listed_wallet w)"
proof -
  have "find (\<lambda>v. wallet_id v = JStr (w_id w)) (map (listed_wallet \<circ> snd) ws) = None"
    using assms(3,4) by (force simp: find_None_iff)
  then have "find (\<lambda>v. wallet_id v = JStr (w_id w)) (st_wallets st) = Some (listed_wallet w)"
    unfolding assms(1) by (induction ws) (auto split: if_splits)
  then show ?thesis by (simp add: selected_def assms(2))
qed

end
