(* ===== verification/Shell.thy ===== *)
theory Shell
  imports Dashboard
begin

text \<open>
  The frame around the pages: the engine badge, the rail, the top bar, the wallet switcher, the
  trace dock, the toasts and the command palette, with what a click or a key does to the store.
  The facts: the palette runs an item only when it is on its list, no action of the frame or of a
  page leads to a view that does not exist, and when exactly the page in use (\<open>use_frame\<close>: the top
  bar is rendered after every action) stays up.
\<close>

section \<open>Badge, rail and toasts\<close>

datatype lamp = LampGrey | LampRed | LampGreen | LampAmber

definition engine_badge :: "bool \<Rightarrow> store \<Rightarrow> lamp \<times> jstr option" where
  "engine_badge small st =
     (if st_mode st = Probing then LampGrey else if \<not> truthy (st_health st) then LampRed
      else if st_mode st = Live then LampGreen else LampAmber,
      if small then None else Some (badge_label st))"

text \<open>The sections of the rail by group, with their numbers and the active one.\<close>

definition nav_groups :: "(jstr \<times> jstr list) list" where
  "nav_groups =
     [(js ''Operate'', map js [''overview'', ''wallets'', ''transact'', ''ledger'']),
      (js ''Verify'', map js [''lab'', ''console''])]"

record rail_item =
  ri_view :: jstr
  ri_label :: jstr
  ri_number :: jstr
  ri_active :: bool

definition nav_number :: "jstr \<Rightarrow> nat" where
  "nav_number v = length (takeWhile (\<lambda>(i, label, blurb). i \<noteq> v) NAV) + 1"

definition rail_items :: "store \<Rightarrow> (jstr \<times> rail_item list) list" where
  "rail_items st =
     map (\<lambda>(g, vs). (g,
       map (\<lambda>(i, label, blurb).
              \<lparr>ri_view = i, ri_label = label, ri_number = js ''0'' @ dec (nav_number i), ri_active = (st_view st = i)\<rparr>)
         (filter (\<lambda>(i, label, blurb). i \<in> set vs) NAV))) nav_groups"

text \<open>The value that is rendered.\<close>

definition rail_version :: "store \<Rightarrow> jsval" where
  "rail_version st = coalesce (get_field (st_health st) (js ''version'')) (JStr [0x2014])"

definition rail_note :: "store \<Rightarrow> jstr \<times> jstr" where
  "rail_note st =
     ((case st_health_ms st of None \<Rightarrow> [] | Some ms \<Rightarrow> ms_text ms),
      (case st_mode st of
         Live \<Rightarrow> js ''Connected to the Go engine on this origin.''
       | Sim \<Rightarrow> js ''Running against the in-memory mock engine. Every trace is labelled SIM.''
       | Probing \<Rightarrow> js ''Probing /api/v1/health'' @ [0x2026]))"

definition shown_toasts :: "store \<Rightarrow> (tone \<times> jstr \<times> jstr option) list" where
  "shown_toasts st =
     map (\<lambda>t. (to_tone t, to_title t,
                 case to_detail t of None \<Rightarrow> None | Some d \<Rightarrow> if d = [] then None else Some d)) (st_toasts st)"

section \<open>Top bar and wallet switcher\<close>

text \<open>The button: the owner of the selected wallet, when it has one.\<close>

record switcher_button =
  sb_initials :: jstr
  sb_hue :: int
  sb_owner :: jsval
  sb_balance :: jstr

definition switcher_button :: "store \<Rightarrow> switcher_button option" where
  "switcher_button st =
     (let owner = (case selected st of None \<Rightarrow> JUndef | Some w \<Rightarrow> wallet_owner w)
      in map_option (\<lambda>(i, h).
           \<lparr>sb_initials = i, sb_hue = h, sb_owner = coalesce owner (JStr (js ''No wallet'')),
            sb_balance = (case selected st of None \<Rightarrow> [0x2014]
              | Some w \<Rightarrow> money_text (balance_of w) (js_string (get_field w (js ''currency''))) False)\<rparr>)
         (monogram (coalesce owner (JStr (js ''?'')))))"

record switcher_row =
  sr_initials :: jstr
  sr_hue :: int
  sr_owner :: jsval
  sr_id :: jstr
  sr_balance :: jstr
  sr_selected :: bool

definition switcher_row :: "store \<Rightarrow> jsval \<Rightarrow> switcher_row option" where
  "switcher_row st w =
     map_option (\<lambda>(i, h).
         \<lparr>sr_initials = i, sr_hue = h, sr_owner = wallet_owner w, sr_id = js ''ID #'' @ js_string (wallet_id w),
          sr_balance = money_text (balance_of w) (js_string (get_field w (js ''currency''))) False,
          sr_selected = (case selected st of None \<Rightarrow> False | Some v \<Rightarrow> strict_eq (wallet_id w) (wallet_id v))\<rparr>)
       (monogram (wallet_owner w))"

text \<open>The state of the switcher is whether it is open and its filter, which survives closing.\<close>

definition switcher_rows :: "bool \<times> jstr \<Rightarrow> store \<Rightarrow> switcher_row list option" where
  "switcher_rows sw st =
     Option.bind (switcher_list (snd sw) (st_wallets st)) (\<lambda>ws.
       if fst sw then those (map (switcher_row st) ws) else Some [])"

text \<open>
  The bar with the switcher in it; \<open>None\<close>: rendering throws, because the view has no section or an
  owner that is shown or searched is not text.
\<close>

record top_bar =
  tb_number :: jstr
  tb_label :: jstr
  tb_blurb :: jstr
  tb_button :: switcher_button
  tb_rows :: "switcher_row list"
  tb_accounts :: jstr

definition top_bar :: "bool \<times> jstr \<Rightarrow> store \<Rightarrow> top_bar option" where
  "top_bar sw st =
     Option.bind (find (\<lambda>(i, label, blurb). i = st_view st) NAV) (\<lambda>(i, label, blurb).
       Option.bind (switcher_button st) (\<lambda>b.
         map_option (\<lambda>rows.
             \<lparr>tb_number = js ''0'' @ dec (nav_number i), tb_label = label, tb_blurb = blurb, tb_button = b,
              tb_rows = rows, tb_accounts = dec (length (st_wallets st)) @ js '' accounts''\<rparr>)
           (switcher_rows sw st)))"

datatype switcher_event = SwToggle | SwType jstr | SwPick nat | SwOutside

fun switcher_step :: "switcher_event \<Rightarrow> (bool \<times> jstr) \<times> store \<Rightarrow> (bool \<times> jstr) \<times> store" where
  "switcher_step SwToggle ((open, q), st) = ((\<not> open, []), st)"
| "switcher_step (SwType t) ((open, q), st) = (if open then ((True, t), st) else ((open, q), st))"
| "switcher_step (SwPick i) ((open, q), st) =
     (case (open, switcher_list q (st_wallets st)) of
        (True, Some ws) \<Rightarrow>
          (if i < length ws then ((False, q), select_wallet (js_string (wallet_id (ws ! i))) st)
           else ((open, q), st))
      | _ \<Rightarrow> ((open, q), st))"
| "switcher_step SwOutside ((open, q), st) = ((False, q), st)"

section \<open>The trace dock\<close>

record dock_line =
  dl_id :: jstr
  dl_time :: jstr
  dl_method :: jstr
  dl_tone :: badge_tone
  dl_path :: jstr
  dl_ms :: jstr
  dl_replayed :: bool

definition header_set :: "headers \<Rightarrow> string \<Rightarrow> bool" where
  "header_set hs k = (case map_get hs (js k) of None \<Rightarrow> False | Some v \<Rightarrow> v \<noteq> [])"

definition dock_line :: "(int \<Rightarrow> jstr) \<Rightarrow> trace \<Rightarrow> dock_line" where
  "dock_line tm t =
     \<lparr>dl_id = tr_id t, dl_time = take 8 (tm (tr_at t)), dl_method = method_text (tr_method t),
      dl_tone = status_tone (tr_status t), dl_path = tr_path t, dl_ms = ms_text (tr_ms t),
      dl_replayed = header_set (tr_response_headers t) ''idempotent-replayed''\<rparr>"

text \<open>The open list, the last request and the count.\<close>

definition trace_dock :: "(int \<Rightarrow> jstr) \<Rightarrow> store \<Rightarrow> dock_line list \<times> dock_line option \<times> jstr" where
  "trace_dock tm st =
     (map (dock_line tm) (take 30 (st_traces st)),
      (case st_traces st of [] \<Rightarrow> None | t # _ \<Rightarrow> Some (dock_line tm t)),
      dec (length (st_traces st)) @ js '' req'')"

definition click_trace :: "nat \<Rightarrow> store \<Rightarrow> store" where
  "click_trace i st =
     (if i < length (take 30 (st_traces st)) then go (js ''console'') (set_focus (Some (tr_id (st_traces st ! i))) st)
      else st)"

section \<open>The command palette\<close>

definition run_target :: "target \<Rightarrow> store \<Rightarrow> store" where
  "run_target t st =
     (case t of Section v \<Rightarrow> go v st | Wallet i \<Rightarrow> go (js ''wallets'') (select_wallet i st))"

text \<open>Each row: where it leads, its two lines, and whether it is highlighted.\<close>

definition palette_rows :: "jstr \<times> int \<Rightarrow> store \<Rightarrow> (jstr \<times> jsval \<times> jstr \<times> bool) list option" where
  "palette_rows p st =
     (case p of (q, idx) \<Rightarrow>
        map_option (\<lambda>items.
            map (\<lambda>(i, it). (case pi_target it of Section v \<Rightarrow> js ''Go to'' | Wallet w \<Rightarrow> js ''Wallet'',
                             pi_label it, pi_sub it, int i = idx)) (enumerate 0 items))
          (palette_items q (st_wallets st)))"

datatype palette_event =
    PlShortcut
  | PlOpen
  | PlBackdrop
  | PlType jstr
  | PlDown
  | PlUp
  | PlEnter
  | PlEscape
  | PlHover nat
  | PlClick nat

text \<open>The state is the query and the index of an open palette, with the store.\<close>

fun palette_step :: "palette_event \<Rightarrow> (jstr \<times> int) option \<times> store \<Rightarrow> (jstr \<times> int) option \<times> store" where
  "palette_step PlShortcut (None, st) = (Some ([], 0), st)"
| "palette_step PlShortcut (Some p, st) = (None, st)"
| "palette_step PlOpen (None, st) = (Some ([], 0), st)"
| "palette_step PlOpen (Some p, st) = (Some p, st)"
| "palette_step e (None, st) = (None, st)"
| "palette_step PlBackdrop (Some p, st) = (None, st)"
| "palette_step PlEscape (Some p, st) = (None, st)"
| "palette_step (PlType q) (Some p, st) = (Some (q, 0), st)"
| "palette_step PlDown (Some (q, i), st) = (Some (q, arrow_down (length (palette_list q (st_wallets st))) i), st)"
| "palette_step PlUp (Some (q, i), st) = (Some (q, arrow_up i), st)"
| "palette_step PlEnter (Some (q, i), st) =
     (case enter_key (palette_list q (st_wallets st)) i of
        None \<Rightarrow> (Some (q, i), st) | Some t \<Rightarrow> (None, run_target t st))"
| "palette_step (PlHover j) (Some (q, i), st) =
     (if j < length (palette_list q (st_wallets st)) then (Some (q, int j), st) else (Some (q, i), st))"
| "palette_step (PlClick j) (Some (q, i), st) =
     (case enter_key (palette_list q (st_wallets st)) (int j) of
        None \<Rightarrow> (Some (q, i), st) | Some t \<Rightarrow> (None, run_target t st))"

section \<open>Pages\<close>

text \<open>The page that is shown; the Systems Lab stays mounted, hidden on the other views.\<close>

definition mounted :: "store \<Rightarrow> (jstr \<times> bool) list" where
  "mounted st =
     (if st_view st \<in> set (map js [''overview'', ''wallets'', ''transact'', ''ledger'', ''console''])
      then [(st_view st, True)] else []) @
     [(js ''lab'', st_view st = js ''lab'')]"

text \<open>The buttons that lead from one page to another.\<close>

datatype page_link = ToLab | ToTransact | ToLedger

definition follow_link :: "page_link \<Rightarrow> store \<Rightarrow> store" where
  "follow_link l st =
     go (case l of ToLab \<Rightarrow> js ''lab'' | ToTransact \<Rightarrow> js ''transact'' | ToLedger \<Rightarrow> js ''ledger'') st"

section \<open>Navigation\<close>

datatype action =
    ActRail nat
  | ActPalette palette_event
  | ActSwitcher switcher_event
  | ActTrace nat
  | ActLink page_link
  | ActStore event

record frame =
  fr_store :: store
  fr_palette :: "(jstr \<times> int) option"
  fr_switcher :: "bool \<times> jstr"

text \<open>Events of the store other than navigation come from its callbacks.\<close>

fun act :: "action \<Rightarrow> frame \<Rightarrow> frame" where
  "act (ActRail i) f = (if i < length NAV then f\<lparr>fr_store := go (fst (NAV ! i)) (fr_store f)\<rparr> else f)"
| "act (ActPalette e) f =
     (let (p, st) = palette_step e (fr_palette f, fr_store f) in f\<lparr>fr_palette := p, fr_store := st\<rparr>)"
| "act (ActSwitcher e) f =
     (let (p, st) = switcher_step e (fr_switcher f, fr_store f) in f\<lparr>fr_switcher := p, fr_store := st\<rparr>)"
| "act (ActTrace i) f = f\<lparr>fr_store := click_trace i (fr_store f)\<rparr>"
| "act (ActLink l) f = f\<lparr>fr_store := follow_link l (fr_store f)\<rparr>"
| "act (ActStore e) f = (case e of EvGo v \<Rightarrow> f | _ \<Rightarrow> f\<lparr>fr_store := on_event e (fr_store f)\<rparr>)"

definition views :: "jstr set" where
  "views = set (map fst NAV)"

definition known_view :: "frame \<Rightarrow> bool" where
  "known_view f \<longleftrightarrow> st_view (fr_store f) \<in> views"

lemma views_eq: "views = js ` {''overview'', ''wallets'', ''transact'', ''ledger'', ''lab'', ''console''}"
  by (auto simp: views_def NAV_def)

lemma view_simps [simp]:
  "st_view (go v st) = v" "st_view (select_wallet i st) = st_view st" "st_view (set_focus x st) = st_view st"
  "st_wallets (go v st) = st_wallets st"
  by (simp_all add: go_def select_wallet_def set_focus_def)

text \<open>Sections of the palette are views, so an item that runs leads to one.\<close>

lemma palette_targets:
  assumes "it \<in> set (palette_list q ws)" and "pi_target it = Section v"
  shows "v \<in> views"
proof -
  have "it \<in> set (all_items ws)" using palette_list_subset assms(1) by blast
  then show ?thesis using assms(2)
    by (auto simp: all_items_def views_def wallet_item_def intro: rev_image_eqI)
qed

lemma enter_on_list: "enter_key items i = Some t \<Longrightarrow> \<exists>it \<in> set items. pi_target it = t"
  by (auto simp: enter_key_def split: if_splits)

lemma run_target_view:
  assumes "enter_key (palette_list q ws) i = Some t"
  shows "st_view (run_target t st) \<in> views"
proof -
  obtain it where "it \<in> set (palette_list q ws)" "pi_target it = t" using enter_on_list [OF assms] by blast
  then show ?thesis using palette_targets [of it q ws] by (cases t) (auto simp: run_target_def views_eq)
qed

lemma palette_step_view:
  "st_view st \<in> views \<Longrightarrow> palette_step e (p, st) = (p', st') \<Longrightarrow> st_view st' \<in> views"
  using run_target_view
  by (cases "(e, (p, st))" rule: palette_step.cases) (auto split: option.splits if_splits)

lemma switcher_step_view: "switcher_step e (p, st) = (p', st') \<Longrightarrow> st_view st' = st_view st"
  by (cases "(e, (p, st))" rule: switcher_step.cases) (auto split: option.splits if_splits bool.splits)

lemma event_view: "(\<And>v. e \<noteq> EvGo v) \<Longrightarrow> st_view (on_event e st) = st_view st"
  by (cases e) (auto simp: event_defs Let_def split: pinged.split option.split jsval.split list.split)

lemma act_known: "known_view f \<Longrightarrow> known_view (act a f)"
proof (cases a)
  case (ActRail i)
  then show "known_view f \<Longrightarrow> ?thesis" by (auto simp: known_view_def views_def)
next
  case (ActPalette e)
  obtain p st where "palette_step e (fr_palette f, fr_store f) = (p, st)" by fastforce
  then show "known_view f \<Longrightarrow> ?thesis"
    using palette_step_view [of "fr_store f" e "fr_palette f" p st] ActPalette by (simp add: known_view_def)
next
  case (ActSwitcher e)
  obtain p st where "switcher_step e (fr_switcher f, fr_store f) = (p, st)" by fastforce
  then show "known_view f \<Longrightarrow> ?thesis"
    using switcher_step_view [of e "fr_switcher f" "fr_store f" p st] ActSwitcher by (simp add: known_view_def)
next
  case (ActTrace i)
  then show "known_view f \<Longrightarrow> ?thesis" by (auto simp: known_view_def click_trace_def views_eq)
next
  case (ActLink l)
  then show "known_view f \<Longrightarrow> ?thesis" by (cases l) (auto simp: known_view_def follow_link_def views_eq)
next
  case (ActStore e)
  then show "known_view f \<Longrightarrow> ?thesis" by (cases e) (auto simp: known_view_def event_view)
qed

interpretation navigation: preserved act known_view
  by unfold_locales (rule act_known)

section \<open>Rendering the top bar\<close>

definition render_bar :: "frame \<Rightarrow> top_bar option" where
  "render_bar f = top_bar (fr_switcher f) (fr_store f)"

lemma those_iff: "those xs \<noteq> None \<longleftrightarrow> None \<notin> set xs"
  by (induction xs) (auto split: option.split)

text \<open>
  The owners rendering relies on: the selected wallet has a text or none, the listed wallets have
  texts, and all have when the list is filtered.
\<close>

definition owners_fit :: "frame \<Rightarrow> bool" where
  "owners_fit f \<longleftrightarrow>
     (\<forall>w. selected (fr_store f) = Some w \<longrightarrow> nullish (wallet_owner w) \<or> is_text (wallet_owner w)) \<and>
     (if trim (snd (fr_switcher f)) = []
      then fst (fr_switcher f) \<longrightarrow> (\<forall>w \<in> set (take 15 (st_wallets (fr_store f))). is_text (wallet_owner w))
      else \<forall>w \<in> set (st_wallets (fr_store f)). is_text (wallet_owner w))"

lemma switcher_button_iff:
  "switcher_button st \<noteq> None \<longleftrightarrow> (\<forall>w. selected st = Some w \<longrightarrow> nullish (wallet_owner w) \<or> is_text (wallet_owner w))"
proof (cases "selected st")
  case (Some w)
  then show ?thesis
    by (cases "wallet_owner w") (simp_all add: switcher_button_def coalesce_def monogram_def is_text_def)
qed (simp add: switcher_button_def coalesce_def monogram_def)

lemma switcher_row_iff: "switcher_row st w \<noteq> None \<longleftrightarrow> is_text (wallet_owner w)"
  using monogram_iff [of "wallet_owner w"] by (simp add: switcher_row_def)

lemma rows_iff: "those (map (switcher_row st) ws) \<noteq> None \<longleftrightarrow> (\<forall>w \<in> set ws. is_text (wallet_owner w))"
proof -
  have "None \<in> set (map (switcher_row st) ws) \<longleftrightarrow> (\<exists>w \<in> set ws. switcher_row st w = None)"
    by (force simp: image_iff)
  then show ?thesis unfolding those_iff using switcher_row_iff by metis
qed

text \<open>The top bar can be rendered exactly on a known view with owners of the right type.\<close>

lemma render_bar_iff: "render_bar f \<noteq> None \<longleftrightarrow> known_view f \<and> owners_fit f"
proof -
  let ?sw = "fr_switcher f" and ?st = "fr_store f"
  have view: "find (\<lambda>(i, label, blurb). i = st_view ?st) NAV \<noteq> None \<longleftrightarrow> known_view f"
    by (force simp: known_view_def views_def find_None_iff)
  have rows: "switcher_rows ?sw ?st \<noteq> None \<longleftrightarrow>
      (if trim (snd ?sw) = [] then fst ?sw \<longrightarrow> (\<forall>w \<in> set (take 15 (st_wallets ?st)). is_text (wallet_owner w))
       else \<forall>w \<in> set (st_wallets ?st). is_text (wallet_owner w))"
    using rows_iff by (auto simp: switcher_rows_def switcher_list_def list_ex_iff Let_def)
  show ?thesis
    unfolding owners_fit_def rows [symmetric] switcher_button_iff [symmetric] view [symmetric]
    by (cases "find (\<lambda>(i, label, blurb). i = st_view ?st) NAV"; cases "switcher_button ?st"; cases "switcher_rows ?sw ?st")
      (auto simp: render_bar_def top_bar_def)
qed

text \<open>The wallets a refresh brings: owners that are text are kept.\<close>

definition lists_texts :: "api_result \<Rightarrow> bool" where
  "lists_texts r \<longleftrightarrow> (\<forall>ws. get_field (a_data r) (js ''data'') = JArr ws \<longrightarrow> (\<forall>w \<in> set ws. is_text (wallet_owner w)))"

fun brings_texts :: "action \<Rightarrow> bool" where
  "brings_texts (ActStore (EvWallets r)) = lists_texts r"
| "brings_texts a = True"

definition text_owners :: "frame \<Rightarrow> bool" where
  "text_owners f \<longleftrightarrow> (\<forall>w \<in> set (st_wallets (fr_store f)). is_text (wallet_owner w))"

lemma owner_of_item: "is_text (wallet_owner w) \<Longrightarrow> wallet_owner (normal_item w) = wallet_owner w"
  by (cases w) (simp_all add: wallet_owner_def is_text_def normal_item_def get_spread_with)

lemma refresh_texts:
  assumes "lists_texts r" and "refresh_wallets r st = Some st'" and "\<forall>w \<in> set (st_wallets st). is_text (wallet_owner w)"
  shows "\<forall>w \<in> set (st_wallets st'). is_text (wallet_owner w)"
  using assms owner_of_item
  by (auto simp: refresh_wallets_def lists_texts_def Let_def split: jsval.splits if_splits)

text \<open>The engine in the page lists texts only.\<close>

lemma engine_lists_texts:
  assumes "normalize (body_value (WalletsBody ws)) = Some (a_data r)"
  shows "lists_texts r"
proof -
  have "is_text (wallet_owner (wallet_value w))" for w by (simp add: wallet_owner_def wallet_value_def is_text_def)
  then have "is_text (wallet_owner (normal_item (wallet_value w)))" for w using owner_of_item by metis
  moreover have "a_data r = JObj [(js ''data'', JArr (map (\<lambda>w. normal_item (wallet_value w)) ws))]"
    using assms by (simp only: normalize_body option.inject res_body.case)
  ultimately show ?thesis by (auto simp: lists_texts_def)
qed

lemma palette_step_wallets: "palette_step e (p, st) = (p', st') \<Longrightarrow> st_wallets st' = st_wallets st"
  by (cases "(e, (p, st))" rule: palette_step.cases)
    (auto simp: run_target_def go_def select_wallet_def split: option.splits if_splits target.splits)

lemma switcher_step_wallets: "switcher_step e (p, st) = (p', st') \<Longrightarrow> st_wallets st' = st_wallets st"
  by (cases "(e, (p, st))" rule: switcher_step.cases) (auto simp: select_wallet_def split: option.splits if_splits bool.splits)

lemma act_texts: "brings_texts a \<Longrightarrow> text_owners f \<Longrightarrow> text_owners (act a f)"
proof (cases a)
  case (ActPalette e)
  obtain p st where "palette_step e (fr_palette f, fr_store f) = (p, st)" by fastforce
  then show "text_owners f \<Longrightarrow> ?thesis" using palette_step_wallets ActPalette by (fastforce simp: text_owners_def)
next
  case (ActSwitcher e)
  obtain p st where "switcher_step e (fr_switcher f, fr_store f) = (p, st)" by fastforce
  then show "text_owners f \<Longrightarrow> ?thesis" using switcher_step_wallets ActSwitcher by (fastforce simp: text_owners_def)
next
  case (ActStore e)
  then show "brings_texts a \<Longrightarrow> text_owners f \<Longrightarrow> ?thesis"
    using refresh_texts
    by (cases e) (auto simp: text_owners_def event_defs split: pinged.split option.split)
qed (auto simp: text_owners_def click_trace_def follow_link_def go_def set_focus_def)

lemma acts_texts: "\<forall>a \<in> set as. brings_texts a \<Longrightarrow> text_owners f \<Longrightarrow> text_owners (fold act as f)"
  by (induction as arbitrary: f) (simp_all add: act_texts)

lemma texts_fit: "text_owners f \<Longrightarrow> owners_fit f"
  by (auto simp: owners_fit_def text_owners_def selected_def find_Some_iff dest: in_set_takeD split: option.splits)

text \<open>On a known view exactly its page is visible, on another one none.\<close>

lemma one_page: "map fst (filter snd (mounted st)) = (if st_view st \<in> views then [st_view st] else [])"
  by (auto simp: mounted_def views_eq)

text \<open>The highlighted index stays on the list while the wallets stay as they are.\<close>

definition index_ok :: "jsval list \<Rightarrow> (jstr \<times> int) option \<Rightarrow> bool" where
  "index_ok ws p \<longleftrightarrow>
     (case p of None \<Rightarrow> True
      | Some (q, i) \<Rightarrow> - 1 \<le> i \<and> i \<le> max 0 (int (length (palette_list q ws)) - 1) \<and>
          (i = - 1 \<longrightarrow> palette_list q ws = []))"

lemma palette_index:
  assumes "index_ok (st_wallets st) p" and "palette_step e (p, st) = (p', st')"
  shows "index_ok (st_wallets st') p'"
  using assms
  by (cases "(e, (p, st))" rule: palette_step.cases)
    (auto simp: index_ok_def arrow_down_def arrow_up_def min_def run_target_def select_wallet_def go_def
      split: option.splits if_splits target.splits)

text \<open>An owner that is not text takes the console down as soon as its wallet is the selected one.\<close>

lemma number_owner_throws:
  assumes "fr_store f = st" and "st_selected st = None"
    and "a_ok r" and "get_field (a_data r) (js ''data'') = JArr [JObj [(js ''owner'', JNum n)]]"
  shows "render_bar (act (ActStore (EvWallets r)) f) = None"
proof -
  let ?w = "normal_item (JObj [(js ''owner'', JNum n)])"
  have w: "wallet_id ?w = JStr (js ''undefined'')" "wallet_owner ?w = JNum n"
    by (simp_all add: wallet_id_def wallet_owner_def normal_item_def get_spread_with string_field_def)
  then have "selected (fr_store (act (ActStore (EvWallets r)) f)) = Some ?w"
    using assms by (simp add: event_defs selected_def wallet_id_def)
  then have "\<not> owners_fit (act (ActStore (EvWallets r)) f)" using w by (auto simp: owners_fit_def is_text_def)
  then show ?thesis using render_bar_iff by blast
qed

text \<open>The frame when the page is opened at the address hash \<open>#v\<close>.\<close>

definition opened_at :: "jstr \<Rightarrow> frame" where
  "opened_at v = \<lparr>fr_store = initial_store (js ''#'' @ v), fr_palette = None, fr_switcher = (False, [])\<rparr>"

lemma opened_at_known: "known_view (opened_at v) \<longleftrightarrow> v = [] \<or> v \<in> views"
  by (auto simp: known_view_def opened_at_def initial_store_def views_eq Let_def js_def)

text \<open>
  The page in use: the top bar is rendered before the first action and after each one. \<open>None\<close>: one
  of these renderings throws, and React takes the page down.
\<close>

fun use_frame :: "action list \<Rightarrow> frame \<Rightarrow> frame option" where
  "use_frame [] f = (if render_bar f = None then None else Some f)"
| "use_frame (a # as) f = (if render_bar f = None then None else use_frame as (act a f))"

lemma all_le_Suc: "(\<forall>i \<le> Suc n. P i) \<longleftrightarrow> P 0 \<and> (\<forall>i \<le> n. P (Suc i))"
  using less_Suc_eq_0_disj by (auto simp flip: less_Suc_eq_le)

lemma use_frame_iff:
  "use_frame as f = (if \<forall>i \<le> length as. render_bar (fold act (take i as) f) \<noteq> None then Some (fold act as f) else None)"
proof (induction as arbitrary: f)
  case (Cons a as)
  show ?case
    by (simp add: all_le_Suc Cons.IH [of "act a f"] del: not_None_eq)
qed simp

text \<open>The page stays up on a known view as long as the owners are of the right type.\<close>

lemma use_frame_known:
  assumes "known_view f"
  shows "use_frame as f =
    (if \<forall>i \<le> length as. owners_fit (fold act (take i as) f) then Some (fold act as f) else None)"
proof -
  have "known_view (fold act (take i as) f)" for i using navigation.run_inv assms by blast
  then show ?thesis by (simp add: use_frame_iff render_bar_iff del: not_None_eq)
qed

lemma use_frame_unknown: "\<not> known_view f \<Longrightarrow> use_frame as f = None"
  by (cases as) (use render_bar_iff in auto)

end
