(* ===== verification/Console_View.thy ===== *)
theory Console_View
  imports Json_View Wallets_Page Shell
begin

text \<open>
  The page of the API console: its form and buttons, the rows of the list, the statistics and
  the detail of a request with its headers and body. The facts: a trace holds what was sent and
  what was answered, and after a request was sent from the console it is the one that is shown,
  also when the refresh that follows a POST has recorded another one.
\<close>

section \<open>What a trace holds\<close>

lemma deliver_traced:
  assumes "deliver E t0 m path hs body status rhs raw live s = (s', Some R)"
  shows "a_status R = status" and "a_headers R = rhs" and "normalize raw = Some (a_data R)"
    and "a_trace R = made_trace E t0 m path hs body status rhs (a_data R) live s" and "drawn s' = drawn s + 1"
  using assms by (auto simp: deliver_def split: option.splits)

text \<open>The request as sent, the answer as given, from the network or from the engine.\<close>

lemma request_traced:
  assumes "api_request E net m path body extra s = (s', Some R)"
  obtains i extra' se where "drawn s \<le> i" and "drawn s' = i + 1" and "tr_id (a_trace R) = uuid E i"
    and "se = s\<lparr>drawn := drawn se, ticks := ticks se\<rparr>"
    and "tr_method (a_trace R) = m" and "tr_path (a_trace R) = path" and "tr_request_body (a_trace R) = body"
    and "tr_request_headers (a_trace R) = request_headers body extra'"
    and "tr_status (a_trace R) = a_status R" and "tr_response_headers (a_trace R) = a_headers R"
    and "tr_response_body (a_trace R) = a_data R"
    and "case net of
        Reply status rhs raw \<Rightarrow> tr_live (a_trace R) \<and> a_status R = status \<and> a_headers R = rhs \<and> normalize raw = Some (a_data R)
      | Unreachable \<Rightarrow> \<not> tr_live (a_trace R) \<and>
          (\<exists>s1 r. handle E (sim_request m path body (request_headers body extra')) se = (s1, Returned r) \<and>
             a_status R = r_status r \<and> a_headers R = r_headers r \<and> normalize (body_value (r_body r)) = Some (a_data R))"
proof -
  obtain extra' s1 where k: "with_key E m extra s = (extra', s1)" by fastforce
  have ge: "drawn s \<le> drawn s1" using k by (auto simp: with_key_def split: if_splits)
  have se: "s1\<lparr>ticks := t\<rparr> = s\<lparr>drawn := drawn s1, ticks := t\<rparr>" for t using k by (auto simp: with_key_def split: if_splits)
  let ?hs = "request_headers body extra'" and ?t0 = "ticks s1" and ?s0 = "s1\<lparr>ticks := ticks s1 + 1\<rparr>"
  show thesis
  proof (cases net)
    case Unreachable
    obtain s2 out where h: "handle E (sim_request m path body ?hs) ?s0 = (s2, out)" by fastforce
    obtain r where r: "out = Returned r" using assms h k Unreachable by (cases out) (auto simp: api_request_def Let_def)
    have d: "deliver E ?t0 m path ?hs body (r_status r) (r_headers r) (body_value (r_body r)) False s2 = (s', Some R)"
      using assms h r k Unreachable by (simp add: api_request_def Let_def)
    have "drawn ?s0 \<le> drawn s2" using serve_drawn h by (metis serve_def fst_conv)
    then show thesis
      using deliver_traced [OF d] ge h r Unreachable
      by (intro that [where i = "drawn s2" and extra' = extra' and se = "?s0"]) (auto simp: made_trace_def se)
  next
    case (Reply status rhs raw)
    then have d: "deliver E ?t0 m path ?hs body status rhs raw True ?s0 = (s', Some R)"
      using assms k by (simp add: api_request_def Let_def)
    show thesis
      using deliver_traced [OF d] ge Reply
      by (intro that [where i = "drawn ?s0" and extra' = extra' and se = "?s0"]) (simp_all add: made_trace_def se)
  qed
qed

section \<open>The page\<close>

record console_page =
  cp_store :: store
  cp_engine :: engine
  cp_form :: console_form
  cp_filter :: status_filter
  cp_query :: jstr
  cp_active :: "jstr option"
  cp_error :: "jstr option"
  cp_busy :: bool

definition open_console :: "store \<Rightarrow> engine \<Rightarrow> console_page" where
  "open_console st e =
     \<lparr>cp_store = st, cp_engine = e,
      cp_form = \<lparr>cf_preset = js ''GET /health'', cf_method = GET, cf_path = js ''/health'', cf_key = [], cf_body = []\<rparr>,
      cp_filter = All, cp_query = [], cp_active = st_focus st, cp_error = None, cp_busy = False\<rparr>"

text \<open>A trace that was clicked in the dock becomes the active one.\<close>

definition take_focus :: "console_page \<Rightarrow> console_page" where
  "take_focus pg =
     (case st_focus (cp_store pg) of
        None \<Rightarrow> pg
      | Some i \<Rightarrow> if i = [] then pg else pg\<lparr>cp_active := Some i, cp_store := set_focus None (cp_store pg)\<rparr>)"

definition choose_preset :: "env \<Rightarrow> jstr \<Rightarrow> console_page \<Rightarrow> console_page option" where
  "choose_preset E name pg =
     map_option (\<lambda>cf.
         pg\<lparr>cp_form := cf, cp_error := None,
            cp_engine := (if cf_key cf = [] then cp_engine pg
              else (cp_engine pg)\<lparr>drawn := drawn (cp_engine pg) + 1\<rparr>)\<rparr>)
       (apply_preset name (cp_store pg) (idemKey E (drawn (cp_engine pg))))"

definition toggle_method :: "console_page \<Rightarrow> console_page" where
  "toggle_method pg = pg\<lparr>cp_form := (cp_form pg)\<lparr>cf_method := (if cf_method (cp_form pg) = GET then POST else GET)\<rparr>\<rparr>"

definition draw_console_key :: "env \<Rightarrow> console_page \<Rightarrow> console_page" where
  "draw_console_key E pg =
     (let e = cp_engine pg
      in pg\<lparr>cp_form := (cp_form pg)\<lparr>cf_key := idemKey E (drawn e)\<rparr>, cp_engine := e\<lparr>drawn := drawn e + 1\<rparr>\<rparr>)"

text \<open>\<open>bump()\<close> from the console.\<close>

definition bump_console :: "env \<Rightarrow> fetched \<Rightarrow> console_page \<Rightarrow> console_page" where
  "bump_console E net pg =
     (let p = bump_page E net \<lparr>wp_store = cp_store pg, wp_engine = cp_engine pg, wp_owner = [], wp_busy = False,
                wp_error = JNull\<rparr>
      in pg\<lparr>cp_store := wp_store p, cp_engine := wp_engine p\<rparr>)"

text \<open>\<open>send\<close>; a request that throws leaves the page busy.\<close>

definition press_send :: "env \<Rightarrow> (nat \<Rightarrow> fetched) \<Rightarrow> (jstr \<Rightarrow> jstr + jsval) \<Rightarrow> console_page \<Rightarrow> console_page" where
  "press_send E net parse pg =
     (case console_send E (net 0) parse (cp_form pg) (cp_engine pg) of
        Inl e \<Rightarrow> pg\<lparr>cp_error := Some e\<rparr>
      | Inr (e, None) \<Rightarrow> pg\<lparr>cp_error := None, cp_busy := True, cp_engine := e\<rparr>
      | Inr (e, Some r) \<Rightarrow>
          (let pg' = pg\<lparr>cp_error := None, cp_busy := False, cp_engine := e,
                        cp_store := on_trace (a_trace r) (cp_store pg), cp_active := Some (tr_id (a_trace r))\<rparr>
           in if cf_method (cp_form pg) = POST then bump_console E (net 1) pg' else pg'))"

definition click_row :: "nat \<Rightarrow> console_page \<Rightarrow> console_page" where
  "click_row i pg =
     (let ts = trace_list (cp_filter pg) (cp_query pg) (st_traces (cp_store pg))
      in if i < length ts then pg\<lparr>cp_active := Some (tr_id (ts ! i))\<rparr> else pg)"

definition clear_console :: "console_page \<Rightarrow> console_page" where
  "clear_console pg = pg\<lparr>cp_store := clear_traces (cp_store pg)\<rparr>"

definition shown_trace :: "console_page \<Rightarrow> trace option" where
  "shown_trace pg = active_trace (cp_active pg) (cp_filter pg) (cp_query pg) (st_traces (cp_store pg))"

section \<open>What it shows\<close>

definition status_badge :: "int \<Rightarrow> badge_tone \<times> jstr" where
  "status_badge s = (status_tone s, if s = 0 then js ''ERR'' else num_text s)"

definition stat_tiles :: "trace list \<Rightarrow> (jstr \<times> jstr \<times> bool) list" where
  "stat_tiles ts =
     (let s = stats ts
      in [(js ''Requests'', dec (ts_n s), False), (js ''p50 latency'', ms_text (ts_p50 s), False),
          (js ''p99 latency'', ms_text (ts_p99 s), False), (js ''Non-2xx'', dec (ts_err s), 0 < ts_err s)])"

record trace_row =
  tw_method :: jstr
  tw_path :: jstr
  tw_info :: jstr
  tw_status :: "badge_tone \<times> jstr"
  tw_active :: bool

definition trace_row :: "(int \<Rightarrow> jstr) \<Rightarrow> trace option \<Rightarrow> trace \<Rightarrow> trace_row" where
  "trace_row tm active t =
     \<lparr>tw_method = method_text (tr_method t), tw_path = replace_first (js ''/api/v1'') [] (tr_path t),
      tw_info = tm (tr_at t) @ js '' '' @ [0xB7] @ js '' '' @ ms_text (tr_ms t) @
        (if header_set (tr_response_headers t) ''idempotent-replayed'' then js '' '' @ [0xB7] @ js '' replayed'' else []),
      tw_status = status_badge (tr_status t),
      tw_active = (case active of None \<Rightarrow> False | Some a \<Rightarrow> tr_id a = tr_id t)\<rparr>"

definition console_rows :: "(int \<Rightarrow> jstr) \<Rightarrow> console_page \<Rightarrow> trace_row list" where
  "console_rows tm pg =
     map (trace_row tm (shown_trace pg)) (trace_list (cp_filter pg) (cp_query pg) (st_traces (cp_store pg)))"

definition STATUS_TEXT :: "(int \<times> jstr) list" where
  "STATUS_TEXT =
     [(0, js ''Network error''), (200, js ''OK''), (201, js ''Created''), (400, js ''Bad Request''),
      (404, js ''Not Found''), (409, js ''Conflict''), (422, js ''Unprocessable Entity''),
      (500, js ''Internal Server Error'')]"

text \<open>A line of the headers, with the mark of the ones that match \<open>/idempot/i\<close>.\<close>

definition header_lines :: "headers \<Rightarrow> (jstr \<times> jstr \<times> bool) list" where
  "header_lines hs = map (\<lambda>(k, v). (k @ js '':'', v, contains (js ''idempot'') (lower k))) hs"

datatype detail_tab = TabResponse | TabRequest | TabCurl

datatype detail_body =
    ShownCurl jstr
  | ShownParts "(jstr \<times> jstr \<times> bool) list" "jstr option"

text \<open>The body is shown as HTML, or as \<open>(empty)\<close> when there is none.\<close>

definition detail_body :: "jstr \<Rightarrow> detail_tab \<Rightarrow> trace \<Rightarrow> detail_body" where
  "detail_body origin tab t =
     (let payload = (if tab = TabResponse then tr_response_body t else tr_request_body t)
      in if tab = TabCurl then ShownCurl (curl origin t)
         else ShownParts (header_lines (if tab = TabResponse then tr_response_headers t else tr_request_headers t))
           (if payload = JUndef then None else Some (json_html payload)))"

record trace_detail =
  td_status :: "badge_tone \<times> jstr"
  td_phrase :: jstr
  td_replayed :: bool
  td_source :: "badge_tone \<times> jstr"
  td_ms :: jstr
  td_method :: jstr
  td_path :: jstr
  td_time :: jstr
  td_body :: detail_body

definition trace_detail :: "(int \<Rightarrow> jstr) \<Rightarrow> jstr \<Rightarrow> detail_tab \<Rightarrow> trace \<Rightarrow> trace_detail" where
  "trace_detail tm origin tab t =
     \<lparr>td_status = status_badge (tr_status t),
      td_phrase = (case map_of STATUS_TEXT (tr_status t) of None \<Rightarrow> [] | Some x \<Rightarrow> x),
      td_replayed = header_set (tr_response_headers t) ''idempotent-replayed'',
      td_source = (if tr_live t then (ToneOk, js ''live'') else (ToneWarn, js ''sim'')), td_ms = ms_text (tr_ms t),
      td_method = method_text (tr_method t), td_path = tr_path t, td_time = tm (tr_at t),
      td_body = detail_body origin tab t\<rparr>"

section \<open>The request that is shown\<close>

text \<open>A refresh records at most one trace, with a later id.\<close>

lemma bump_traces:
  assumes "bump_page E net pg = pg'"
  shows "st_traces (wp_store pg') = st_traces (wp_store pg) \<or>
    (\<exists>t i. st_traces (wp_store pg') = add_trace t (st_traces (wp_store pg)) \<and> tr_id t = uuid E i \<and>
       drawn (wp_engine pg) \<le> i \<and> i < drawn (wp_engine pg'))"
proof (cases "page_request E net GET (js ''/wallets'') JUndef (pg\<lparr>wp_store := bump_revision (wp_store pg)\<rparr>)")
  case (Pair r pg1)
  obtain e R where req: "api_request E net GET (js ''/wallets'') JUndef [] (wp_engine pg) = (e, R)" by fastforce
  show ?thesis
  proof (cases R)
    case None
    then show ?thesis using assms req by (simp add: bump_page_def page_request_def bump_revision_def flip: assms)
  next
    case (Some r)
    obtain i where i: "drawn (wp_engine pg) \<le> i" "drawn e = i + 1" "tr_id (a_trace r) = uuid E i"
      using request_traced [OF req [unfolded Some]] by metis
    have "st_traces st' = st_traces st" if "refresh_wallets r st = Some st'" for st st'
      using that by (auto simp: refresh_wallets_def Let_def split: jsval.splits if_splits)
    then show ?thesis
      using req Some i
      by (auto simp: bump_page_def page_request_def bump_revision_def on_trace_def Let_def split: option.split simp flip: assms)
  qed
qed

lemma shown_head: "tr_id t = i \<Longrightarrow> active_trace (Some i) f q (add_trace t ts) = Some t"
  by (simp add: active_trace_def add_trace_def numeral_eq_Suc)

lemma shown_second:
  "tr_id t = i \<Longrightarrow> tr_id u \<noteq> i \<Longrightarrow> active_trace (Some i) f q (add_trace u (add_trace t ts)) = Some t"
  by (simp add: active_trace_def add_trace_def numeral_eq_Suc)

lemma fresh_uuid: "fresh_ids E N \<Longrightarrow> i < N \<Longrightarrow> j < N \<Longrightarrow> uuid E i = uuid E j \<Longrightarrow> i = j"
  unfolding fresh_ids_def by (metis inj_onD lessThan_iff)

lemma sent_shown:
  assumes E: "fresh_ids E N" and sent: "console_send E (net 0) parse (cp_form pg) (cp_engine pg) = Inr (e, Some R)"
    and N: "drawn (cp_engine (press_send E net parse pg)) \<le> N"
  shows "shown_trace (press_send E net parse pg) = Some (a_trace R)"
proof -
  let ?pg = "pg\<lparr>cp_error := None, cp_busy := False, cp_engine := e,
      cp_store := on_trace (a_trace R) (cp_store pg), cp_active := Some (tr_id (a_trace R))\<rparr>"
  obtain body where "api_request E (net 0) (cf_method (cp_form pg)) (console_path (cp_form pg)) body
      (console_headers (cp_form pg)) (cp_engine pg) = (e, Some R)"
    using sent by (auto simp: console_send_def split: sum.splits)
  then obtain i where i: "drawn e = i + 1" "tr_id (a_trace R) = uuid E i" using request_traced by metis
  show ?thesis
  proof (cases "cf_method (cp_form pg) = POST")
    case False
    then have "press_send E net parse pg = ?pg" using sent by (simp add: press_send_def Let_def)
    then show ?thesis using shown_head by (simp add: shown_trace_def on_trace_def)
  next
    case True
    let ?w = "\<lparr>wp_store = cp_store ?pg, wp_engine = e, wp_owner = [], wp_busy = False, wp_error = JNull\<rparr>"
    let ?b = "bump_page E (net 1) ?w"
    have p: "press_send E net parse pg = ?pg\<lparr>cp_store := wp_store ?b, cp_engine := wp_engine ?b\<rparr>"
      using True sent by (simp add: press_send_def bump_console_def Let_def)
    have "shown_trace (?pg\<lparr>cp_store := wp_store ?b, cp_engine := wp_engine ?b\<rparr>) = Some (a_trace R)"
      using bump_traces [OF refl, of E "net 1" ?w]
    proof (elim disjE exE conjE)
      fix t j
      assume t: "st_traces (wp_store ?b) = add_trace t (st_traces (wp_store ?w))" "tr_id t = uuid E j"
        "drawn (wp_engine ?w) \<le> j" "j < drawn (wp_engine ?b)"
      have "j < N" using t(4) N p by simp
      then have "tr_id t \<noteq> tr_id (a_trace R)" using fresh_uuid [OF E, of i j] t(2,3) i by auto
      then show ?thesis using shown_second t(1) by (simp add: shown_trace_def on_trace_def)
    qed (simp add: shown_trace_def on_trace_def shown_head)
    then show ?thesis by (simp only: p)
  qed
qed

text \<open>What the shown trace holds, once the request was answered.\<close>

lemma press_send_answered:
  assumes "cp_error (press_send E net parse pg) = None" and "\<not> cp_busy (press_send E net parse pg)"
  obtains body e R where "console_body parse (cp_form pg) = Inr body"
    and "console_send E (net 0) parse (cp_form pg) (cp_engine pg) = Inr (e, Some R)"
    and "api_request E (net 0) (cf_method (cp_form pg)) (console_path (cp_form pg)) body
      (console_headers (cp_form pg)) (cp_engine pg) = (e, Some R)"
  using assms by (auto simp: press_send_def console_send_def split: sum.splits option.splits prod.splits)

end
