(* ===== verification/Transact.thy ===== *)
theory Transact
  imports Dashboard
begin

text \<open>
  The form that moves money: its derived values (amount, body, warnings), the submission with
  the balances read before and after, and the list of attempts. A pinned key is kept after a
  success, any other is renewed. The network of each request is a parameter; \<open>None\<close> is a
  submission that ends with an exception. The refresh of the wallet list by \<open>bump\<close> is started
  before the toast but answered after it.
\<close>

record effect =
  ef_wallet :: jsval
  ef_before :: jsval
  ef_after :: jsval

record attempt =
  at_n :: nat
  at_key :: jstr
  at_kind :: tx_kind
  at_amount :: int
  at_status :: int
  at_replayed :: bool
  at_code :: jsval
  at_message :: jsval
  at_tx_id :: jsval
  at_ms :: int
  at_effects :: "effect list"

record tx_form =
  tf_kind :: tx_kind
  tf_from :: jstr
  tf_to :: jstr
  tf_target :: jstr
  tf_amount_str :: jstr
  tf_reference :: jstr
  tf_key :: jstr
  tf_pinned :: bool
  tf_attempts :: "attempt list"

definition PATH :: "tx_kind \<Rightarrow> jstr" where
  "PATH k = (case k of Deposit \<Rightarrow> js ''/deposits'' | Withdrawal \<Rightarrow> js ''/withdrawals''
             | Transfer \<Rightarrow> js ''/transfers'')"

definition by_id :: "jsval list \<Rightarrow> jstr \<Rightarrow> jsval option" where
  "by_id ws i = find (\<lambda>w. wallet_id w = JStr i) ws"

section \<open>Effects and derived values\<close>

text \<open>The effect on \<open>selected\<close>, and the one that picks another target.\<close>

definition follow_selected :: "jstr option \<Rightarrow> tx_form \<Rightarrow> tx_form" where
  "follow_selected sel f = (case sel of None \<Rightarrow> f | Some i \<Rightarrow> f\<lparr>tf_from := i, tf_target := i\<rparr>)"

definition choose_to :: "jsval list \<Rightarrow> tx_form \<Rightarrow> tx_form" where
  "choose_to ws f =
     (if tf_to f = [] \<or> tf_to f = tf_from f then
        f\<lparr>tf_to := (case find (\<lambda>w. wallet_id w \<noteq> JStr (tf_from f)) ws of
                      None \<Rightarrow> [] | Some w \<Rightarrow> js_string (wallet_id w))\<rparr>
      else f)"

definition form_amount :: "tx_form \<Rightarrow> int option" where
  "form_amount f = parseMinor (tf_amount_str f)"

definition form_source :: "jsval list \<Rightarrow> tx_form \<Rightarrow> jsval option" where
  "form_source ws f =
     (case tf_kind f of Transfer \<Rightarrow> by_id ws (tf_from f) | Withdrawal \<Rightarrow> by_id ws (tf_target f)
      | Deposit \<Rightarrow> None)"

definition form_body :: "tx_form \<Rightarrow> jsval" where
  "form_body f =
     (let base = (js ''amount'', JNum (case form_amount f of None \<Rightarrow> 0 | Some a \<Rightarrow> a)) #
                 (if tf_reference f = [] then [] else [(js ''reference'', JStr (tf_reference f))])
      in if tf_kind f = Transfer
         then JObj ([(js ''from_wallet_id'', JStr (tf_from f)), (js ''to_wallet_id'', JStr (tf_to f))] @ base)
         else JObj ((js ''wallet_id'', JStr (tf_target f)) # base))"

definition amount_error :: "tx_form \<Rightarrow> jstr option" where
  "amount_error f =
     (if tf_amount_str f \<noteq> [] \<and> form_amount f = None
      then Some (js ''Use a positive amount with up to 2 decimals.'')
      else if form_amount f = Some 0 then Some (js ''Amount must be greater than zero.'') else None)"

definition same_error :: "tx_form \<Rightarrow> bool" where
  "same_error f \<longleftrightarrow> tf_kind f = Transfer \<and> tf_from f = tf_to f"

definition overdraft_warning :: "jsval list \<Rightarrow> tx_form \<Rightarrow> bool" where
  "overdraft_warning ws f =
     (case (form_source ws f, form_amount f) of
        (Some w, Some a) \<Rightarrow> a \<noteq> 0 \<and> balance_of w < a
      | _ \<Rightarrow> False)"

section \<open>Submission\<close>

definition affected :: "jsval list \<Rightarrow> tx_form \<Rightarrow> jsval list" where
  "affected ws f =
     List.map_filter (by_id ws) (if tf_kind f = Transfer then [tf_from f, tf_to f] else [tf_target f])"

text \<open>The reads after the movement, one after the other; \<open>None\<close>: one of them threw.\<close>

fun read_wallets ::
  "env \<Rightarrow> (nat \<Rightarrow> fetched) \<Rightarrow> nat \<Rightarrow> jsval list \<Rightarrow> engine \<Rightarrow> engine \<times> api_result list option" where
  "read_wallets E net n [] s = (s, Some [])"
| "read_wallets E net n (w # ws) s =
     (let (s1, r) = api_request E (net n) GET (js ''/wallets/'' @ js_string (wallet_id w)) JUndef [] s;
          (s2, rs) = read_wallets E net (n + 1) ws s1
      in (s2, case (r, rs) of (Some r, Some rs) \<Rightarrow> Some (r # rs) | _ \<Rightarrow> None))"

definition replayed :: "api_result \<Rightarrow> bool" where
  "replayed r \<longleftrightarrow> map_get (a_headers r) (js ''idempotent-replayed'') = Some (js ''true'')"

definition effects :: "jsval list \<Rightarrow> api_result list \<Rightarrow> effect list" where
  "effects ws rs =
     map (\<lambda>(w, r). let b = get_field w (js ''balance'')
                   in \<lparr>ef_wallet = w, ef_before = b,
                       ef_after = (if a_ok r then get_field (a_data r) (js ''balance'') else b)\<rparr>)
         (zip ws rs)"

text \<open>\<open>None\<close>: a field of an answer is read that was accepted but is \<open>null\<close>.\<close>

definition made_attempt ::
  "tx_form \<Rightarrow> jstr \<Rightarrow> int \<Rightarrow> api_result \<Rightarrow> jsval list \<Rightarrow> api_result list \<Rightarrow> attempt option" where
  "made_attempt f use_key amount r ws rs =
     (if list_ex (\<lambda>x. a_ok x \<and> nullish (a_data x)) (r # rs) then None else Some
     \<lparr>at_n = length (tf_attempts f) + 1, at_key = use_key, at_kind = tf_kind f, at_amount = amount,
      at_status = a_status r, at_replayed = replayed r,
      at_code = (if a_ok r then JUndef else errCode r),
      at_message = (if a_ok r then JUndef else errMsg r),
      at_tx_id = (if a_ok r then get_field (a_data r) (js ''id'') else JUndef),
      at_ms = tr_ms (a_trace r), at_effects = effects ws rs\<rparr>)"

definition add_attempt :: "attempt \<Rightarrow> attempt list \<Rightarrow> attempt list" where
  "add_attempt a as = take 12 (a # as)"

interpretation attempts: capped add_attempt 12 "\<lambda>as. as"
  by unfold_locales (simp_all add: add_attempt_def)

definition sent_toast :: "jstr \<Rightarrow> api_result \<Rightarrow> toast" where
  "sent_toast i r =
     (let http = js '' '' @ [0xB7] @ js '' HTTP '' @ num_text (a_status r)
      in if a_ok r then
           \<lparr>to_id = i, to_tone = (if replayed r then Info else Ok),
            to_title = (if replayed r then js ''Replayed. No new funds moved.'' else js ''Posted to ledger''),
            to_detail = Some (js_string (get_field (a_data r) (js ''id'')) @ http)\<rparr>
         else
           \<lparr>to_id = i, to_tone = Err, to_title = js ''Rejected by engine'',
            to_detail = Some (js_string (errCode r) @ http)\<rparr>)"

text \<open>The toast and, when the key is not pinned and the movement was new, the next key.\<close>

definition after_send :: "env \<Rightarrow> api_result \<Rightarrow> attempt \<Rightarrow> engine \<Rightarrow> tx_form \<Rightarrow> engine \<times> tx_form \<times> toast" where
  "after_send E r a s f =
     (let t = sent_toast (uuid E (drawn s)) r;
          f1 = f\<lparr>tf_attempts := add_attempt a (tf_attempts f)\<rparr>
      in if a_ok r \<and> \<not> tf_pinned f \<and> \<not> replayed r
         then (s\<lparr>drawn := drawn s + 2\<rparr>, f1\<lparr>tf_key := idemKey E (drawn s + 1)\<rparr>, t)
         else (s\<lparr>drawn := drawn s + 1\<rparr>, f1, t))"

text \<open>What the request of \<open>bump\<close> does to the engine: the list of wallets is fetched.\<close>

definition refetched :: "env \<Rightarrow> fetched \<Rightarrow> engine \<Rightarrow> engine" where
  "refetched E net s = fst (api_request E net GET (js ''/wallets'') JUndef [] s)"

definition send ::
  "env \<Rightarrow> (nat \<Rightarrow> fetched) \<Rightarrow> jstr \<Rightarrow> jsval list \<Rightarrow> engine \<Rightarrow> tx_form \<Rightarrow>
   engine \<times> (tx_form \<times> toast option) option" where
  "send E net use_key ws s f =
     (case form_amount f of
        None \<Rightarrow> (s, Some (f, None))
      | Some amount \<Rightarrow>
          if amount = 0 \<or> same_error f then (s, Some (f, None))
          else
            (case api_request E (net 0) POST (PATH (tf_kind f)) (form_body f)
                    [(js ''Idempotency-Key'', use_key)] s of
               (s1, None) \<Rightarrow> (s1, None)
             | (s1, Some r) \<Rightarrow>
                 (case read_wallets E net 1 (affected ws f) s1 of
                    (s2, None) \<Rightarrow> (s2, None)
                  | (s2, Some rs) \<Rightarrow>
                      (case made_attempt f use_key amount r (affected ws f) rs of
                         None \<Rightarrow> (s2, None)
                       | Some a \<Rightarrow>
                           (let (s3, f', t) = after_send E r a s2 f
                            in (refetched E (net (1 + length rs)) s3, Some (f', Some t)))))))"

section \<open>Facts\<close>

lemma form_body_amount: "get_field (form_body f) (js ''amount'') =
    JNum (case form_amount f of None \<Rightarrow> 0 | Some a \<Rightarrow> a)"
  by (simp add: form_body_def Let_def)

lemma form_body_accounts:
  "from_of (tf_kind f) (form_body f) =
     (case tf_kind f of Transfer \<Rightarrow> JStr (tf_from f) | Withdrawal \<Rightarrow> JStr (tf_target f) | Deposit \<Rightarrow> JNull)"
  "to_of (tf_kind f) (form_body f) =
     (case tf_kind f of Transfer \<Rightarrow> JStr (tf_to f) | Deposit \<Rightarrow> JStr (tf_target f) | Withdrawal \<Rightarrow> JNull)"
  by (auto simp: from_of_def to_of_def form_body_def Let_def split: tx_kind.split)

lemma parseMinor_nonneg: "parseMinor s = Some n \<Longrightarrow> 0 \<le> n"
  by (auto simp: parseMinor_def js_add_def js_mul_def to_number_def intro!: fl_nonneg add_nonneg_nonneg mult_nonneg_nonneg
      split: option.splits prod.splits)

text \<open>What the form submits is a plan of the engine: its guards are at least as strict.\<close>

lemma form_plan:
  assumes a: "form_amount f = Some a" "a \<noteq> 0" and same: "\<not> same_error f" and key: "key \<noteq> []"
  shows "plans (money_request (tf_kind f) key (form_body f)) (plan_for (tf_kind f) key (form_body f) a)"
proof (rule money_plan)
  have "0 \<le> a" using a(1) parseMinor_nonneg by (simp add: form_amount_def)
  then show "0 < a" using a(2) by simp
  show "get_field (form_body f) (js ''amount'') = JNum a" using a(1) by (simp add: form_body_amount)
  show "tf_kind f = Transfer \<longrightarrow> \<not> strict_eq (from_of (tf_kind f) (form_body f)) (to_of (tf_kind f) (form_body f))"
    using same form_body_accounts [of f] by (auto simp: same_error_def strict_eq_def)
qed (rule key)

end
