(* ===== verification/Quotients.thy ===== *)
theory Quotients
  imports Format Doubles
begin

text \<open>
  The text the MAX button writes, \<open>(balance / 100).toFixed(2)\<close>. The facts: below \<open>100 * 2 ^ 46\<close>
  it is the exact amount, which the amount field reads back; the bound is sharp.
\<close>

text \<open>What the MAX button writes into the amount field; a negative balance gets a sign.\<close>

definition max_text :: "int \<Rightarrow> jstr" where
  "max_text balance = (if balance < 0 then js ''-'' else []) @ toFixed2 (js_div (nat \<bar>balance\<bar>) 100)"

lemma max_text_exact:
  assumes "0 \<le> n" and "n < 100 * 2 ^ 46"
  shows "parseMinor (max_text n) = Some n"
proof -
  have "nat n < 100 * 2 ^ 46" using assms by simp
  then have h: "hundredths_of (js_div (nat n) 100) = nat n" by (rule hundredths_exact)
  let ?w = "dec (nat n div 100)" and ?c = "pad_start 2 (dec (nat n mod 100))"
  have t: "max_text n = ?w @ 0x2E # ?c" using assms(1) h by (simp add: max_text_def toFixed2_def Let_def)
  have c: "length ?c = 2" by (intro money_cents_length) simp
  have digits: "\<forall>x \<in> set (max_text n). is_digit x \<or> x = 0x2E" using dec_digits pad_digits by (auto simp: t)
  have nf: "\<not> is_filler x" if "x \<in> set (max_text n)" for x
  proof -
    have "\<not> is_filler 0x2E" by (simp add: is_filler_def is_space_def)
    then show ?thesis using digits that digit_not_filler by blast
  qed
  then have ns: "\<not> is_space x" if "x \<in> set (max_text n)" for x using that by (auto simp: is_filler_def)
  have trim: "trim (max_text n) = max_text n"
  proof -
    have *: "dropWhile is_space s = s" if "\<forall>x \<in> set s. \<not> is_space x" for s using that by (cases s) simp_all
    have "dropWhile is_space (max_text n) = max_text n" using ns by (intro *) blast
    moreover have "dropWhile is_space (rev (max_text n)) = rev (max_text n)" using ns by (intro *) (simp only: set_rev, blast)
    ultimately show ?thesis by (simp only: trim_def rev_rev_ident)
  qed
  have "filter (\<lambda>x. \<not> is_filler x) (max_text n) = max_text n" using nf by (simp add: filter_id_conv)
  moreover have "decimal_parts (max_text n) = Some (?w, ?c)"
    unfolding t using dec_digits pad_digits c by (intro decimal_parts_point) auto
  ultimately have "parseMinor (max_text n) = Some (js_add (js_mul (to_number ?w) 100) (to_number (pad_end 2 ?c)))"
    by (simp add: parseMinor_def trim)
  moreover have "to_number ?w = n div 100"
  proof -
    have "nat n div 100 \<le> 2 ^ 53" using assms by simp
    then show ?thesis using to_number_dec assms(1) by (simp add: nat_div_distrib)
  qed
  moreover have "to_number (pad_end 2 ?c) = n mod 100"
    using c assms(1) by (simp add: pad_end_def to_number_def zmod_int)
  moreover have "js_mul (n div 100) 100 = n div 100 * 100" using assms by (simp add: js_mul_def)
  moreover have "js_add (n div 100 * 100) (n mod 100) = n"
    using assms num.add_exact [of "n div 100 * 100" "n mod 100"] by simp
  ultimately show ?thesis by simp
qed

text \<open>The bound is sharp: one cent further the text is a cent too high.\<close>

lemma max_text_rounds: "hundredths_of (js_div (100 * 2 ^ 46 + 1) 100) = 100 * 2 ^ 46 + 2"
proof -
  have "frac_bits (100 * 2 ^ 46 + 1) 100 = 6" by (simp add: frac_bits.simps)
  then have "js_div (100 * 2 ^ 46 + 1) 100 = (quot_even ((100 * 2 ^ 46 + 1) * 2 ^ 6) 100, 6)"
    by (simp add: js_div_def Let_def)
  then show ?thesis by (simp add: hundredths_of_def quot_even_def Let_def)
qed

end
