(* ===== verification/Outcome.thy ===== *)
theory Outcome
  imports Transact Wallets_Page Quotients
begin

text \<open>
  What the Transact page shows and what its buttons do: the wallet pickers, the amount buttons,
  the submit and retry buttons, the outcome with the effects on the balances and the table of
  attempts. The facts: the submit button is enabled exactly when a submission sends a request,
  and an accepted submission to the engine in the page shows the movement on both wallets.
\<close>

section \<open>The form\<close>

record picker =
  pk_label :: jstr
  pk_hint :: "jstr option"
  pk_empty :: bool
  pk_options :: "(jsval \<times> jsval) list"

text \<open>\<open>WalletPick\<close>: the balance as a hint, an empty option when nothing is picked.\<close>

definition wallet_pick :: "jstr \<Rightarrow> jstr \<Rightarrow> jsval list \<Rightarrow> picker" where
  "wallet_pick label i ws =
     (let w = by_id ws i
      in \<lparr>pk_label = label,
          pk_hint = map_option (\<lambda>w. money_text (balance_of w) (js_string (get_field w (js ''currency''))) False) w,
          pk_empty = (w = None), pk_options = map (\<lambda>x. (wallet_id x, wallet_owner x)) ws\<rparr>)"

definition pickers :: "jsval list \<Rightarrow> tx_form \<Rightarrow> picker list" where
  "pickers ws f =
     (if tf_kind f = Transfer
      then [wallet_pick (js ''From'') (tf_from f) ws,
            wallet_pick (js ''To'') (tf_to f) (filter (\<lambda>w. wallet_id w \<noteq> JStr (tf_from f)) ws)]
      else [wallet_pick (if tf_kind f = Deposit then js ''Credit wallet'' else js ''Debit wallet'') (tf_target f) ws])"

text \<open>The buttons that fill in an amount: what they write, and their labels.\<close>

definition quick_amounts :: "(jstr \<times> jstr) list" where
  "quick_amounts =
     map (\<lambda>v. (v, case parseMinor v of None \<Rightarrow> js ''$NaN.NaN'' | Some a \<Rightarrow> dollars a))
       [js ''10.00'', js ''250.00'', js ''5000.00'']"

definition max_button :: "jsval list \<Rightarrow> tx_form \<Rightarrow> tx_form" where
  "max_button ws f =
     (case form_source ws f of None \<Rightarrow> f | Some w \<Rightarrow> f\<lparr>tf_amount_str := max_text (balance_of w)\<rparr>)"

text \<open>The three pieces of the warning: the owner in the middle is rendered as it is.\<close>

definition overdraft_text :: "jsval list \<Rightarrow> tx_form \<Rightarrow> jsval list option" where
  "overdraft_text ws f =
     (case form_source ws f of
        Some w \<Rightarrow>
          (if overdraft_warning ws f
           then Some [JStr (js ''Exceeds ''), wallet_owner w,
             JStr ([0x27] @ js ''s available '' @ dollars (balance_of w) @
               js ''. You can still submit to watch the engine reject it.'')]
           else None)
      | None \<Rightarrow> None)"

definition toggle_pin :: "tx_form \<Rightarrow> tx_form" where
  "toggle_pin f = f\<lparr>tf_pinned := \<not> tf_pinned f\<rparr>"

definition new_key :: "env \<Rightarrow> engine \<Rightarrow> tx_form \<Rightarrow> engine \<times> tx_form" where
  "new_key E s f = (s\<lparr>drawn := drawn s + 1\<rparr>, f\<lparr>tf_key := idemKey E (drawn s)\<rparr>)"

definition submit_enabled :: "bool \<Rightarrow> tx_form \<Rightarrow> bool" where
  "submit_enabled busy f \<longleftrightarrow>
     \<not> (amount_error f \<noteq> None \<or> same_error f \<or> form_amount f = None) \<and> \<not> busy"

definition last_key :: "tx_form \<Rightarrow> jstr option" where
  "last_key f = (case tf_attempts f of [] \<Rightarrow> None | a # _ \<Rightarrow> if at_key a = [] then None else Some (at_key a))"

definition retry_enabled :: "bool \<Rightarrow> tx_form \<Rightarrow> bool" where
  "retry_enabled busy f \<longleftrightarrow> last_key f \<noteq> None \<and> \<not> busy"

definition press_submit ::
  "env \<Rightarrow> (nat \<Rightarrow> fetched) \<Rightarrow> bool \<Rightarrow> jsval list \<Rightarrow> engine \<Rightarrow> tx_form \<Rightarrow> engine \<times> (tx_form \<times> toast option) option" where
  "press_submit E net busy ws s f =
     (if submit_enabled busy f then send E net (tf_key f) ws s f else (s, Some (f, None)))"

definition press_retry ::
  "env \<Rightarrow> (nat \<Rightarrow> fetched) \<Rightarrow> bool \<Rightarrow> jsval list \<Rightarrow> engine \<Rightarrow> tx_form \<Rightarrow> engine \<times> (tx_form \<times> toast option) option" where
  "press_retry E net busy ws s f =
     (case last_key f of
        Some k \<Rightarrow> if retry_enabled busy f then send E net k ws s f else (s, Some (f, None))
      | None \<Rightarrow> (s, Some (f, None)))"

section \<open>The outcome\<close>

record effect_line =
  el_owner :: jsval
  el_before :: jstr
  el_after :: jstr
  el_delta :: jstr
  el_sign :: int

definition effect_line :: "effect \<Rightarrow> effect_line" where
  "effect_line e =
     (let before = as_number (ef_before e); after = as_number (ef_after e); d = js_add after (- before)
      in \<lparr>el_owner = wallet_owner (ef_wallet e), el_before = dollars before, el_after = dollars after,
          el_delta = (if d = 0 then 0xB1 # js ''0.00'' else money_text d (js ''USD'') True), el_sign = sgn d\<rparr>)"

record outcome_panel =
  oc_tone :: tone
  oc_badge_tone :: tone
  oc_badge :: jstr
  oc_ms :: jstr
  oc_text :: jstr
  oc_tx :: "jstr option"
  oc_effects :: "effect_line list"

definition panel_of :: "attempt \<Rightarrow> outcome_panel" where
  "panel_of a =
     \<lparr>oc_tone = (if 200 \<le> at_status a \<and> at_status a < 300 then (if at_replayed a then Info else Ok) else Err),
      oc_badge_tone = (if at_replayed a then Info else if at_status a < 300 then Ok else Err),
      oc_badge = (if at_replayed a then js ''Idempotent replay''
        else if at_status a < 300 then js ''Posted'' else js_string (at_code a)),
      oc_ms = ms_text (at_ms a),
      oc_text = (if at_replayed a
        then js ''The engine recognized this key and fingerprint and returned the original transaction. Balances did not change.''
        else if at_status a < 300
        then js ''Transaction committed. Ledger entries are posted and the response is cached under this key.''
        else js_string (at_message a)),
      oc_tx = (if truthy (at_tx_id a) then Some (js_string (at_tx_id a)) else None),
      oc_effects = map effect_line (at_effects a)\<rparr>"

text \<open>The panel shows the newest attempt.\<close>

definition shown_outcome :: "tx_form \<Rightarrow> outcome_panel option" where
  "shown_outcome f = (case tf_attempts f of [] \<Rightarrow> None | a # _ \<Rightarrow> Some (panel_of a))"

record attempt_row =
  ar_n :: nat
  ar_key :: jstr
  ar_same_key :: bool
  ar_kind :: jstr
  ar_amount :: jstr
  ar_status :: badge_tone
  ar_result :: jstr
  ar_ms :: jstr

fun attempt_rows :: "attempt list \<Rightarrow> attempt_row list" where
  "attempt_rows [] = []"
| "attempt_rows (a # as) =
     \<lparr>ar_n = at_n a, ar_key = shortId (JStr (at_key a)) 10,
      ar_same_key = (case as of [] \<Rightarrow> False | b # _ \<Rightarrow> at_key b = at_key a),
      ar_kind = kind_text (at_kind a), ar_amount = dollars (at_amount a), ar_status = status_tone (at_status a),
      ar_result = (if at_replayed a then js ''replayed''
        else if truthy (at_code a) then js_string (at_code a) else js ''posted''),
      ar_ms = ms_text (at_ms a)\<rparr> # attempt_rows as"

definition clear_attempts :: "tx_form \<Rightarrow> tx_form" where
  "clear_attempts f = f\<lparr>tf_attempts := []\<rparr>"

section \<open>Buttons\<close>

text \<open>The button is enabled exactly when a submission gets past its own guards.\<close>

lemma submit_enabled_iff:
  "submit_enabled False f \<longleftrightarrow> (\<exists>a. form_amount f = Some a \<and> a \<noteq> 0) \<and> \<not> same_error f"
  by (auto simp: submit_enabled_def amount_error_def split: if_splits)

lemma send_idle: "\<not> submit_enabled False f \<Longrightarrow> send E net key ws s f = (s, Some (f, None))"
  by (auto simp: submit_enabled_iff send_def split: option.split)

lemma quick_amount_labels: "map snd quick_amounts = [js ''$10.00'', js ''$250.00'', js ''$5,000.00'']"
proof -
  have "parseMinor (js ''10.00'') = Some 1000" "parseMinor (js ''250.00'') = Some 25000" "parseMinor (js ''5000.00'') = Some 500000"
    by (simp_all add: parseMinor_def js_def trim_def is_space_def is_filler_def decimal_parts_def is_digit_def to_number_def
        pad_end_def digits_value_def digit_value_def Let_def js_mul_def js_add_def)
  then show ?thesis
    by (simp add: quick_amounts_def dollars_def money_text_def whole_units_exact symbols_def group_digits_def pad_start_def dec.simps digit_def Let_def js_def)
qed

section \<open>An accepted submission\<close>

text \<open>What a submission moves: the accounts of the form with their changes.\<close>

definition form_moves :: "tx_form \<Rightarrow> int \<Rightarrow> (jstr \<times> int) list" where
  "form_moves f a =
     (case tf_kind f of Transfer \<Rightarrow> [(tf_from f, - a), (tf_to f, a)]
      | Deposit \<Rightarrow> [(tf_target f, a)] | Withdrawal \<Rightarrow> [(tf_target f, - a)])"

lemma bank_move_get:
  "map_get (bank_move add d v a b) j =
   (case bank_account b v of None \<Rightarrow> map_get b j
    | Some (k, x) \<Rightarrow> if j = k then Some (add x (signed d a)) else map_get b j)"
  by (simp add: bank_move_def map_set_get split: option.split prod.split)

lemma bank_account_known: "i \<noteq> [] \<Longrightarrow> map_get b i = Some x \<Longrightarrow> bank_account b (JStr i) = Some (i, x)"
  by (simp add: bank_account_def)

definition fits :: "bank \<Rightarrow> jstr \<times> int \<Rightarrow> bool" where
  "fits b m \<longleftrightarrow> fst m \<noteq> [] \<and> (\<exists>x. map_get b (fst m) = Some x \<and> 0 \<le> x + snd m \<and> x + snd m \<le> 2 ^ 53)"

lemma form_balances:
  assumes "\<forall>m \<in> set (form_moves f a). fits b m" and "\<not> same_error f" and "m \<in> set (form_moves f a)"
    and "map_get b (fst m) = Some x"
  shows "map_get (bank_transfer js_add (from_of (tf_kind f) (form_body f)) (to_of (tf_kind f) (form_body f)) a b) (fst m) =
    Some (x + snd m)"
  using assms form_body_accounts [of f]
  by (cases "tf_kind f")
    (auto simp: form_moves_def fits_def bank_transfer_def bank_move_get bank_account_def map_set_get same_error_def
      js_add_def split: if_splits)

lemma form_accepted:
  assumes "\<forall>m \<in> set (form_moves f a). fits b m"
  shows "bank_accepts b (plan_for (tf_kind f) key (form_body f) a)"
  using assms form_body_accounts [of f]
  by (cases "tf_kind f")
    (auto simp: form_moves_def fits_def bank_accepts_def bank_knows_def bank_covers_def bank_account_def)

text \<open>The reads after the movement.\<close>

lemma read_one:
  assumes "map_get (wallets s) i = Some w" and "list_all is_word_char i" and "i \<noteq> []"
  obtains R d c where "api_request E Unreachable GET (js ''/wallets/'' @ i) JUndef [] s = (s\<lparr>drawn := d, ticks := c\<rparr>, Some R)"
    and "a_ok R" and "a_data R = wallet_value w" and "d = drawn s + 1"
proof -
  have h: "handle E (get_request (js ''/wallets/'' @ i)) (s\<lparr>ticks := ticks s + 1\<rparr>) =
      (s\<lparr>ticks := ticks s + 1\<rparr>, Returned (ok (WalletBody w) 200 []))"
    using assms by (intro handle_get_wallet) simp_all
  show thesis
  proof (rule api_get [OF h])
    fix R
    assume R: "api_request E Unreachable GET (js ''/wallets/'' @ i) JUndef [] s =
        (s\<lparr>ticks := ticks s + 1, drawn := drawn (s\<lparr>ticks := ticks s + 1\<rparr>) + 1,
          ticks := ticks (s\<lparr>ticks := ticks s + 1\<rparr>) + 2\<rparr>, Some R)"
      "a_ok R \<longleftrightarrow> 200 \<le> r_status (ok (WalletBody w) 200 []) \<and> r_status (ok (WalletBody w) 200 []) < 300"
      "normalize (body_value (r_body (ok (WalletBody w) 200 []))) = Some (a_data R)"
    then show thesis using created_value(1) [OF R(3)] by (intro that) simp_all
  qed
qed

definition readable :: "engine \<Rightarrow> wallet \<Rightarrow> bool" where
  "readable s v \<longleftrightarrow> list_all is_word_char (w_id v) \<and> w_id v \<noteq> [] \<and> map_get (wallets s) (w_id v) \<noteq> None"

lemma listed_id [simp]: "js_string (wallet_id (listed_wallet v)) = w_id v"
  by simp

lemma read_all:
  assumes "\<forall>v \<in> set vs. readable s v"
  obtains rs d c where "read_wallets E no_net n (map listed_wallet vs) s = (s\<lparr>drawn := d, ticks := c\<rparr>, Some rs)"
    and "list_all a_ok rs" and "map a_data rs = map (\<lambda>v. wallet_value (the (map_get (wallets s) (w_id v)))) vs"
    and "d = drawn s + length vs"
  using assms
proof (induction vs arbitrary: s n thesis)
  case Nil
  have "s = s\<lparr>drawn := drawn s, ticks := ticks s\<rparr>" by simp
  then show ?case by (intro Nil(1) [where d = "drawn s" and c = "ticks s" and rs = "[]"]) simp_all
next
  case (Cons v vs)
  obtain w where w: "map_get (wallets s) (w_id v) = Some w" using Cons.prems(2) by (auto simp: readable_def)
  have i: "list_all is_word_char (w_id v)" "w_id v \<noteq> []" using Cons.prems(2) by (simp_all add: readable_def)
  obtain R d c where R: "api_request E Unreachable GET (js ''/wallets/'' @ w_id v) JUndef [] s =
      (s\<lparr>drawn := d, ticks := c\<rparr>, Some R)" "a_ok R" "a_data R = wallet_value w" "d = drawn s + 1"
    by (rule read_one [OF w i])
  let ?s = "s\<lparr>drawn := d, ticks := c\<rparr>"
  have "\<forall>v \<in> set vs. readable ?s v" using Cons.prems(2) by (simp add: readable_def)
  then obtain rs d' c' where rs: "read_wallets E no_net (n + 1) (map listed_wallet vs) ?s =
      (?s\<lparr>drawn := d', ticks := c'\<rparr>, Some rs)" "list_all a_ok rs"
      "map a_data rs = map (\<lambda>v. wallet_value (the (map_get (wallets ?s) (w_id v)))) vs" "d' = drawn ?s + length vs"
    by (rule Cons.IH [where s = ?s and n = "n + 1", rotated])
  then show ?case using R w by (intro Cons.prems(1) [where d = d' and c = c' and rs = "R # rs"]) simp_all
qed

text \<open>What the outcome shows of the reads.\<close>

lemma effects_Cons:
  "effects (w # ws) (r # rs) =
     \<lparr>ef_wallet = w, ef_before = get_field w (js ''balance''),
      ef_after = (if a_ok r then get_field (a_data r) (js ''balance'') else get_field w (js ''balance''))\<rparr> # effects ws rs"
  by (simp add: effects_def Let_def)

lemma line_delta:
  assumes "ef_before e = JNum x" and "ef_after e = JNum y" and "\<bar>y - x\<bar> \<le> 2 ^ 53" and "y \<noteq> x"
  shows "el_owner (effect_line e) = wallet_owner (ef_wallet e)"
    and "el_delta (effect_line e) = money_text (y - x) (js ''USD'') True"
proof -
  have "js_add y (- x) = y - x" using assms(3) by (simp add: js_add_def)
  then show "el_owner (effect_line e) = wallet_owner (ef_wallet e)"
    and "el_delta (effect_line e) = money_text (y - x) (js ''USD'') True"
    using assms(1,2,4) by (simp_all add: effect_line_def as_number_def Let_def)
qed

lemma effects_shown:
  assumes "list_all a_ok rs" and "map a_data rs = map (\<lambda>v. wallet_value (u v)) vs"
    and "\<forall>v \<in> set vs. \<bar>w_balance (u v) - w_balance v\<bar> \<le> 2 ^ 53 \<and> w_balance (u v) \<noteq> w_balance v"
  shows "map (\<lambda>e. (el_owner (effect_line e), el_delta (effect_line e))) (effects (map listed_wallet vs) rs) =
    map (\<lambda>v. (JStr (w_owner v), money_text (w_balance (u v) - w_balance v) (js ''USD'') True)) vs"
  using assms
proof (induction vs arbitrary: rs)
  case (Cons v vs)
  then obtain R rs' where rs: "rs = R # rs'" by (cases rs) auto
  have b: "get_field (listed_wallet v) (js ''balance'') = JNum (w_balance v)"
    "get_field (wallet_value (u v)) (js ''balance'') = JNum (w_balance (u v))"
    by (simp add: listed_get) (simp_all add: wallet_value_def)
  have "map (\<lambda>e. (el_owner (effect_line e), el_delta (effect_line e))) (effects (map listed_wallet vs) rs') =
      map (\<lambda>v. (JStr (w_owner v), money_text (w_balance (u v) - w_balance v) (js ''USD'') True)) vs"
    using Cons.prems by (intro Cons.IH) (simp_all add: rs)
  then show ?case using Cons.prems b by (simp add: rs effects_Cons line_delta)
qed (simp add: effects_def)

text \<open>The wallets a form touches, as the list shows them.\<close>

definition named :: "engine \<Rightarrow> jstr \<times> int \<Rightarrow> wallet" where
  "named s m = the (map_get (wallets s) (fst m))"

lemma by_id_listed:
  assumes "keyed s" and "map_get (wallets s) i = Some w"
  shows "by_id (map (listed_wallet \<circ> snd) (wallets s)) i = Some (listed_wallet w)"
proof -
  have ids: "\<forall>p \<in> set (wallets s). w_id (snd p) = fst p"
    using assms(1) map_get_distinct [of "wallets s"] by (auto simp: keyed_def)
  have "map_get ps i = Some w \<Longrightarrow> \<forall>p \<in> set ps. w_id (snd p) = fst p \<Longrightarrow>
      find (\<lambda>v. wallet_id v = JStr i) (map (listed_wallet \<circ> snd) ps) = Some (listed_wallet w)" for ps
    by (induction ps) (auto split: if_splits)
  then show ?thesis using assms(2) ids by (simp add: by_id_def)
qed

lemma affected_listed:
  assumes "keyed s" and "\<forall>m \<in> set (form_moves f a). map_get (wallets s) (fst m) \<noteq> None"
  shows "affected (map (listed_wallet \<circ> snd) (wallets s)) f = map listed_wallet (map (named s) (form_moves f a))"
proof -
  have "by_id (map (listed_wallet \<circ> snd) (wallets s)) (fst m) = Some (listed_wallet (named s m))" if "m \<in> set (form_moves f a)" for m
    using assms(2) that by_id_listed [OF assms(1)] by (auto simp: named_def)
  moreover have *: "\<forall>m \<in> set ms. g (fst m) = Some (h m) \<Longrightarrow> List.map_filter g (map fst ms) = map h ms" for g h and ms :: "(jstr \<times> int) list"
    by (induction ms) (simp_all add: map_filter_simps)
  ultimately have "List.map_filter (by_id (map (listed_wallet \<circ> snd) (wallets s))) (map fst (form_moves f a)) =
      map (\<lambda>m. listed_wallet (named s m)) (form_moves f a)"
    by (intro *) blast
  moreover have "affected ws f = List.map_filter (by_id ws) (map fst (form_moves f a))" for ws
    by (cases "tf_kind f") (simp_all add: affected_def form_moves_def)
  ultimately show ?thesis by (simp add: comp_def)
qed

lemma moves_nonzero: "a \<noteq> 0 \<Longrightarrow> m \<in> set (form_moves f a) \<Longrightarrow> snd m \<noteq> 0 \<and> \<bar>snd m\<bar> = \<bar>a\<bar>"
  by (cases "tf_kind f") (auto simp: form_moves_def)

lemma submission:
  assumes r: "ready E N n 8 s" and a: "form_amount f = Some a" "a \<noteq> 0" "a \<le> 2 ^ 53" and same: "\<not> same_error f"
    and key: "key = idemKey E i" "i < drawn s" "map_get (idem s) key = None"
    and fit: "\<forall>m \<in> set (form_moves f a). fits (balances s) m"
  obtains s' f' t oc where "send E no_net key (map (listed_wallet \<circ> snd) (wallets s)) s f = (s', Some (f', Some t))"
    and "to_title t = js ''Posted to ledger''" and "shown_outcome f' = Some oc" and "oc_badge oc = js ''Posted''"
    and "map (\<lambda>l. (el_owner l, el_delta l)) (oc_effects oc) =
      map (\<lambda>m. (JStr (w_owner (named s m)), money_text (snd m) (js ''USD'') True)) (form_moves f a)"
    and "\<not> tf_pinned f \<Longrightarrow> tf_key f' \<noteq> key" and "tf_pinned f \<Longrightarrow> tf_key f' = tf_key f"
proof -
  let ?k = "tf_kind f" and ?body = "form_body f" and ?x = "\<lparr>lx_eng = s, lx_log = [], lx_fx = None\<rparr>"
  let ?ws = "map (listed_wallet \<circ> snd) (wallets s)" and ?vs = "map (named s) (form_moves f a)"
  have pos: "0 < a" using a(1,2) parseMinor_nonneg by (fastforce simp: form_amount_def)
  have known: "map_get (balances s) (fst m) = Some (w_balance (named s m)) \<and> map_get (wallets s) (fst m) = Some (named s m)"
    if "m \<in> set (form_moves f a)" for m
    using fit that by (auto simp: fits_def map_get_balances named_def)
  have ne: "key \<noteq> []" by (simp add: key(1) idemKey_def)
  have rx: "ready E N n 8 (lx_eng ?x)" and four: "4 \<le> (8::nat)" and i: "i < drawn (lx_eng ?x)"
    and k: "map_get (idem (lx_eng ?x)) key = None" using r key by simp_all
  have path: "PATH ?k = q_path (money_request ?k key ?body)" by (cases ?k) (simp_all add: PATH_def)
  have am: "get_field ?body (js ''amount'') = JNum a" by (simp add: form_body_amount a(1))
  have neq: "?k = Transfer \<longrightarrow> \<not> strict_eq (from_of ?k ?body) (to_of ?k ?body)"
    using same form_body_accounts [of f] by (auto simp: same_error_def strict_eq_def)
  have acc: "bank_accepts (balances (lx_eng ?x)) (plan_for ?k key ?body a)" using form_accepted [OF fit] by simp
  show thesis
  proof (rule move_step [OF rx four key(1) i ne k path am pos neq acc, of "[]" True])
    fix R y t
    assume y: "lab_call E no_net [] POST (PATH ?k) ?body (key_header key) True ?x = (Inr R, y)" "a_ok R" "a_status R = 201"
      "\<not> was_replayed R"
      "balances (lx_eng y) = bank_transfer js_add (from_of ?k ?body) (to_of ?k ?body) a (balances (lx_eng ?x))"
      "ready E N n (8 - 4) (lx_eng y)" "map_keys (wallets (lx_eng y)) = map_keys (wallets (lx_eng ?x))"
      "drawn (lx_eng ?x) \<le> drawn (lx_eng y)" "\<not> nullish (a_data R)"
    let ?s1 = "lx_eng y"
    have req: "api_request E Unreachable POST (PATH ?k) ?body [(js ''Idempotency-Key'', key)] s = (?s1, Some R)"
      using y(1) by (auto simp: lab_call_def key_header_def split: prod.splits option.splits)
    have rp: "\<not> replayed R" using y(4) by (simp add: replayed_def was_replayed_def)
    have wf: "keyed s" using ready_wf [OF r] by (simp add: wf_books_def)
    have id: "w_id (named s m) = fst m" if "m \<in> set (form_moves f a)" for m
      using wf known [OF that] by (auto simp: keyed_def)
    have after: "map_option w_balance (map_get (wallets ?s1) (fst m)) = Some (w_balance (named s m) + snd m)"
      if "m \<in> set (form_moves f a)" for m
    proof -
      have "map_get (balances ?s1) (fst m) = Some (w_balance (named s m) + snd m)"
        using form_balances [OF fit same that] known [OF that] unfolding y(5) by simp
      then show ?thesis by (simp only: map_get_balances)
    qed
    have "\<forall>v \<in> set ?vs. readable ?s1 v"
    proof
      fix v assume "v \<in> set ?vs"
      then obtain m where m: "m \<in> set (form_moves f a)" "v = named s m" by auto
      have "map_get (wallets ?s1) (fst m) \<noteq> None" using after [OF m(1)] by auto
      then have "fst m \<in> set (map_keys (wallets ?s1))" by (simp only: jsmap.get_keys)
      then show "readable ?s1 v" using ready_ids [OF y(6)] id [OF m(1)] m(2) by (metis option.distinct(1) readable_def)
    qed
    then obtain rs d c where rs: "read_wallets E no_net 1 (map listed_wallet ?vs) ?s1 = (?s1\<lparr>drawn := d, ticks := c\<rparr>, Some rs)"
        "list_all a_ok rs" "map a_data rs = map (\<lambda>v. wallet_value (the (map_get (wallets ?s1) (w_id v)))) ?vs"
        "d = drawn ?s1 + length ?vs"
      by (rule read_all)
    have aff: "affected ?ws f = map listed_wallet ?vs" using wf known by (intro affected_listed) auto
    let ?u = "\<lambda>v. the (map_get (wallets ?s1) (w_id v))"
    have diff: "w_balance (?u (named s m)) - w_balance (named s m) = snd m" if "m \<in> set (form_moves f a)" for m
      using after [OF that] id [OF that] by auto
    have shown: "map (\<lambda>e. (el_owner (effect_line e), el_delta (effect_line e))) (effects (map listed_wallet ?vs) rs) =
        map (\<lambda>v. (JStr (w_owner v), money_text (w_balance (?u v) - w_balance v) (js ''USD'') True)) ?vs"
      using diff moves_nonzero [OF a(2)] a(3) pos
      by (intro effects_shown [OF rs(2,3)]) (force simp: abs_le_iff)
    have "\<not> nullish (a_data x)" if "x \<in> set rs" for x
    proof -
      have "a_data x \<in> set (map a_data rs)" using that by simp
      then show ?thesis unfolding rs(3) by auto
    qed
    then obtain at where at: "made_attempt f key a R (affected ?ws f) rs = Some at" "at_effects at = effects (affected ?ws f) rs"
        "at_status at = 201" "\<not> at_replayed at"
      using y(3,9) rp by (auto simp: made_attempt_def list_ex_iff)
    let ?s2 = "?s1\<lparr>drawn := d, ticks := c\<rparr>"
    obtain s3 f3 t3 where fin: "after_send E R at ?s2 f = (s3, f3, t3)" by (metis surj_pair)
    have sent: "send E no_net key ?ws s f = (refetched E Unreachable s3, Some (f3, Some t3))"
      using a same req rs(1) fin at(1) by (simp add: send_def aff)
    have title: "to_title t3 = js ''Posted to ledger''" and atts: "tf_attempts f3 = add_attempt at (tf_attempts f)"
      and new: "\<not> tf_pinned f \<Longrightarrow> tf_key f3 = idemKey E (d + 1)" "tf_pinned f \<Longrightarrow> tf_key f3 = tf_key f"
      using fin y(2) rp by (auto simp: after_send_def sent_toast_def Let_def split: if_splits)
    have lines: "map (\<lambda>l. (el_owner l, el_delta l)) (map effect_line (effects (map listed_wallet ?vs) rs)) =
        map (\<lambda>m. (JStr (w_owner (named s m)), money_text (snd m) (js ''USD'') True)) (form_moves f a)"
      using shown diff by (simp add: comp_def)
    have "length ?vs \<le> 2" by (cases ?k) (simp_all add: form_moves_def)
    then have d: "d + 1 < N" using rs(4) y(6) by (simp add: ready_def)
    have "idemKey E (d + 1) \<noteq> key"
    proof
      assume eq: "idemKey E (d + 1) = key"
      have "inj_on (idemKey E) {..<N}" and "i < N" using r key(2) by (simp_all add: ready_def fresh_keys_def)
      then have "d + 1 = i" using eq d by (intro inj_onD [of "idemKey E" "{..<N}"]) (simp_all add: key(1))
      then show False using key(2) y(8) rs(4) by simp
    qed
    then show thesis
      using that [OF sent title, of "panel_of at"] atts new at(2-4) lines
      by (simp add: shown_outcome_def add_attempt_def panel_of_def aff)
  qed
qed

end
