(* ===== verification/Ledger_Rows.thy ===== *)
theory Ledger_Rows
  imports Calls
begin

text \<open>
  What the ledger page shows: the equation of the reconciliation with its two checks, the rows
  of entries and transactions, and a visit of the page (its three requests). The time of day of
  an entry is a parameter \<open>tm\<close>, since it depends on the browser's zone. The facts: the amounts
  of the rows can be read back; on the engine in the page the equation holds as it is shown,
  both checks are green, and the newest row ends with the wallet's balance.
\<close>

section \<open>The reconciliation panel\<close>

datatype check_tone = Grey | Green | Red

record recon_check =
  ck_tone :: check_tone
  ck_cross :: bool
  ck_label :: jstr

definition recon_check :: "jsval \<Rightarrow> jstr \<Rightarrow> recon_check" where
  "recon_check v label =
     \<lparr>ck_tone = (if v = JUndef then Grey else if truthy v then Green else Red),
      ck_cross = (v = JBool False), ck_label = label\<rparr>"

record recon_panel =
  rp_credits :: jstr
  rp_debits :: jstr
  rp_ledger :: jstr
  rp_op :: jstr
  rp_cached :: jstr
  rp_balance_check :: recon_check
  rp_chain_check :: recon_check
  rp_footer :: jstr

definition long_dash :: jstr where "long_dash = [0x2014]"
definition dot :: jstr where "dot = js '' '' @ [0xB7] @ js '' ''"

text \<open>The answer that is shown, if there is one.\<close>

definition shown_recon :: "ledger_page \<Rightarrow> jsval option" where
  "shown_recon pg = (case lp_recon pg of None \<Rightarrow> None | Some v \<Rightarrow> if truthy v then Some v else None)"

definition int_field :: "jsval \<Rightarrow> string \<Rightarrow> int" where
  "int_field v k = as_number (get_field v (js k))"

definition recon_panel :: "(jsval \<Rightarrow> jstr) \<Rightarrow> ledger_page \<Rightarrow> recon_panel" where
  "recon_panel tm pg =
     (case shown_recon pg of
        None \<Rightarrow>
          \<lparr>rp_credits = dollars (credits pg), rp_debits = dollars (debits pg), rp_ledger = long_dash,
           rp_op = js ''?'', rp_cached = long_dash,
           rp_balance_check = recon_check JUndef (js ''Not checked''),
           rp_chain_check = recon_check JUndef (js ''Not checked''),
           rp_footer = js ''Reconciliation pending''\<rparr>
      | Some v \<Rightarrow>
          (let balanced = get_field v (js ''balanced''); valid = get_field v (js ''chain_valid'');
               cached = int_field v ''cached_balance''; ledger = int_field v ''ledger_balance''
           in \<lparr>rp_credits = dollars (credits pg), rp_debits = dollars (debits pg), rp_ledger = dollars ledger,
               rp_op = (if truthy balanced then [0x2261] else [0x2260]), rp_cached = dollars cached,
               rp_balance_check = recon_check balanced
                 (if truthy balanced then js ''Balances reconcile''
                  else js ''Drift of '' @ dollars (js_add cached (- ledger))),
               rp_chain_check = recon_check valid
                 (if truthy valid then js ''Hash chain intact'' else js ''Hash chain broken''),
               rp_footer = js ''GET /wallets/'' @ shortId (get_field v (js ''wallet_id'')) 8 @ js ''/reconcile'' @
                 dot @ js_string (get_field v (js ''entry_count'')) @ js '' entries'' @ dot @
                 js ''checked '' @ tm (get_field v (js ''checked_at''))\<rparr>))"

section \<open>Rows\<close>

text \<open>\<open>s.replace('\u2212', '')\<close>: the first minus sign removed.\<close>

fun drop_minus :: "jstr \<Rightarrow> jstr" where
  "drop_minus [] = []"
| "drop_minus (c # s) = (if c = 0x2212 then s else c # drop_minus s)"

record entry_row =
  er_seq :: jstr
  er_time :: jstr
  er_badge :: jstr
  er_credit :: bool
  er_amount :: jstr
  er_after :: jstr
  er_tx :: jstr
  er_prev :: jstr
  er_hash :: jstr
  er_details :: "(jstr \<times> jstr) list"

definition text_or :: "jsval \<Rightarrow> string \<Rightarrow> jstr" where
  "text_or v t = js_string (or_else v (JStr (js t)))"

definition entry_row :: "(jsval \<Rightarrow> jstr) \<Rightarrow> jsval \<Rightarrow> entry_row" where
  "entry_row tm e =
     (let cr = (get_field e (js ''direction'') = JStr (js ''credit''));
          prev = text_or (get_field e (js ''prev_hash'')) ''genesis'';
          hash = text_or (get_field e (js ''hash'')) ''committed'';
          after = get_field e (js ''balance_after'')
      in \<lparr>er_seq = js ''#'' @ js_string (coalesce (get_field e (js ''seq'')) (get_field e (js ''id''))),
          er_time = tm (get_field e (js ''created_at'')),
          er_badge = (if cr then js ''CR'' else js ''DR''), er_credit = cr,
          er_amount = (if cr then js ''+'' else [0x2212]) @ drop_minus (dollars (amount_of e)),
          er_after = (if nullish after then long_dash else dollars (as_number after)),
          er_tx = shortId (get_field e (js ''transaction_id'')) 10,
          er_prev = take 6 prev, er_hash = take 10 hash,
          er_details = [(js ''entry_id'', js_string (get_field e (js ''id''))),
            (js ''transaction_id'', js_string (get_field e (js ''transaction_id''))),
            (js ''prev_hash'', prev), (js ''hash'', hash)]\<rparr>)"

text \<open>A click on a row opens its details or closes them.\<close>

definition toggle_row :: "jstr \<Rightarrow> jstr option \<Rightarrow> jstr option" where
  "toggle_row i expanded = (if expanded = Some i then None else Some i)"

record tx_row =
  tr_kind :: jstr
  tr_outgoing :: bool
  tr_counterparty :: jstr
  tr_reference :: jstr
  tr_amount :: jstr
  tr_key :: jstr
  tr_time :: jstr

definition tx_row :: "(jsval \<Rightarrow> jstr) \<Rightarrow> store \<Rightarrow> jsval \<Rightarrow> tx_row" where
  "tx_row tm st t =
     (let sel = (case selected st of None \<Rightarrow> JUndef | Some w \<Rightarrow> wallet_id w);
          outgoing = strict_eq (get_field t (js ''from_wallet_id'')) sel
      in \<lparr>tr_kind = js_string (get_field t (js ''kind'')), tr_outgoing = outgoing,
          tr_counterparty =
            (if outgoing then [0x2192, 0x20] @ js_string (account_name (st_wallets st) (get_field t (js ''to_wallet_id'')))
             else [0x2190, 0x20] @ js_string (account_name (st_wallets st) (get_field t (js ''from_wallet_id'')))),
          tr_reference = js_string (or_else (get_field t (js ''reference'')) (JStr long_dash)),
          tr_amount = (if outgoing then [0x2212] else js ''+'') @
            money_text (amount_of t) (js_string (get_field t (js ''currency''))) False,
          tr_key = shortId (get_field t (js ''idempotency_key'')) 12,
          tr_time = tm (get_field t (js ''created_at''))\<rparr>)"

section \<open>A visit of the page\<close>

text \<open>
  The effects of opening the page for the selected wallet: the reconciliation is cleared, the
  lists are loaded and the wallet is reconciled. The requests are answered one after the other;
  \<open>None\<close> is an exception of one of them.
\<close>

definition visit_ledger ::
  "env \<Rightarrow> (nat \<Rightarrow> fetched) \<Rightarrow> jstr option \<Rightarrow> engine \<Rightarrow> ledger_page \<Rightarrow> engine \<times> ledger_page option" where
  "visit_ledger E net sel s pg =
     (case sel of
        None \<Rightarrow> (s, Some (pg\<lparr>lp_recon := None\<rparr>))
      | Some i \<Rightarrow>
          (let (s1, re) = api_request E (net 0) GET (js ''/wallets/'' @ i @ js ''/entries'') JUndef [] s;
               (s2, rt) = api_request E (net 1) GET (js ''/wallets/'' @ i @ js ''/transactions'') JUndef [] s1;
               (s3, rr) = api_request E (net 2) GET (js ''/wallets/'' @ i @ js ''/reconcile'') JUndef [] s2
           in (s3, case (re, rt, rr) of
                 (Some re, Some rt, Some rr) \<Rightarrow> map_option (reconcile_page rr) (load_page re rt (pg\<lparr>lp_recon := None\<rparr>))
               | _ \<Rightarrow> None)))"

section \<open>What the engine in the page shows\<close>

lemma handle_transactions:
  assumes "list_all is_word_char i" and "i \<noteq> []"
  shows "handle E (get_request (js ''/wallets/'' @ i @ js ''/transactions'')) s =
    (s, Returned (ok (TxsBody (rev (filter (touches i) (txs s)))) 200 []))"
  using wallet_path_route [OF assms, of "''/transactions''"]
  by (simp add: handle_def dispatch_def)

lemma visited:
  assumes wf: "wf_books s" and w: "map_get (wallets s) i = Some w" and i: "list_all is_word_char i"
  obtains s' pg' k where "visit_ledger E no_net (Some i) s pg = (s', Some pg')"
    and "lp_entries pg' = map shown_entry (rev (wallet_entries i (entries s)))"
    and "lp_recon pg' = Some (recon_value (reconcile E w (s\<lparr>ticks := k\<rparr>)))"
    and "wallets s' = wallets s" and "entries s' = entries s"
proof -
  have ne: "i \<noteq> []" using wf w jsmap.get_some_key [OF w] unfolding wf_books_def keyed_def by metis
  let ?es = "rev (wallet_entries i (entries s))" and ?ts = "rev (filter (touches i) (txs s))"
  obtain re d1 c1 where e: "api_request E Unreachable GET (js ''/wallets/'' @ i @ js ''/entries'') JUndef [] s =
      (s\<lparr>drawn := d1, ticks := c1\<rparr>, Some re)" "a_ok re" "normalize (body_value (EntriesBody ?es)) = Some (a_data re)"
    by (rule api_read [of E "js ''/wallets/'' @ i @ js ''/entries''" s "ticks s + 1" "EntriesBody ?es"])
      (simp_all add: handle_entries [OF i ne])
  let ?s1 = "s\<lparr>drawn := d1, ticks := c1\<rparr>"
  obtain rt d2 c2 where t: "api_request E Unreachable GET (js ''/wallets/'' @ i @ js ''/transactions'') JUndef [] ?s1 =
      (?s1\<lparr>drawn := d2, ticks := c2\<rparr>, Some rt)" "a_ok rt" "normalize (body_value (TxsBody ?ts)) = Some (a_data rt)"
    by (rule api_read [of E "js ''/wallets/'' @ i @ js ''/transactions''" ?s1 "ticks ?s1 + 1" "TxsBody ?ts"])
      (simp_all add: handle_transactions [OF i ne])
  let ?s2 = "?s1\<lparr>drawn := d2, ticks := c2\<rparr>"
  let ?rc = "reconcile E w (?s2\<lparr>ticks := ticks ?s2 + 1\<rparr>)"
  have w2: "map_get (wallets (?s2\<lparr>ticks := ticks ?s2 + 1\<rparr>)) i = Some w" using w by simp
  obtain rr d3 c3 where r: "api_request E Unreachable GET (js ''/wallets/'' @ i @ js ''/reconcile'') JUndef [] ?s2 =
      (?s2\<lparr>drawn := d3, ticks := c3\<rparr>, Some rr)" "a_ok rr" "normalize (body_value (ReconBody ?rc)) = Some (a_data rr)"
    by (rule api_read [of E "js ''/wallets/'' @ i @ js ''/reconcile''" ?s2 "ticks ?s2 + 2" "ReconBody ?rc"])
      (use handle_reconcile [OF i w2 ne, of E] in simp_all)
  have es: "a_data re = JObj [(js ''data'', JArr (map (\<lambda>e. normal_item (entry_value e)) ?es))]"
    using e(3) by (simp only: normalize_body option.inject res_body.case)
  have ts: "a_data rt = JObj [(js ''data'', JArr (map (\<lambda>t. normal_item (tx_value t)) ?ts))]"
    using t(3) by (simp only: normalize_body option.inject res_body.case)
  have "a_data rr = body_value (ReconBody ?rc)"
    using r(3) by (simp only: normalize_body option.inject res_body.case)
  then have rc: "a_data rr = recon_value ?rc" by (simp only: body_value.simps)
  have nn: "\<not> nullish (normal_item v)" for v by (simp add: normal_item_def spread_with_def)
  have "raw_list (js ''entries'') re = map (\<lambda>e. normal_item (entry_value e)) ?es"
    "raw_list (js ''transactions'') rt = map (\<lambda>t. normal_item (tx_value t)) ?ts"
    using e(2) t(2) by (simp_all add: raw_list_def es ts coalesce_def)
  then have "load_page re rt p = Some (p\<lparr>lp_entries := map shown_entry ?es,
      lp_txs := map (\<lambda>t. normal_tx (normal_item (tx_value t))) ?ts\<rparr>)" for p
    using nn by (simp add: load_page_def list_ex_iff shown_entry_def comp_def)
  moreover have "reconcile_page rr p = p\<lparr>lp_recon := Some (recon_value ?rc)\<rparr>" for p
    using r(2) by (simp add: reconcile_page_def rc)
  moreover have "reconcile E w (s\<lparr>ticks := c2 + 1\<rparr>) = ?rc" by (simp add: reconcile_def)
  ultimately show ?thesis
    using that [where k = "c2 + 1"] e(1) t(1) r(1) by (simp add: visit_ledger_def)
qed

text \<open>The equation holds as it is shown, and the checks are green.\<close>

lemma get_recon_value [simp]:
  "get_field (recon_value r) (js ''balanced'') = JBool (rc_balanced r)"
  "get_field (recon_value r) (js ''chain_valid'') = JBool (rc_chain_valid r)"
  "get_field (recon_value r) (js ''cached_balance'') = JNum (rc_cached_balance r)"
  "get_field (recon_value r) (js ''ledger_balance'') = JNum (rc_ledger_balance r)"
  "truthy (recon_value r)"
  by (simp_all add: recon_value_def)

lemma visit_panel:
  assumes wf: "wf_books s" and w: "map_get (wallets s) i = Some w" and i: "list_all is_word_char i"
  obtains s' pg' where "visit_ledger E no_net (Some i) s pg = (s', Some pg')"
    and "lp_entries pg' = map shown_entry (rev (wallet_entries i (entries s)))"
    and "rp_ledger (recon_panel tm pg') = dollars (w_balance w)" and "rp_cached (recon_panel tm pg') = dollars (w_balance w)"
    and "rp_op (recon_panel tm pg') = [0x2261]"
    and "rp_balance_check (recon_panel tm pg') = \<lparr>ck_tone = Green, ck_cross = False, ck_label = js ''Balances reconcile''\<rparr>"
    and "rp_chain_check (recon_panel tm pg') = \<lparr>ck_tone = Green, ck_cross = False, ck_label = js ''Hash chain intact''\<rparr>"
    and "rp_credits (recon_panel tm pg') = dollars (credits pg')" and "rp_debits (recon_panel tm pg') = dollars (debits pg')"
proof (rule visited [OF assms])
  fix s' pg' k
  let ?rc = "reconcile E w (s\<lparr>ticks := k\<rparr>)"
  assume v: "visit_ledger E no_net (Some i) s pg = (s', Some pg')"
    "lp_entries pg' = map shown_entry (rev (wallet_entries i (entries s)))" "lp_recon pg' = Some (recon_value ?rc)"
  have b: "rc_balanced ?rc" "rc_chain_valid ?rc" "rc_cached_balance ?rc = w_balance w"
    using reconcile_balanced [where s = "s\<lparr>ticks := k\<rparr>"] wf w by simp_all
  then have "rc_ledger_balance ?rc = w_balance w" by (simp add: reconcile_def Let_def)
  then show thesis using that v b
    by (simp add: recon_panel_def shown_recon_def int_field_def recon_check_def as_number_def Let_def)
qed

text \<open>The newest row ends with the balance of the wallet.\<close>

lemma running_last:
  assumes "running es" and "k \<noteq> SYSTEM_ACCOUNT" and "wallet_entries k es \<noteq> []"
  shows "e_balance_after (last (wallet_entries k es)) = ledger_balance (wallet_entries k es)"
  using assms
proof (induction es rule: rev_induct)
  case (snoc e es)
  then show ?case by (cases "e_wallet_id e = k") (auto simp: running_snoc wallet_entries_def)
qed (simp add: wallet_entries_def)

lemma shown_after: "er_after (entry_row tm (shown_entry e)) = dollars (e_balance_after e)"
proof -
  have "get_field (shown_entry e) (js ''balance_after'') = JNum (e_balance_after e)"
    by (simp add: shown_entry_def normal_entry_def get_spread_with) (simp add: entry_value_def normal_item_def spread_with_def)
  then show ?thesis by (simp add: entry_row_def Let_def as_number_def)
qed

lemma newest_after:
  assumes "wf_books s" and "map_get (wallets s) i = Some w" and "wallet_entries i (entries s) \<noteq> []"
  shows "er_after (entry_row tm (hd (map shown_entry (rev (wallet_entries i (entries s)))))) = dollars (w_balance w)"
proof -
  let ?es = "wallet_entries i (entries s)"
  have "i \<noteq> SYSTEM_ACCOUNT" using assms(1) jsmap.get_some_key [OF assms(2)] unfolding wf_books_def keyed_def by metis
  then have "e_balance_after (last ?es) = w_balance w"
    using running_last [of "entries s" i] assms by (simp add: wf_books_def reconciled_def)
  moreover have "hd (map shown_entry (rev ?es)) = shown_entry (last ?es)"
    using assms(3) by (simp add: hd_map hd_rev)
  ultimately show ?thesis by (simp add: shown_after)
qed

text \<open>An amount of a row, without its sign, reads back as the amount of the entry.\<close>

lemma drop_minus_none: "0x2212 \<notin> set s \<Longrightarrow> drop_minus s = s"
  by (induction s) auto

lemma dollars_no_minus: "0 \<le> n \<Longrightarrow> 0x2212 \<notin> set (dollars n)"
proof -
  assume n: "0 \<le> n"
  have "is_digit c \<Longrightarrow> c \<noteq> 0x2212" for c by (auto simp: is_digit_def)
  then have "0x2212 \<notin> set (dec k)" "0x2212 \<notin> set (pad_start j (dec k))" for j k
    using dec_digits [of k] pad_digits [of j k] by blast+
  moreover have "0x2212 \<notin> set (group_digits t)" if "0x2212 \<notin> set t" for t using set_group [of t] that by auto
  moreover have "0x2212 \<notin> set (js ''$'')" by (simp add: js_def)
  ultimately show ?thesis using n by (simp add: dollars_def money_text_def symbols_def Let_def)
qed

lemma row_amount:
  assumes "0 < e_amount e" and "e_amount e \<le> 2 ^ 53"
  shows "parseMinor (drop 1 (er_amount (entry_row tm (shown_entry e)))) = Some (e_amount e)"
    and "er_credit (entry_row tm (shown_entry e)) \<longleftrightarrow> e_direction e = Credit"
proof -
  have "drop 1 (er_amount (entry_row tm (shown_entry e))) = dollars (e_amount e)"
    using assms(1) drop_minus_none [OF dollars_no_minus [of "e_amount e"]]
    by (simp add: entry_row_def Let_def shown_amount)
  then show "parseMinor (drop 1 (er_amount (entry_row tm (shown_entry e)))) = Some (e_amount e)"
    using money_parse [of "e_amount e"] assms by (simp add: dollars_def)
  show "er_credit (entry_row tm (shown_entry e)) \<longleftrightarrow> e_direction e = Credit"
    using shown_direction [of e] by (cases "e_direction e") (simp_all add: entry_row_def Let_def)
qed

text \<open>Credits less debits of the page are the balance of the wallet.\<close>

lemma page_balance:
  assumes wf: "wf_books s" and w: "map_get (wallets s) i = Some w"
    and page: "lp_entries pg = map shown_entry (rev (wallet_entries i (entries s)))"
    and sums: "\<And>d. sum_list (in_direction d (wallet_entries i (entries s))) \<le> 2 ^ 53"
  shows "credits pg - debits pg = w_balance w"
proof -
  let ?es = "wallet_entries i (entries s)"
  have pos: "\<forall>e \<in> set ?es. 0 < e_amount e" using wf by (auto simp: wf_books_def accounted_def wallet_entries_def)
  have rev: "sum_list (in_direction d (rev ?es)) = sum_list (in_direction d ?es)" for d
    by (simp add: in_direction_def rev_filter [symmetric] rev_map [symmetric])
  have "direction_sum (direction_text d) (lp_entries pg) = sum_list (in_direction d ?es)" for d
    using shown_sum [of "rev ?es" d] pos page rev sums [of d] js_sum_exact [of "in_direction d (rev ?es)"]
      in_direction_pos [of "rev ?es"]
    by simp
  from this [of Credit] this [of Debit]
  have "credits pg = sum_list (in_direction Credit ?es)" "debits pg = sum_list (in_direction Debit ?es)"
    by (simp_all add: credits_def debits_def)
  then show ?thesis
    using ledger_balance_exact [OF pos sums sums] wf w by (simp add: wf_books_def reconciled_def)
qed

end
