(* ===== verification/Session.thy ===== *)
theory Session
  imports Lab_Session Console_View Outcome Ledger_Rows "HOL-Library.Sublist"
begin

text \<open>
  The whole console as a state machine over the engine: every operation of every page, in any
  order, with any answers of the network, and any requests at once. The abstract specification
  is the relation \<open>evolves\<close>: an engine changes only by serving requests one at a time and by
  drawing ids and reading the clock. The facts: every page refines it, so what serving a request
  preserves holds in every session, and the ledger only grows.
\<close>

section \<open>How an engine may change\<close>

inductive evolves :: "env \<Rightarrow> engine \<Rightarrow> engine \<Rightarrow> bool" for E and e where
  same: "evolves E e e"
| quiet: "evolves E e s \<Longrightarrow> drawn s \<le> d \<Longrightarrow> evolves E e (s\<lparr>drawn := d, ticks := k\<rparr>)"
| served: "evolves E e s \<Longrightarrow> evolves E e (serve E q s)"

lemma evolves_trans: "evolves E s t \<Longrightarrow> evolves E e s \<Longrightarrow> evolves E e t"
  by (induction rule: evolves.induct) (auto intro: evolves.intros)

lemma evolves_drawn: "evolves E e s \<Longrightarrow> drawn e \<le> drawn s"
  by (induction rule: evolves.induct) (auto intro: order_trans serve_drawn)

lemma evolves_sound:
  assumes "evolves E e s" and E: "fresh_ids E N" and e: "sound E n e" and N: "drawn s \<le> N"
  shows "sound E n s"
  using assms(1) N
proof (induction rule: evolves.induct)
  case (served s q)
  then show ?case using serve_sound [OF E] serve_drawn order_trans by blast
next
  case (quiet s d k)
  then have "sound E n s" by simp
  then show ?case by (rule sound_quiet [where c = "d - drawn s"]) (use quiet.hyps(2) in \<open>auto intro: quiet_refl\<close>)
qed (rule e)

text \<open>What lasts: a fact about the engine that serving a request and drawing keep.\<close>

locale lasting =
  fixes E :: env and P :: "engine \<Rightarrow> bool"
  assumes serve: "P s \<Longrightarrow> P (serve E q s)"
    and quiet: "P s \<Longrightarrow> P (s\<lparr>drawn := d, ticks := k\<rparr>)"
begin

lemma lasts: "evolves E e s \<Longrightarrow> P e \<Longrightarrow> P s"
  by (induction rule: evolves.induct) (auto intro: serve quiet)

end

section \<open>The ledger grows\<close>

lemma leg_appends: "prefix (entries s) (entries (leg E t d v s))"
  by (cases "wallet_ref s v") (auto simp: leg_def Let_def post_fields)

lemma commit_appends: "prefix (entries s) (entries (commit E t s))"
  unfolding commit_books by (rule prefix_order.order_trans [OF leg_appends leg_appends])

lemma critical_appends:
  "prefix (entries s) (entries (fst (critical E p s)))" "prefix (txs s) (txs (fst (critical E p s)))"
proof -
  have "prefix (entries s) (entries (fst (post_tx E p w s)))" for w
    using commit_appends [of "s\<lparr>drawn := drawn s + 1, ticks := ticks s + 1\<rparr>"] by (simp add: post_tx_def Let_def)
  then show "prefix (entries s) (entries (fst (critical E p s)))" "prefix (txs s) (txs (fst (critical E p s)))"
    by (cases "crit_begin p s"; cases rule: crit_end_cases [of E p s]; simp add: critical_def post_tx_fields)+
qed

lemma serve_appends: "prefix (entries s) (entries (serve E q s))" "prefix (txs s) (txs (serve E q s))"
proof -
  have "prefix (entries s) (entries (serve E q s)) \<and> prefix (txs s) (txs (serve E q s))"
  proof (cases rule: dispatch_cases [of E q s])
    case create
    then show ?thesis
      by (cases rule: create_wallet_cases [of E "q_body q" s]) (auto simp: serve_def handle_def)
  qed (auto simp: serve_def handle_def critical_appends)
  then show "prefix (entries s) (entries (serve E q s))" "prefix (txs s) (txs (serve E q s))" by simp_all
qed

interpretation record_lasts: lasting E "recorded key r" for E key r
  by unfold_locales (simp_all add: recorded_def serve_keep(1))

interpretation wallet_lasts: lasting E "\<lambda>s. k \<in> set (map_keys (wallets s))" for E k
  by unfold_locales (use serve_keep(2) in blast, simp)

interpretation entries_last: lasting E "\<lambda>s. prefix es (entries s)" for E es
  by unfold_locales (auto intro: prefix_order.order_trans serve_appends)

interpretation txs_last: lasting E "\<lambda>s. prefix ts (txs s)" for E ts
  by unfold_locales (auto intro: prefix_order.order_trans serve_appends)

section \<open>Requests\<close>

lemma evolves_draw: "evolves E e s \<Longrightarrow> drawn s \<le> d \<Longrightarrow> evolves E e (s\<lparr>drawn := d\<rparr>)"
  using evolves.quiet [of E e s d "ticks s"] by simp

lemma evolves_tick: "evolves E e s \<Longrightarrow> evolves E e (s\<lparr>ticks := k\<rparr>)"
  using evolves.quiet [of E e s "drawn s" k] by simp

lemma evolves_fold: "evolves E e s \<Longrightarrow> evolves E e (fold (serve E) qs s)"
  by (induction qs arbitrary: s) (auto intro: evolves.served)

lemma evolves_deliver:
  "evolves E e s \<Longrightarrow> deliver E t0 m path hs body status rhs raw live s = (s', r) \<Longrightarrow> evolves E e s'"
  using evolves.quiet [of E e s "drawn s + 1" "ticks s + 2"] by (auto simp: deliver_def split: option.splits)

lemma evolves_request:
  assumes "evolves E e s" and "api_request E net m path body extra s = (s', r)"
  shows "evolves E e s'"
proof -
  obtain extra' s1 where k: "with_key E m extra s = (extra', s1)" by fastforce
  define s0 where "s0 = s1\<lparr>ticks := ticks s1 + 1\<rparr>"
  define q where "q = sim_request m path body (request_headers body extra')"
  have "evolves E e s1" using assms(1) k by (auto simp: with_key_def intro: evolves_draw split: if_splits)
  then have s0: "evolves E e s0" unfolding s0_def by (rule evolves_tick)
  obtain s2 out where h: "handle E q s0 = (s2, out)" by fastforce
  have "evolves E e s2" using evolves.served [OF s0, of q] h by (simp add: serve_def)
  then show ?thesis
    using assms(2) s0 h k by (cases net; cases out) (auto simp: api_request_def Let_def q_def s0_def intro: evolves_deliver)
qed

lemma evolves_fst: "evolves E e s \<Longrightarrow> evolves E e (fst (api_request E net m path body extra s))"
  by (metis evolves_request prod.collapse)

section \<open>The pages\<close>

lemma evolves_page_request:
  "evolves E e (wp_engine pg) \<Longrightarrow> page_request E net m path body pg = (r, pg') \<Longrightarrow> evolves E e (wp_engine pg')"
  by (auto simp: page_request_def split: prod.splits option.splits intro: evolves_request)

lemma evolves_bump: "evolves E e (wp_engine pg) \<Longrightarrow> evolves E e (wp_engine (bump_page E net pg))"
proof -
  assume e: "evolves E e (wp_engine pg)"
  obtain r pg' where p: "page_request E net GET (js ''/wallets'') JUndef (pg\<lparr>wp_store := bump_revision (wp_store pg)\<rparr>) = (r, pg')"
    by fastforce
  have "evolves E e (wp_engine pg')" by (rule evolves_page_request [OF _ p]) (simp add: e)
  then show ?thesis by (simp add: bump_page_def p split: option.split)
qed

lemma evolves_open_wallet: "evolves E e (wp_engine pg) \<Longrightarrow> evolves E e (wp_engine (open_wallet E net pg))"
proof -
  assume e: "evolves E e (wp_engine pg)"
  obtain r pg' where p: "page_request E (net 0) POST (js ''/wallets'') (JObj [(js ''owner'', JStr (trim (wp_owner pg)))])
      (pg\<lparr>wp_busy := True, wp_error := JNull\<rparr>) = (r, pg')"
    by fastforce
  have pg': "evolves E e (wp_engine pg')" by (rule evolves_page_request [OF _ p]) (simp add: e)
  have "evolves E e (wp_engine (opened E net' r' (pg'\<lparr>wp_busy := False\<rparr>)))" for net' r'
    unfolding opened_def Let_def by (intro evolves_bump) (simp add: pg' evolves_draw)
  then show ?thesis using e pg' by (simp add: open_wallet_def p Let_def split: option.split)
qed

lemma evolves_reads:
  "evolves E e s \<Longrightarrow> read_wallets E net n ws s = (s', rs) \<Longrightarrow> evolves E e s'"
proof (induction E net n ws s arbitrary: s' rs rule: read_wallets.induct)
  case (2 E net n w ws s)
  obtain s1 r where r: "api_request E (net n) GET (js ''/wallets/'' @ js_string (wallet_id w)) JUndef [] s = (s1, r)"
    by fastforce
  obtain s2 rs' where rs: "read_wallets E net (n + 1) ws s1 = (s2, rs')" by fastforce
  have "evolves E e s2" using 2(1) [OF r [symmetric] refl _ rs] evolves_request [OF 2(2) r] by blast
  moreover have "s' = s2" using 2(3) rs by (auto simp: r)
  ultimately show ?case by simp
qed simp

lemma evolves_send:
  assumes e: "evolves E e s" and "send E net key ws s f = (s', r)"
  shows "evolves E e s'"
proof -
  obtain s1 r1 where 1: "api_request E (net 0) POST (PATH (tf_kind f)) (form_body f) [(js ''Idempotency-Key'', key)] s = (s1, r1)"
    by fastforce
  obtain s2 r2 where 2: "read_wallets E net 1 (affected ws f) s1 = (s2, r2)" by fastforce
  have s1: "evolves E e s1" by (rule evolves_request [OF e 1])
  have s2: "evolves E e s2" by (rule evolves_reads [OF s1 2])
  have "evolves E e (fst (after_send E x a s2 f))" for x a
    using s2 by (simp add: after_send_def Let_def evolves_draw)
  then have "evolves E e (refetched E nt (fst (after_send E x a s2 f)))" for x a nt
    unfolding refetched_def by (rule evolves_fst)
  moreover have "s' = s \<or> s' = s1 \<or> s' = s2 \<or> (\<exists>x a nt. s' = refetched E nt (fst (after_send E x a s2 f)))"
    using assms(2) by (auto simp: send_def 1 2 2 [unfolded One_nat_def] Let_def split_beta split: option.splits if_splits)
  ultimately show ?thesis using e s1 s2 by blast
qed

lemma evolves_visit: "evolves E e s \<Longrightarrow> visit_ledger E net sel s pg = (s', r) \<Longrightarrow> evolves E e s'"
  by (auto simp: visit_ledger_def split_beta Let_def intro: evolves_fst split: option.splits)

lemma evolves_press_send: "evolves E e (cp_engine pg) \<Longrightarrow> evolves E e (cp_engine (press_send E net parse pg))"
proof (cases "console_send E (net 0) parse (cp_form pg) (cp_engine pg)")
  case (Inr p)
  assume e: "evolves E e (cp_engine pg)"
  obtain s r where p: "p = (s, r)" by fastforce
  then obtain body where "api_request E (net 0) (cf_method (cp_form pg)) (console_path (cp_form pg)) body
      (console_headers (cp_form pg)) (cp_engine pg) = (s, r)"
    using Inr by (auto simp: console_send_def split: sum.splits)
  then have "evolves E e s" using evolves_request e by blast
  then show ?thesis
    by (auto simp: press_send_def Inr p bump_console_def Let_def intro!: evolves_bump split: option.split)
qed (simp add: press_send_def)

section \<open>The Systems Lab\<close>

definition tame :: "env \<Rightarrow> 'a lab \<Rightarrow> bool" where
  "tame E m \<longleftrightarrow> (\<forall>e x. evolves E e (lx_eng x) \<longrightarrow> evolves E e (lx_eng (snd (m x))))"

named_theorems tame_intro \<open>computations of the Lab under which the engine evolves\<close>

lemma tame_then [tame_intro]: "tame E m \<Longrightarrow> (\<And>v. tame E (g v)) \<Longrightarrow> tame E (and_then m g)"
  by (simp add: tame_def and_then_def split: prod.split sum.split) (metis snd_conv)

lemma tame_base [tame_intro]:
  "tame E (give v)" "tame E (throw t)" "tame E (log_step p)" "tame E (set_fixture f)" "tame E (draw_key E')"
  by (simp_all add: tame_def give_def throw_def log_step_def set_fixture_def draw_key_def evolves_draw)

lemma tame_call [tame_intro]: "tame E (lab_call E net label m path body hs prep)"
  unfolding tame_def
proof (intro allI impI)
  fix e and x :: lab_run assume e: "evolves E e (lx_eng x)"
  obtain s r where r: "api_request E (net (ticks (lx_eng x))) m path body hs (lx_eng x) = (s, r)" by fastforce
  show "evolves E e (lx_eng (snd (lab_call E net label m path body hs prep x)))"
    using evolves_request [OF e r] by (simp add: lab_call_def r split: option.split)
qed

lemma tame_batch [tame_intro]: "tame E (\<lambda>x. run_batch E sched (g x) x)"
  unfolding tame_def
proof (intro allI impI)
  fix e and x :: lab_run assume e: "evolves E e (lx_eng x)"
  define s where "s = (lx_eng x)\<lparr>drawn := drawn (lx_eng x) + length (g x)\<rparr>"
  have s: "evolves E e s" unfolding s_def using e by (intro evolves_draw) simp_all
  have "evolves E e (eng t)" if "run E sched [] (start s (g x)) = Some (order, t)" for order t
    using execution_fold [OF run_is_execution [OF that]] evolves_fold [OF s] by simp
  then show "evolves E e (lx_eng (snd (run_batch E sched (g x) x)))"
    using e by (auto simp: run_batch_def s_def [symmetric] Let_def intro: evolves.quiet split: prod.split option.split)
qed

lemma tame_parts [tame_intro]:
  "tame E (lab_balance E net w label)" "tame E (snapshot E net greek w)"
  "tame E (lab_reconcile E net label w)" "tame E (replay_attempt E net key body i)"
  "tame E (make_fixture E net tag)" "tame E (top_up E net f)"
  by (auto simp: lab_balance_def snapshot_def lab_reconcile_def replay_attempt_def make_fixture_def top_up_def Let_def
      intro!: tame_intro)

lemma tame_ensure [tame_intro]: "tame E (ensure_fixture E net tag)"
  using tame_parts(5) [of E net tag] tame_base(1) by (simp add: tame_def ensure_fixture_def give_def split: option.split)

lemma tame_experiment [tame_intro]: "tame E (chosen_experiment E net rnd k sched ms x f)"
proof (cases x)
qed (simp_all add: chosen_experiment_def replay_experiment_def tamper_experiment_def overdraft_experiment_def
    batch_experiment_def Let_def; intro tame_intro)+

lemma tameD: "tame E m \<Longrightarrow> evolves E e (lx_eng x) \<Longrightarrow> evolves E e (lx_eng (snd (m x)))"
  by (simp add: tame_def)

lemma evolves_run_one:
  assumes "evolves E e (lb_engine pg)"
  shows "evolves E e (lb_engine (snd (run_one E net k io x pg)))"
proof -
  have "evolves E e (lx_eng (snd (run_experiment E net tag rnd k sched ms x fx (lb_engine pg))))" for tag rnd sched ms fx
    unfolding run_experiment_def by (rule tameD) (intro tame_intro, simp add: assms)
  then show ?thesis by (simp add: run_one_def bumped_def Let_def evolves_fst)
qed

lemma evolves_run_each: "evolves E e (lb_engine pg) \<Longrightarrow> evolves E e (lb_engine (snd (run_each E net k io xs (n, pg))))"
proof (induction xs arbitrary: n pg)
  case (Cons x xs)
  obtain p pg' where r: "run_one E net k (io x) x pg = (p, pg')" by fastforce
  then show ?case using Cons evolves_run_one [OF Cons.prems, of net k "io x" x] by (simp add: r)
qed simp

lemma evolves_run_all: "evolves E e (lb_engine pg) \<Longrightarrow> evolves E e (lb_engine (snd (run_all E net k io pg)))"
  using evolves_run_each [of E e pg net k io "map fst EXPS" 0]
  by (auto simp: run_all_def Let_def split_beta intro: evolves_draw)

section \<open>Sessions\<close>

text \<open>
  One step of a session: an operation of a page, in whatever state the page is and whatever the
  network answers; requests that run at once, up to any moment of their execution; or nothing
  but time and ids (of a toast, say). Operations that overlap are covered by the requests they
  send.
\<close>

inductive page_step :: "env \<Rightarrow> engine \<Rightarrow> engine \<Rightarrow> bool" for E where
  opens_wallet: "page_step E (wp_engine wp) (wp_engine (open_wallet E net wp))"
| refreshes: "page_step E (wp_engine wp) (wp_engine (bump_page E net wp))"
| submits: "press_submit E net busy ws e f = (e', r) \<Longrightarrow> page_step E e e'"
| retries: "press_retry E net busy ws e f = (e', r) \<Longrightarrow> page_step E e e'"
| renews_key: "new_key E e f = (e', f') \<Longrightarrow> page_step E e e'"
| visits_ledger: "visit_ledger E net sel e lp = (e', r) \<Longrightarrow> page_step E e e'"
| sends: "page_step E (cp_engine cp) (cp_engine (press_send E net parse cp))"
| chooses_preset: "choose_preset E name cp = Some cp' \<Longrightarrow> page_step E (cp_engine cp) (cp_engine cp')"
| draws_console_key: "page_step E (cp_engine cp) (cp_engine (draw_console_key E cp))"
| experiments: "page_step E (lb_engine lb) (lb_engine (snd (run_one E net k input x lb)))"
| all_experiments: "page_step E (lb_engine lb) (lb_engine (snd (run_all E net k inputs lb)))"
| together: "execution E (start e qs) sched order t \<Longrightarrow> page_step E e (eng t)"
| idles: "drawn e \<le> d \<Longrightarrow> page_step E e (e\<lparr>drawn := d, ticks := k\<rparr>)"

lemma page_evolves: "page_step E s t \<Longrightarrow> evolves E s t"
proof (induction rule: page_step.induct)
  case (submits net busy ws e f e' r)
  then show ?case by (auto simp: press_submit_def intro: evolves.same evolves_send split: if_splits)
next
  case (retries net busy ws e f e' r)
  then show ?case by (auto simp: press_retry_def intro: evolves.same evolves_send split: if_splits option.splits)
next
  case (chooses_preset name cp cp')
  then show ?case by (auto simp: choose_preset_def evolves_draw evolves.same)
next
  case (together e qs sched order t)
  then show ?case using evolves_fold [OF evolves.same] by (simp add: execution_fold)
qed (auto simp: new_key_def draw_console_key_def Let_def evolves.same evolves_draw evolves_open_wallet evolves_bump
    evolves_visit [OF evolves.same] evolves_press_send evolves_run_one evolves_run_all intro: evolves.quiet evolves.same)

lemma session_evolves: "(page_step E)\<^sup>*\<^sup>* s t \<Longrightarrow> evolves E s t"
  by (induction rule: rtranclp_induct) (auto intro: evolves.same evolves_trans page_evolves)

lemma session_sound:
  assumes "(page_step E)\<^sup>*\<^sup>* (seed E) e" and "fresh_ids E N" and "21 \<le> N" and "drawn e \<le> N"
  shows "sound E 6 e"
  using evolves_sound [OF session_evolves [OF assms(1)] assms(2) _ assms(4)]
    seed_sound [OF fresh_ids_mono [OF assms(2,3)]] by blast

text \<open>What a sound engine answers when a wallet is reconciled.\<close>

lemma sound_reconciles:
  assumes E: "fresh_ids E N" and e: "sound E n e" and N: "drawn e \<le> N" and w: "map_get (wallets e) i = Some w"
  obtains s' rc where "handle E (get_request (js ''/wallets/'' @ i @ js ''/reconcile'')) e =
      (s', Returned (ok (ReconBody rc) 200 []))"
    and "rc_balanced rc" and "rc_chain_valid rc" and "rc_ledger_balance rc = w_balance w"
proof -
  have wf: "wf_books e" using e by (simp add: sound_def)
  show ?thesis
    using that handle_reconcile [OF _ w] sound_keys [OF E e N w] reconcile_balanced [OF wf w, of E]
    by (auto simp: reconcile_def Let_def)
qed

end
