(* ===== verification/Overview.thy ===== *)
theory Overview
  imports Shell Quotients Wallets_Page "HOL-Library.Multiset"
begin

text \<open>
  The overview page: the total with its segments and legend, the tiles of the health report,
  the latency chart, the pipeline and the cards of the capabilities. The facts: the segments
  add up to the total, a share in the legend is the nearest tenth of a percent, the points of
  the chart lie in its box, and every capability of the engine in the page has a card text.
\<close>

section \<open>The segments of the total\<close>

text \<open>The 95th percentile of the recorded latencies.\<close>

definition p95 :: "int list \<Rightarrow> int" where
  "p95 ls = (if ls = [] then 0 else sort ls ! (length ls * 95 div 100))"

record segment =
  sg_id :: jstr
  sg_label :: jsval
  sg_balance :: int
  sg_pct :: double
  sg_color :: jstr

definition colors :: "jstr list" where
  "colors = map js [''#c4f55a'', ''#7cc4ff'', ''#f5b544'', ''#c084fc'', ''#38bdf8'']"

text \<open>The balances that are shown are positive.\<close>

definition percent :: "int \<Rightarrow> int \<Rightarrow> double" where
  "percent whole balance = (if 0 < whole then js_times 100 (js_div (nat balance) (nat whole)) else (0, 0))"

definition richest :: "jsval list \<Rightarrow> jsval list" where
  "richest ws = sort_key (\<lambda>w. - balance_of w) (filter (\<lambda>w. 0 < balance_of w) ws)"

definition top_segment :: "int \<Rightarrow> nat \<times> jsval \<Rightarrow> segment" where
  "top_segment whole p =
     (let (i, w) = p
      in \<lparr>sg_id = js_string (wallet_id w), sg_label = wallet_owner w,
          sg_balance = balance_of w, sg_pct = percent whole (balance_of w),
          sg_color = colors ! (i mod length colors)\<rparr>)"

definition segments :: "jsval list \<Rightarrow> segment list" where
  "segments ws =
     (let whole = total_held ws; ranked = richest ws; top = take 5 ranked;
          other = js_sum (map balance_of (drop 5 ranked))
      in map (top_segment whole) (enumerate 0 top) @
         (if 0 < other
          then [\<lparr>sg_id = js ''other'',
                 sg_label = JStr (js ''Other accounts ('' @ num_text (int (length ranked) - 5) @ js '')''),
                 sg_balance = other, sg_pct = percent whole other,
                 sg_color = js ''rgba(255, 255, 255, 0.25)''\<rparr>]
          else []))"

lemma sum_richest: "sum_list (map balance_of (richest ws)) = sum_list (filter (\<lambda>x. 0 < x) (map balance_of ws))"
proof -
  have "mset (richest ws) = mset (filter (\<lambda>w. 0 < balance_of w) ws)" by (simp add: richest_def)
  then have "sum_mset (mset (map balance_of (richest ws))) =
      sum_mset (mset (map balance_of (filter (\<lambda>w. 0 < balance_of w) ws)))"
    by (simp only: mset_map)
  then show ?thesis by (simp only: sum_mset_sum_list filter_map comp_def)
qed

lemma sum_positive: "\<forall>x \<in> set xs. 0 \<le> x \<Longrightarrow> sum_list (filter (\<lambda>x. 0 < x) xs) = sum_list (xs :: int list)"
  by (induction xs) auto

lemma segment_sum:
  assumes nn: "\<forall>w \<in> set ws. 0 \<le> balance_of w" and lim: "sum_list (map balance_of ws) \<le> 2 ^ 53"
  shows "sum_list (map sg_balance (segments ws)) = sum_list (map balance_of ws)"
    and "total_held ws = sum_list (map balance_of ws)"
proof -
  let ?top = "take 5 (richest ws)" and ?rest = "drop 5 (richest ws)"
  show held: "total_held ws = sum_list (map balance_of ws)"
    unfolding total_held_def using nn lim by (intro js_sum_exact) auto
  have pos: "\<forall>w \<in> set (richest ws). 0 < balance_of w" by (auto simp: richest_def)
  have sum: "sum_list (map balance_of ?top) + sum_list (map balance_of ?rest) = sum_list (map balance_of ws)"
  proof -
    have "sum_list (map balance_of (richest ws)) = sum_list (map balance_of ws)"
      using sum_richest [of ws] sum_positive [of "map balance_of ws"] nn by simp
    then show ?thesis by (metis append_take_drop_id map_append sum_list_append)
  qed
  have tops: "0 \<le> sum_list (map balance_of ?top)"
    using pos by (intro sum_list_nonneg) (fastforce dest: in_set_takeD)
  have rests: "0 \<le> sum_list (map balance_of ?rest)"
    using pos by (intro sum_list_nonneg) (fastforce dest: in_set_dropD)
  have other: "js_sum (map balance_of ?rest) = sum_list (map balance_of ?rest)"
    using pos sum tops lim by (intro js_sum_exact) (fastforce dest: in_set_dropD)+
  have top: "map sg_balance (map (top_segment t) (enumerate n xs)) = map balance_of xs" for t n xs
    by (induction xs arbitrary: n) (simp_all add: top_segment_def)
  show "sum_list (map sg_balance (segments ws)) = sum_list (map balance_of ws)"
    using sum other rests top [of "total_held ws" 0 ?top]
    by (cases "0 < js_sum (map balance_of ?rest)") (simp_all add: segments_def Let_def comp_def)
qed

section \<open>Legend\<close>

record legend_line =
  lg_title :: jstr
  lg_label :: jsval
  lg_share :: jstr
  lg_color :: jstr

definition legend_line :: "segment \<Rightarrow> legend_line" where
  "legend_line sg =
     \<lparr>lg_title = js_string (sg_label sg) @ js '': '' @ money_text (sg_balance sg) (js ''USD'') False @ js '' ('' @
        toFixed1 (sg_pct sg) @ js ''%)'',
      lg_label = sg_label sg, lg_share = toFixed1 (sg_pct sg) @ js ''%'', lg_color = sg_color sg\<rparr>"

definition legend :: "jsval list \<Rightarrow> legend_line list" where
  "legend ws = map legend_line (segments ws)"

lemma segment_pct: "sg \<in> set (segments ws) \<Longrightarrow> sg_pct sg = percent (total_held ws) (sg_balance sg)"
  by (auto simp: segments_def top_segment_def Let_def split: if_splits)

lemma segment_pos: "sg \<in> set (segments ws) \<Longrightarrow> 0 < sg_balance sg"
proof -
  have "0 < balance_of w" if "(i, w) \<in> set (enumerate 0 (take 5 (richest ws)))" for i w
  proof -
    have "w \<in> set (take 5 (richest ws))" using that by (metis enumerate_eq_zip set_zip_rightD)
    then have "w \<in> set (richest ws)" by (rule in_set_takeD)
    then show ?thesis by (simp add: richest_def)
  qed
  then show "sg \<in> set (segments ws) \<Longrightarrow> 0 < sg_balance sg"
    by (auto simp: segments_def top_segment_def Let_def split: if_splits)
qed

lemma member_le_sum: "\<forall>x \<in> set xs. 0 \<le> x \<Longrightarrow> y \<in> set xs \<Longrightarrow> y \<le> sum_list (xs :: int list)"
proof (induction xs)
  case (Cons x xs)
  have "0 \<le> sum_list xs" using Cons.prems(1) by (intro sum_list_nonneg) simp
  then show ?case using Cons by auto
qed simp

text \<open>A share that is shown is the nearest tenth of a percent.\<close>

lemma segment_nearest:
  assumes nn: "\<forall>w \<in> set ws. 0 \<le> balance_of w" and lim: "sum_list (map balance_of ws) \<le> 2 ^ 40"
    and sg: "sg \<in> set (segments ws)"
  shows "2 * \<bar>total_held ws * int (tenths_of (sg_pct sg)) - 1000 * sg_balance sg\<bar> \<le> total_held ws"
proof -
  define T where "T = nat (total_held ws)"
  define b where "b = nat (sg_balance sg)"
  have sums: "sum_list (map sg_balance (segments ws)) = total_held ws" "total_held ws \<le> 2 ^ 40"
    using segment_sum [OF nn] lim by simp_all
  have "sg_balance sg \<le> sum_list (map sg_balance (segments ws))"
    using sg segment_pos by (intro member_le_sum) (auto simp: less_imp_le)
  then have le: "0 < sg_balance sg" "sg_balance sg \<le> total_held ws" using segment_pos [OF sg] sums by simp_all
  then have T: "total_held ws = int T" "sg_balance sg = int b" "b \<le> T" "0 < T" "T \<le> 2 ^ 40"
    using sums(2) by (simp_all add: T_def b_def)
  define n where "n = tenths_of (js_times 100 (js_div b T))"
  have n: "tenths_of (sg_pct sg) = n" using T(4) by (simp add: segment_pct [OF sg] percent_def n_def T(1,2))
  have "2 * T * n \<le> 2000 * b + T" "2000 * b \<le> 2 * T * n + T"
    unfolding n_def using T(3-5) by (intro share_nearest; simp)+
  then have "int (2 * T * n) \<le> int (2000 * b + T)" "int (2000 * b) \<le> int (2 * T * n + T)" by (simp_all only: of_nat_le_iff)
  moreover define x where "x = int T * int n"
  ultimately have "2 * x \<le> 2000 * int b + int T" "2000 * int b \<le> 2 * x + int T" by (simp_all add: mult.left_commute)
  then show ?thesis unfolding n T(1,2) x_def [symmetric] by (cases "0 \<le> x - 1000 * int b") simp_all
qed

section \<open>Tiles of the health report\<close>

text \<open>
  A report of the shape of the interface \<open>Health\<close>, read off the JSON; reports of other shapes,
  which the page does not check, are left out. A \<open>null\<close> counts as no report.
\<close>

record health_report =
  hr_status :: jstr
  hr_version :: jstr
  hr_uptime :: int
  hr_db_status :: jstr
  hr_driver :: jstr
  hr_latency :: jstr
  hr_in_use :: int
  hr_max :: int
  hr_capabilities :: "jstr list"

definition read_health :: "jsval \<Rightarrow> health_report option" where
  "read_health v =
     (let f = get_field v; d = get_field (f (js ''database''))
      in case (f (js ''status''), f (js ''version''), f (js ''uptime_s''), d (js ''status''), d (js ''driver''),
               d (js ''pool_in_use''), d (js ''pool_max''), f (js ''capabilities'')) of
           (JStr s, JStr v, JNum up, JStr ds, JStr dr, JNum used, JNum most, JArr cs) \<Rightarrow>
             Some \<lparr>hr_status = s, hr_version = v, hr_uptime = up, hr_db_status = ds, hr_driver = dr,
               hr_latency = js_string (d (js ''latency_ms'')), hr_in_use = used, hr_max = most,
               hr_capabilities = map js_string cs\<rparr>
         | _ \<Rightarrow> None)"

definition report :: "store \<Rightarrow> health_report option" where
  "report st = read_health (st_health st)"

text \<open>A tile: its value, whether it has the colour of a working part, and its second line.\<close>

record tile =
  tl_label :: jstr
  tl_value :: jstr
  tl_good :: bool
  tl_sub :: jstr

abbreviation "dash \<equiv> [0x2014] :: jstr"

definition upper :: "jstr \<Rightarrow> jstr" where
  "upper s = map upper_unit s"

definition engine_tile :: "store \<Rightarrow> tile" where
  "engine_tile st =
     \<lparr>tl_label = js ''Engine'',
      tl_value = (case report st of Some h \<Rightarrow> upper (hr_status h)
        | None \<Rightarrow> if st_mode st = Probing then [0x2026] else js ''DOWN''),
      tl_good = (case report st of Some h \<Rightarrow> hr_status h = js ''ok'' | None \<Rightarrow> False),
      tl_sub = (case report st of None \<Rightarrow> dash
        | Some h \<Rightarrow> hr_version h @ js '' '' @ [0xB7] @ js '' up '' @ fmtUptime (hr_uptime h))\<rparr>"

definition database_tile :: "store \<Rightarrow> tile" where
  "database_tile st =
     \<lparr>tl_label = js ''Database'',
      tl_value = (case report st of Some h \<Rightarrow> hr_latency h @ js ''ms'' | None \<Rightarrow> dash),
      tl_good = (case report st of Some h \<Rightarrow> hr_db_status h = js ''up'' | None \<Rightarrow> False),
      tl_sub = (case report st of Some h \<Rightarrow> hr_driver h | None \<Rightarrow> dash)\<rparr>"

text \<open>A measured latency, in tenths of a millisecond and not negative, as the double it is.\<close>

definition latency :: "int \<Rightarrow> double" where
  "latency t = js_div (nat t) 10"

definition average :: "int list \<Rightarrow> double" where
  "average ls = (if ls = [] then (0, 0) else dbl_quot (foldl dbl_plus (0, 0) (map latency ls)) (length ls, 0))"

definition roundtrip_tile :: "store \<Rightarrow> tile" where
  "roundtrip_tile st =
     \<lparr>tl_label = js ''API round-trip'',
      tl_value = (case st_health_ms st of None \<Rightarrow> dash | Some ms \<Rightarrow> tenths_text ms) @ js ''ms'', tl_good = True,
      tl_sub = js ''avg '' @ toFixed1 (average (st_latency st)) @ js '' '' @ [0xB7] @ js '' p95 '' @
        toFixed1 (latency (p95 (st_latency st)))\<rparr>"

definition pool_tile :: "store \<Rightarrow> tile" where
  "pool_tile st =
     \<lparr>tl_label = js ''Connection pool'',
      tl_value = (case report st of Some h \<Rightarrow> num_text (hr_in_use h) | None \<Rightarrow> dash) @ js '' / '' @
        (case report st of Some h \<Rightarrow> num_text (hr_max h) | None \<Rightarrow> dash),
      tl_good = True, tl_sub = js ''connections in use''\<rparr>"

text \<open>The cells of the pool; the ones in use are lit.\<close>

definition pool_cells :: "store \<Rightarrow> bool list" where
  "pool_cells st =
     (case report st of None \<Rightarrow> replicate 25 False
      | Some h \<Rightarrow> map (\<lambda>i. int i < hr_in_use h) [0..<nat (hr_max h)])"

lemma read_health_value:
  "read_health (health_value h) =
     Some \<lparr>hr_status = h_status h, hr_version = h_version h, hr_uptime = h_uptime_s h, hr_db_status = h_db_status h,
       hr_driver = h_driver h, hr_latency = js_string (hundredths (h_latency_hundredths h)),
       hr_in_use = h_pool_in_use h, hr_max = h_pool_max h, hr_capabilities = h_capabilities h\<rparr>"
  by (simp add: read_health_def health_value_def Let_def comp_def)

text \<open>The percentile is shown as it was measured.\<close>

lemma latency_text: "0 \<le> t \<Longrightarrow> t < 10 * 2 ^ 46 \<Longrightarrow>
    toFixed1 (latency t) = dec (nat t div 10) @ 0x2E # dec (nat t mod 10)"
  using tenths_exact [of "nat t"] by (simp add: toFixed1_def latency_def Let_def)

text \<open>As many cells are lit as connections are in use.\<close>

lemma pool_lit:
  assumes "report st = Some h" and "0 \<le> hr_in_use h" and "hr_in_use h \<le> hr_max h"
  shows "int (length (filter id (pool_cells st))) = hr_in_use h" and "int (length (pool_cells st)) = hr_max h"
proof -
  have "card {i. i < m \<and> int i < k} = nat k" if "k \<le> int m" for k m
  proof -
    have "{i. i < m \<and> int i < k} = {..<nat k}" using that by auto
    then show ?thesis by simp
  qed
  then show "int (length (filter id (pool_cells st))) = hr_in_use h"
    using assms by (simp add: pool_cells_def length_filter_conv_card cong: conj_cong)
  show "int (length (pool_cells st)) = hr_max h" using assms by (simp add: pool_cells_def)
qed

section \<open>Chart\<close>

text \<open>
  \<open>Sparkline\<close> on at least two latencies. The factor 1.15 is its double. The coordinates are kept
  as doubles and shown with one decimal.
\<close>

definition factor_115 :: double where
  "factor_115 = (5179139571476070, 52)"

definition largest :: "double list \<Rightarrow> double" where
  "largest ds = foldr later ds (0, 0)"

definition spark_max :: "double list \<Rightarrow> double" where
  "spark_max ds = (let M = dbl_mult (largest ds) factor_115 in if fst M = 0 then (1, 0) else M)"

definition spark_point :: "nat \<Rightarrow> double list \<Rightarrow> nat \<Rightarrow> double \<times> double" where
  "spark_point h ds i =
     (js_times 200 (js_div i (length ds - 1)), dbl_minus (h, 0) (js_times h (dbl_quot (ds ! i) (spark_max ds))))"

definition spark_path :: "nat \<Rightarrow> double list \<Rightarrow> jstr" where
  "spark_path h ds =
     join (js '' '') (map (\<lambda>i. (case spark_point h ds i of (x, y) \<Rightarrow>
       (if i = 0 then js ''M'' else js ''L'') @ toFixed1 x @ js '','' @ toFixed1 y)) [0..<length ds])"

text \<open>The filled area and the line; nothing is drawn for fewer than two latencies.\<close>

definition sparkline :: "nat \<Rightarrow> double list \<Rightarrow> (jstr \<times> jstr) option" where
  "sparkline h ds =
     (if length ds < 2 then None
      else Some (spark_path h ds @ js '' L200,'' @ dec h @ js '' L0,'' @ dec h @ js '' Z'', spark_path h ds))"

lemma largest_ge: "d \<in> set ds \<Longrightarrow> not_after d (largest ds)"
  by (induction ds) (auto simp: largest_def later_def intro: not_after_trans not_after_total)

text \<open>A double times 1.15 is not below it, though the product is rounded.\<close>

lemma raised_ge: "not_after d (dbl_mult d factor_115)"
proof -
  obtain m k where d: "d = (m, k)" by fastforce
  define p where "p = m * 5179139571476070"
  define P :: nat where "P = 2 ^ excess p"
  define M where "M = quot_even p P * P"
  have M: "dbl_mult d factor_115 = (M, k + 52)"
    by (simp add: dbl_mult_def js_times_def factor_115_def d p_def P_def M_def Let_def)
  have P: "2 * p \<le> 2 * P * quot_even p P + P" by (rule quot_even_bounds) (simp add: P_def)
  have "2 ^ 52 * P \<le> p + 2 ^ 52"
  proof (cases "p < 2 ^ 53")
    case False
    then have "2 ^ 52 \<le> p div P" unfolding P_def by (intro excess_quotient) simp
    moreover have "0 < P" by (simp add: P_def)
    ultimately have "2 ^ 52 * P \<le> p" by (simp only: less_eq_div_iff_mult_less_eq)
    then show ?thesis by simp
  qed (simp add: P_def)
  moreover have "2 * p \<le> 2 * M + P" using P by (simp add: M_def ac_simps)
  ultimately have "m * 2 ^ 52 \<le> M" by (cases "m = 0") (simp_all add: p_def)
  then have "m * 2 ^ 52 * 2 ^ k \<le> M * 2 ^ k" by (rule mult_le_mono1)
  then show ?thesis by (simp add: not_after_def M [unfolded d] d power_add ac_simps)
qed

lemma spark_max_ge: "d \<in> set ds \<Longrightarrow> not_after d (spark_max ds)"
proof -
  assume "d \<in> set ds"
  then have d: "not_after d (dbl_mult (largest ds) factor_115)" by (rule not_after_trans [OF largest_ge raised_ge])
  show ?thesis
  proof (cases "fst (dbl_mult (largest ds) factor_115) = 0")
    case True
    then have "fst d = 0" using d by (simp add: not_after_def)
    then show ?thesis using True by (simp add: spark_max_def not_after_def)
  next
    case False
    then show ?thesis using d by (simp add: spark_max_def Let_def)
  qed
qed

lemma spark_max_pos: "0 < fst (spark_max ds)"
  by (simp add: spark_max_def Let_def)

text \<open>The points lie in the box of the chart, and the subtraction is never below zero.\<close>

lemma spark_in_box:
  assumes i: "i < length ds" "2 \<le> length ds" and h: "h \<le> 2 ^ 52" and p: "spark_point h ds i = (x, y)"
  shows "tenths_of x \<le> 2000" and "tenths_of y \<le> 10 * h"
    and "at_most (js_times h (dbl_quot (ds ! i) (spark_max ds))) h"
proof -
  have "at_most (dbl_quot (ds ! i) (spark_max ds)) 1" using spark_max_pos i(1) by (intro dbl_quot_le spark_max_ge) simp_all
  then show "at_most (js_times h (dbl_quot (ds ! i) (spark_max ds))) h" using js_times_le [of _ 1 h] h by simp
  have "at_most (js_div i (length ds - 1)) 1" using i by (intro js_div_le_1) auto
  moreover have "x = js_times 200 (js_div i (length ds - 1))" using p by (auto simp: spark_point_def)
  ultimately have "at_most x 200" using js_times_le [of "js_div i (length ds - 1)" 1 200] by simp
  then show "tenths_of x \<le> 2000" using tenths_le [of x 200] by simp
  obtain m k where mk: "js_times h (dbl_quot (ds ! i) (spark_max ds)) = (m, k)" by fastforce
  have "at_most (h * 2 ^ k - m, k) h" by (simp add: at_most_def)
  then have "at_most y h" using js_times_le [of "(h * 2 ^ k - m, k)" h 1] h p by (auto simp: spark_point_def mk dbl_minus_def)
  then show "tenths_of y \<le> 10 * h" by (rule tenths_le)
qed

section \<open>Pipeline and capabilities\<close>

record stage =
  sp_number :: jstr
  sp_name :: jstr
  sp_what :: jstr
  sp_note :: jstr
  sp_arrow :: bool

definition PIPELINE :: "(jstr \<times> jstr \<times> jstr) list" where
  "PIPELINE =
     [(js ''HTTP'', js ''net/http handler'', js ''validate '' @ [0xB7] @ js '' decode''),
      (js ''Guard'', js ''Idempotency'', js ''key + sha256(body)''),
      (js ''BEGIN'', js ''Serializable tx'', js ''SELECT '' @ [0x2026] @ js '' FOR UPDATE''),
      (js ''Check'', js ''Invariants'', js ''balance '' @ [0x2265] @ js '' amount''),
      (js ''Post'', js ''Ledger entries'', js ''append-only '' @ [0xB7] @ js '' chained''),
      (js ''COMMIT'', js ''Durable'', js ''response cached by key'')]"

definition stages :: "stage list" where
  "stages =
     map (\<lambda>(i, k, d, note).
            \<lparr>sp_number = js ''0'' @ dec (i + 1), sp_name = k, sp_what = d, sp_note = note,
             sp_arrow = (i < length PIPELINE - 1)\<rparr>)
       (enumerate 0 PIPELINE)"

text \<open>Titles and texts of the capabilities, and whether they can be verified in the Lab.\<close>

definition CAPS :: "(jstr \<times> jstr \<times> jstr \<times> bool) list" where
  "CAPS =
     [(js ''double_entry'', js ''Double-entry'',
        js ''Every movement posts a balanced debit and credit. The system-wide sum is always zero.'', False),
      (js ''double-entry-reconciliation'', js ''Double-Entry Reconciliation'',
        js ''Every movement posts balanced debit and credit entries. Global balance drift is 0.'', True),
      (js ''idempotency_keys'', js ''Idempotency keys'',
        js ''Retries with the same key return the original response; money moves once.'', True),
      (js ''cryptographic-idempotency'', js ''Cryptographic Idempotency'',
        js ''SHA-256 payload validation and atomic 60s lock lease recovery on crash.'', True),
      (js ''payload_fingerprinting'', js ''Payload fingerprinting'',
        js ''A reused key with a different body is rejected rather than silently replayed.'', True),
      (js ''row_level_locking'', js ''Row-level locking'',
        js ''Wallet rows are locked in a fixed id order, which prevents lost updates and deadlocks.'', True),
      (js ''deadlock-free-locking'', js ''Deadlock-Free Locking'',
        js ''Strict ascending numerical order row locks prevent circular wait conditions under load.'', True),
      (js ''overdraft_protection'', js ''Overdraft protection'',
        js ''Balance checks happen inside the locked transaction, never before it.'', True),
      (js ''non-negative-check-constraint'', js ''Non-Negative Balance Constraint'',
        js ''Enforced at the storage engine level with CHECK (balance >= 0).'', True),
      (js ''in-memory-microbatching'', js ''In-Memory Micro-Batching'',
        js ''Groups transfers into 50-item batches or 2ms timer buckets to amortize disk fsync costs.'', True),
      (js ''hash_chained_entries'', js ''Hash-chained entries'',
        js ''Each entry commits to its predecessor, so tampering with history is detectable.'', False),
      (js ''serializable_isolation'', js ''Serializable isolation'',
        js ''Transactions behave as if they ran one after another.'', False)]"

record capability_card =
  cc_code :: jstr
  cc_title :: jstr
  cc_body :: jstr
  cc_lab :: bool

definition capability_card :: "jstr \<Rightarrow> capability_card" where
  "capability_card c =
     (case map_of CAPS c of
        Some (title, body, lab) \<Rightarrow> \<lparr>cc_code = c, cc_title = title, cc_body = body, cc_lab = lab\<rparr>
      | None \<Rightarrow> \<lparr>cc_code = c, cc_title = map (\<lambda>x. if x = 0x5F then 0x20 else x) c,
          cc_body = js ''Advertised by the engine.'', cc_lab = False\<rparr>)"

definition advertised :: "store \<Rightarrow> jstr \<times> capability_card list" where
  "advertised st =
     (let cs = (case report st of Some h \<Rightarrow> hr_capabilities h | None \<Rightarrow> [])
      in (dec (length cs) @ js '' advertised'', map capability_card cs))"

section \<open>The page\<close>

record overview =
  ov_eyebrow :: jstr
  ov_total :: money_parts
  ov_legend :: "legend_line list"
  ov_tiles :: "tile list"
  ov_spark :: "(jstr \<times> jstr) option"
  ov_pool :: "bool list"
  ov_sim_note :: bool
  ov_stages :: "stage list"
  ov_advertised :: "jstr \<times> capability_card list"

definition overview :: "store \<Rightarrow> overview" where
  "overview st =
     \<lparr>ov_eyebrow = js ''Total value held '' @ [0xB7] @ js '' '' @ dec (length (st_wallets st)) @ js '' wallets'',
      ov_total = moneyParts (total_held (st_wallets st)) (js ''USD''), ov_legend = legend (st_wallets st),
      ov_tiles = [engine_tile st, database_tile st, roundtrip_tile st, pool_tile st],
      ov_spark = sparkline 28 (map latency (st_latency st)), ov_pool = pool_cells st,
      ov_sim_note = (st_mode st = Sim), ov_stages = stages, ov_advertised = advertised st\<rparr>"

text \<open>On the wallets of well-formed books, as a refresh lists them.\<close>

lemma listed_balances: "map balance_of (map (listed_wallet \<circ> snd) (wallets e)) = map snd (balances e)"
  by (simp add: balances_def)

lemma overview_of_books:
  assumes "wf_books e" and "sum_list (map snd (balances e)) \<le> 2 ^ 40"
    and "st_wallets st = map (listed_wallet \<circ> snd) (wallets e)"
  shows "total_held (st_wallets st) = sum_list (map snd (balances e))"
    and "sum_list (map sg_balance (segments (st_wallets st))) = sum_list (map snd (balances e))"
    and "\<forall>sg \<in> set (segments (st_wallets st)). 0 < sg_balance sg \<and>
      2 * \<bar>sum_list (map snd (balances e)) * int (tenths_of (sg_pct sg)) - 1000 * sg_balance sg\<bar>
        \<le> sum_list (map snd (balances e))"
proof -
  have b: "map balance_of (st_wallets st) = map snd (balances e)" unfolding assms(3) by (rule listed_balances)
  have "\<forall>p \<in> set (balances e). 0 \<le> snd p" using assms(1) by (intro balances_nonneg) (simp_all add: wf_books_def)
  then have "\<forall>x \<in> set (map balance_of (st_wallets st)). 0 \<le> x" unfolding b by simp
  then have nn: "\<forall>w \<in> set (st_wallets st). 0 \<le> balance_of w" by simp
  have lim: "sum_list (map balance_of (st_wallets st)) \<le> 2 ^ 53" using assms(2) b by simp
  show t: "total_held (st_wallets st) = sum_list (map snd (balances e))"
    and "sum_list (map sg_balance (segments (st_wallets st))) = sum_list (map snd (balances e))"
    using segment_sum [OF nn lim] b by simp_all
  show "\<forall>sg \<in> set (segments (st_wallets st)). 0 < sg_balance sg \<and>
      2 * \<bar>sum_list (map snd (balances e)) * int (tenths_of (sg_pct sg)) - 1000 * sg_balance sg\<bar>
        \<le> sum_list (map snd (balances e))"
    using segment_nearest [OF nn] segment_pos assms(2) b t by simp
qed

text \<open>
  What the engine in the page advertises has texts of its own, and what the Lab can verify is
  marked on its card.
\<close>

lemma capabilities_known:
  "map cc_lab (map capability_card (h_capabilities (health_of E s))) = [False, True, True, True, True, False, False]"
  "set (h_capabilities (health_of E s)) \<subseteq> fst ` set CAPS"
  by (simp_all add: health_of_def capability_card_def CAPS_def)

end
