(* ===== verification/Timeline.thy ===== *)
theory Timeline
  imports Overview
begin

text \<open>
  The timeline of a batch in the Systems Lab: one bar for each transfer that was answered, with
  its position and width relative to the time of the last answer. Times are doubles, not
  negative, and an answer does not come before its start. The facts: transfers that were not
  answered have no bar, and every bar starts inside the timeline.
\<close>

record bar =
  br_start :: double
  br_end :: double
  br_status :: int
  br_forward :: bool
  br_amount :: int

text \<open>\<open>toFixed(0)\<close>.\<close>

definition toFixed0 :: "double \<Rightarrow> jstr" where
  "toFixed0 d = dec ((2 * fst d + 2 ^ snd d) div 2 ^ Suc (snd d))"

datatype bar_tone = Posted | Failed | Rejected

record timeline_row =
  tb_title :: jstr
  tb_tone :: bar_tone
  tb_left :: double
  tb_width :: double

text \<open>The bars are written at the index of their transfer, so some places may still be empty.\<close>

definition valid_bars :: "bar option list \<Rightarrow> bar list" where
  "valid_bars bs = map the (filter (\<lambda>b. b \<noteq> None) bs)"

definition last_end :: "bar list \<Rightarrow> double" where
  "last_end bs = foldr (\<lambda>b. later (br_end b)) bs (1, 0)"

definition bar_title :: "bar \<Rightarrow> jstr" where
  "bar_title b =
     (if br_forward b then [0x3B1, 0x2192, 0x3B2] else [0x3B2, 0x2192, 0x3B1]) @ js '' '' @
     money_text (br_amount b) (js ''USD'') False @ js '' '' @ [0xB7] @ js '' '' @ num_text (br_status b) @
     js '' '' @ [0xB7] @ js '' '' @ toFixed1 (dbl_minus (br_end b) (br_start b)) @ js ''ms''"

definition bar_tone :: "int \<Rightarrow> bar_tone" where
  "bar_tone status =
     (if 200 \<le> status \<and> status < 300 then Posted else if 500 \<le> status \<or> status = 0 then Failed else Rejected)"

text \<open>The width is at least the double 0.8.\<close>

definition timeline_row :: "double \<Rightarrow> bar \<Rightarrow> timeline_row" where
  "timeline_row most b =
     \<lparr>tb_title = bar_title b, tb_tone = bar_tone (br_status b),
      tb_left = js_times 100 (dbl_quot (br_start b) most),
      tb_width = later (js_times 100 (dbl_quot (dbl_minus (br_end b) (br_start b)) most)) (3602879701896397, 52)\<rparr>"

definition timeline :: "bar option list \<Rightarrow> jstr \<times> timeline_row list" where
  "timeline bs =
     (let valid = valid_bars bs; most = last_end valid
      in (toFixed0 most @ js ''ms'', map (timeline_row most) valid))"

lemma last_end_pos: "not_after (1, 0) (last_end bs)"
  unfolding last_end_def
  by (induction bs) (auto simp: later_def intro: not_after_trans not_after_total)

lemma last_end_ge: "b \<in> set bs \<Longrightarrow> not_after (br_end b) (last_end bs)"
  by (induction bs) (auto simp: last_end_def later_def intro: not_after_trans not_after_total)

text \<open>Every bar starts between 0% and 100% of the timeline.\<close>

lemma bars_inside:
  assumes "row \<in> set (snd (timeline bs))" and "\<forall>b. Some b \<in> set bs \<longrightarrow> not_after (br_start b) (br_end b)"
  shows "at_most (tb_left row) 100"
proof -
  let ?most = "last_end (valid_bars bs)"
  obtain b where b: "b \<in> set (valid_bars bs)" "row = timeline_row ?most b"
    using assms(1) by (auto simp: timeline_def Let_def)
  have "Some b \<in> set bs" using b(1) by (auto simp: valid_bars_def)
  then have "not_after (br_start b) ?most" using assms(2) last_end_ge [OF b(1)] not_after_trans by blast
  moreover have "0 < fst ?most" using last_end_pos [of "valid_bars bs"] by (cases "fst ?most") (simp_all add: not_after_def)
  ultimately have "at_most (dbl_quot (br_start b) ?most) 1" by (intro dbl_quot_le)
  then show ?thesis using js_times_le [of _ 1 100] by (simp add: b(2) timeline_row_def)
qed

text \<open>One row for each answered transfer, in the order of the plan.\<close>

lemma timeline_answered: "length (snd (timeline bs)) = length (filter (\<lambda>b. b \<noteq> None) bs)"
  by (simp add: timeline_def valid_bars_def Let_def)

end
