(* ===== verification/Demo.thy ===== *)
theory Demo
  imports Session Timeline
begin

text \<open>
  Concrete objects for the examples: the engine seeded in the demonstration environment, its
  three wallets, and requests on them, with the facts the examples need.
\<close>

definition demo :: engine where
  "demo = seed demo_env"

definition wal :: "nat \<Rightarrow> jstr" where
  "wal n = rid demo_env (js ''wal'') n"

definition move_body :: "int \<Rightarrow> jsval" where
  "move_body a = between (wal 0) (wal 1) a (js ''demo'')"

definition move_request :: "int \<Rightarrow> request" where
  "move_request a = money_request Transfer (js ''k1'') (move_body a)"

definition move_plan :: "int \<Rightarrow> plan" where
  "move_plan a = plan_for Transfer (js ''k1'') (move_body a) a"

lemma demo_seeding: "seeding demo_env (seed_bank (wal 0) (wal 1) (wal 2)) 6 21 demo"
  using seed_seeding [OF fresh_ids_mono [OF fresh_demo_small]] by (simp add: demo_def wal_def)

lemma demo_facts [simp]:
  "sound demo_env 6 demo" "wf_books demo" "idem demo = []" "drawn demo = 21" "length (txs demo) = 6"
  "balances demo = seed_bank (wal 0) (wal 1) (wal 2)"
  using demo_seeding by (simp_all add: seeding_def sound_def idem_wf_def)

lemma wal_distinct [simp]: "wal m = wal n \<longleftrightarrow> m = n" if "m < 100" "n < 100"
  using that fresh_idsD [OF fresh_demo_small, of m n] by (simp add: wal_def)

lemma wal_not_Nil [simp]: "wal n \<noteq> []"
  by (simp add: wal_def rid_def)

lemma wal_word_chars [simp]: "n < 100 \<Longrightarrow> list_all is_word_char (wal n)"
  using rid_word_chars [OF fresh_demo_small] by (simp add: wal_def)

lemma demo_balance:
  "map_option w_balance (map_get (wallets demo) (wal 0)) = Some 206750000"
  "map_option w_balance (map_get (wallets demo) (wal 1)) = Some 28754982"
  "map_option w_balance (map_get (wallets demo) (wal 2)) = Some 8750000"
  by (simp_all flip: map_get_balances add: seed_bank_def)

lemma demo_wallet:
  obtains w where "map_get (wallets demo) (wal 0) = Some w" "w_balance w = 206750000"
  using demo_balance(1) by auto

lemma move_fields [simp]:
  "from_of Transfer (move_body a) = JStr (wal 0)" "to_of Transfer (move_body a) = JStr (wal 1)"
  "get_field (move_body a) (js ''amount'') = JNum a"
  by (simp_all add: move_body_def)

lemma move_plan_simps [simp]:
  "p_key (move_plan a) = js ''k1''" "p_amount (move_plan a) = a" "p_from (move_plan a) = JStr (wal 0)"
  "p_to (move_plan a) = JStr (wal 1)" "p_fingerprint (move_plan a) = fingerprint Transfer (move_body a)"
  by (simp_all add: move_plan_def)

lemma move_plans: "0 < a \<Longrightarrow> plans (move_request a) (move_plan a)"
  unfolding move_request_def move_plan_def
  by (rule money_plan) (simp_all add: strict_eq_def)

lemma move_accepted:
  assumes "0 < a" and "a \<le> 206750000"
  shows "bank_accepts (balances demo) (move_plan a)"
  using assms by (simp add: bank_accepts_def bank_knows_def bank_covers_def bank_account_def seed_bank_def)

lemma move_answer:
  assumes "0 < a" and "a \<le> 206750000"
  obtains t where "snd (handle demo_env (move_request a) demo) = Returned (accepted (move_plan a) t)"
    and "drawn (fst (handle demo_env (move_request a) demo)) = 24"
  using handle_accepts [OF move_plans [OF assms(1)] _ move_accepted [OF assms], where E = demo_env and thesis = thesis]
  by simp

text \<open>The amount's place in the canonical text of the body.\<close>

lemma move_canonical:
  "canonical (move_body a) =
   js ''{'' @ quote (js ''amount'') @ js '':'' @ num_text a @ js '','' @
   member (js ''from_wallet_id'', quote (wal 0)) @ js '','' @
   member (js ''reference'', quote (js ''demo'')) @ js '','' @
   member (js ''to_wallet_id'', quote (wal 1)) @ js ''}''"
proof -
  have lt: "js ''amount'' < js ''from_wallet_id''" "js ''from_wallet_id'' < js ''reference''"
    "js ''reference'' < js ''to_wallet_id''" "js ''amount'' < js ''reference''"
    "js ''amount'' < js ''to_wallet_id''" "js ''from_wallet_id'' < js ''to_wallet_id''"
    by (simp_all add: js_def)
  have keys: "sort (object_keys (move_body a)) =
      [js ''amount'', js ''from_wallet_id'', js ''reference'', js ''to_wallet_id'']"
    using lt by (auto simp: move_body_def between_def insort_key_def)
  show ?thesis
    unfolding canonical_def keys
    by (simp add: move_body_def between_def pick_def map_filter_simps member_def) (simp add: js_def)
qed

lemma num_text_digit: "d < 10 \<Longrightarrow> num_text (int d) = [digit d]"
  by (simp add: num_text_exact) (simp add: dec.simps)

lemma move_fingerprints: "fingerprint Transfer (move_body 5) \<noteq> fingerprint Transfer (move_body 7)"
proof -
  have "digit 5 \<noteq> digit 7" by (simp add: digit_def)
  then show ?thesis
    using num_text_digit [of 5] num_text_digit [of 7]
      fnv_one_unit [of "kind_text Transfer @ js ''|'' @ js ''{'' @ quote (js ''amount'') @ js '':''" "digit 5" _ "digit 7"]
    by (simp add: fingerprint_def fingerprint_eq_fnv move_canonical)
qed

lemma plans_accounts:
  assumes "plans (money_request k key (JObj fs)) p"
  shows "p_from p = from_of k (JObj fs)" and "p_to p = to_of k (JObj fs)"
  using assms validate_InrD(7,8) unfolding plans_def by (auto simp: coalesce_def)

lemma move_typed: "typed (move_request a)"
proof -
  have "p_from p = JStr (wal 0) \<and> p_to p = JStr (wal 1)" if "plans (move_request a) p" for p
    using plans_accounts [OF that [unfolded move_request_def move_body_def between_def]] move_fields [of a]
    by (simp add: move_body_def between_def)
  then show ?thesis by (auto simp: typed_def string_ids_def)
qed

section \<open>A transfer and a withdrawal at work at once\<close>

definition draw_request :: request where
  "draw_request = money_request Withdrawal (js ''k2'') (on_wallet (wal 2) 100 (js ''demo''))"

definition draw_plan :: plan where
  "draw_plan = plan_for Withdrawal (js ''k2'') (on_wallet (wal 2) 100 (js ''demo'')) 100"

lemma draw_plans: "plans draw_request draw_plan"
  unfolding draw_request_def draw_plan_def by (rule money_plan) simp_all

lemma draw_plan_simps [simp]:
  "p_key draw_plan = js ''k2''" "p_amount draw_plan = 100" "p_from draw_plan = JStr (wal 2)" "p_to draw_plan = JNull"
  by (simp_all add: draw_plan_def)

text \<open>Keys come before wallets in the order of the locks.\<close>

lemma key_before_wallet: "js ''idem:'' @ js key < wal n"
proof -
  have w: "wal n = 0x77 # drop 1 (wal n)" by (simp add: wal_def rid_def js_def)
  show ?thesis by (subst w) (simp add: js_def)
qed

lemma draw_ordered: "ordered i draw_plan = [idem_name (js ''k2''), Prim (JStr (wal 2))]"
  using key_before_wallet [of "''k2''" 2]
  by (auto simp: ordered_def lock_names_def name_of_def idem_name_def insort_key_def)

lemma move_ordered:
  obtains (up) "\<And>i. ordered i (move_plan a) = [idem_name (js ''k1''), Prim (JStr (wal 0)), Prim (JStr (wal 1))]"
  | (down) "\<And>i. ordered i (move_plan a) = [idem_name (js ''k1''), Prim (JStr (wal 1)), Prim (JStr (wal 0))]"
proof -
  have before: "js ''idem:'' @ js ''k1'' < wal n" "\<not> wal n \<le> js ''idem:'' @ js ''k1''" "js ''idem:'' @ js ''k1'' \<le> wal n"
    "wal n \<noteq> js ''idem:'' @ js ''k1''" for n
    using key_before_wallet [of "''k1''" n] by auto
  show thesis
  proof (cases "wal 0 \<le> wal 1")
    case True
    then show thesis using before
      by (intro up) (simp add: ordered_def lock_names_def name_of_def idem_name_def insort_key_def)
  next
    case False
    then show thesis using before
      by (intro down) (simp add: ordered_def lock_names_def name_of_def idem_name_def insort_key_def)
  qed
qed

lemma move_dispatch: "dispatch E (move_request 5) e = Inr (move_plan 5)"
  using move_plans [of 5] dispatch_plan by simp

lemma draw_dispatch: "dispatch E draw_request e = Inr draw_plan"
  using draw_plans dispatch_plan by blast

lemma demo_known: "n < 3 \<Longrightarrow> \<not> missing demo (JStr (wal n))"
proof -
  assume "n < 3"
  then have "n = 0 \<or> n = 1 \<or> n = 2" by linarith
  then have "bank_knows (seed_bank (wal 0) (wal 1) (wal 2)) (JStr (wal n))"
    by (auto simp: bank_knows_def bank_account_def seed_bank_def)
  then show ?thesis by (simp flip: bank_knows_balances)
qed

lemma move_begin: "crit_begin (move_plan a) demo = None"
  using demo_known [of 0] demo_known [of 1] by (simp add: crit_begin_None_iff)

lemma draw_begin: "crit_begin draw_plan demo = None"
  using demo_known [of 2] by (simp add: crit_begin_None_iff) (simp add: missing_def)

lemma idem_name_simps [simp]: "idem_name k \<noteq> Prim (JStr (wal n))" "Prim (JStr (wal n)) \<noteq> idem_name k"
  "idem_name k = idem_name k' \<longleftrightarrow> k = k'"
proof -
  show "idem_name k \<noteq> Prim (JStr (wal n))" by (simp add: idem_name_def wal_def rid_def js_def)
  then show "Prim (JStr (wal n)) \<noteq> idem_name k" by metis
  show "idem_name k = idem_name k' \<longleftrightarrow> k = k'" by (simp add: idem_name_def)
qed

definition two :: "lock_table \<Rightarrow> phase \<Rightarrow> phase \<Rightarrow> sys" where
  "two tab ph ph' = \<lparr>eng = demo, table = tab, threads = [(move_request 5, ph), (draw_request, ph')]\<rparr>"

lemma set_phase_two [simp]: "set_phase 0 x (two tab ph ph') = two tab x ph'"
  "set_phase (Suc 0) x (two tab ph ph') = two tab ph x"
  "(two tab ph ph')\<lparr>table := tab'\<rparr> = two tab' ph ph'"
  by (simp_all add: two_def set_phase_def)

lemma two_simps [simp]: "eng (two tab ph ph') = demo" "table (two tab ph ph') = tab"
  "threads (two tab ph ph') = [(move_request 5, ph), (draw_request, ph')]"
  by (simp_all add: two_def)

definition held_once :: mutex where "held_once = \<lparr>resolved_by = [False]\<rparr>"

lemma lock_new [simp]: "lock new_mutex = (0, held_once)" "granted held_once 0"
  by (simp_all add: lock_def new_mutex_def held_once_def granted_def)

lemma lock_for_Cons [simp]: "lock_for ((n, m) # tab) n' = (if n' = n then m else lock_for tab n')"
  by (simp add: lock_for_def)

lemmas work_simps = advance_def next_lock_def move_dispatch draw_dispatch draw_ordered move_begin draw_begin

lemma two_working:
  obtains order t hs hs' where
    "execution demo_env (start demo [move_request 5, draw_request]) [0, 1, 0, 1, 0, 1, 0] order t"
    and "phase_of t 0 = Holding (move_plan 5) hs" and "phase_of t 1 = Holding draw_plan hs'"
proof -
  have st: "start demo [move_request 5, draw_request] = two [] Ready Ready"
    by (simp add: start_def two_def)
  have "\<exists>t hs hs'. run demo_env [0, 1, 0, 1, 0, 1, 0] [] (two [] Ready Ready) = Some ([], t) \<and>
      phase_of t 0 = Holding (move_plan 5) hs \<and> phase_of t 1 = Holding draw_plan hs'"
  proof (cases rule: move_ordered [of 5])
    case up
    then show ?thesis by (simp add: work_simps)
  next
    case down
    then show ?thesis by (simp add: work_simps)
  qed
  then obtain t hs hs' where t: "run demo_env [0, 1, 0, 1, 0, 1, 0] [] (two [] Ready Ready) = Some ([], t)"
    "phase_of t 0 = Holding (move_plan 5) hs" "phase_of t 1 = Holding draw_plan hs'"
    by blast
  have "execution demo_env (two [] Ready Ready) [0, 1, 0, 1, 0, 1, 0] [] t"
    using run_execution [OF execution.idle t(1)] by simp
  then show thesis using that t(2,3) unfolding st by blast
qed

section \<open>Numbers as wallet ids\<close>

text \<open>
  The number 5 and the text ''5'' name different locks of the same text, so the stable sort
  leaves them in the order of the request.
\<close>

definition crossed_body :: "bool \<Rightarrow> jsval" where
  "crossed_body b =
     JObj [(js ''from_wallet_id'', if b then JNum 5 else JStr (js ''5'')),
           (js ''to_wallet_id'', if b then JStr (js ''5'') else JNum 5), (js ''amount'', JNum 1)]"

definition crossed_request :: "bool \<Rightarrow> request" where
  "crossed_request b = money_request Transfer (js (if b then ''k1'' else ''k2'')) (crossed_body b)"

definition crossed_plan :: "bool \<Rightarrow> plan" where
  "crossed_plan b = plan_for Transfer (js (if b then ''k1'' else ''k2'')) (crossed_body b) 1"

lemma crossed_plans: "plans (crossed_request b) (crossed_plan b)"
  unfolding crossed_request_def crossed_plan_def
  by (rule money_plan) (cases b; simp add: crossed_body_def from_of_def to_of_def strict_eq_def)+

lemma crossed_dispatch: "dispatch E (crossed_request b) e = Inr (crossed_plan b)"
  using crossed_plans dispatch_plan by blast

definition num5 :: lock_name where "num5 = Prim (JNum 5)"
definition str5 :: lock_name where "str5 = Prim (JStr (js ''5''))"

lemma five_simps [simp]: "num5 \<noteq> str5" "str5 \<noteq> num5"
  by (simp_all add: num5_def str5_def)

lemma num_text_5: "num_text 5 = js ''5''"
  by (simp add: num_text_exact) (simp add: dec.simps digit_def js_def)

lemma crossed_ordered:
  "ordered i (crossed_plan True) = [num5, str5, idem_name (js ''k1'')]"
  "ordered i (crossed_plan False) = [str5, num5, idem_name (js ''k2'')]"
proof -
  have "js ''5'' < js ''idem:k1''" "js ''5'' < js ''idem:k2''" by (simp_all add: js_def)
  then show "ordered i (crossed_plan True) = [num5, str5, idem_name (js ''k1'')]"
    "ordered i (crossed_plan False) = [str5, num5, idem_name (js ''k2'')]"
    by (auto simp: ordered_def lock_names_def name_of_def idem_name_def insort_key_def crossed_plan_def
        plan_for_def crossed_body_def from_of_def to_of_def num5_def str5_def num_text_5 js_append_eq_js
        simp flip: js_append)
qed

section \<open>Finished executions\<close>

lemma demo_run:
  assumes "list_all typed qs"
  shows "\<exists>sched order t. execution demo_env (start demo qs) sched order t \<and> all_finished t"
  using can_finish [OF start_well_locked, where E = demo_env and e1 = demo and qs1 = qs] assms
  by (auto simp: start_def comp_def list_all_iff)

lemma demo_ids: "n \<le> 1000 \<Longrightarrow> enough_ids demo_env n"
  by (rule fresh_ids_mono [OF fresh_demo_small]) simp

lemma demo_wallet_kept:
  assumes "execution demo_env (start demo qs) sched order t" and "n < 3"
  shows "\<exists>w. map_get (wallets (eng t)) (wal n) = Some w"
proof -
  have "n = 0 \<or> n = 1 \<or> n = 2" using assms(2) by linarith
  then have "wal n \<in> set (map_keys (balances demo))" by (auto simp: seed_bank_def)
  then have "wal n \<in> set (map_keys (wallets (eng t)))"
    unfolding execution_fold [OF assms(1)] balances_keys by (rule wallet_kept.run_inv)
  then show ?thesis by (metis jsmap.get_None_iff option.exhaust)
qed

lemma demo_entries_kept:
  assumes "execution demo_env (start demo qs) sched order t" and "length qs \<le> 1000"
  shows "12 \<le> length (entries (eng t))"
proof -
  have "sound demo_env 6 (eng t)"
    using execution_sound(1) [OF assms(1) [unfolded demo_def] demo_ids [OF assms(2)]] .
  then show ?thesis by (auto simp: sound_def idem_wf_def wf_books_def paired_def)
qed

lemma demo_paid_in: "paid_in demo \<le> 2 ^ 53"
  using demo_seeding by (simp add: seeding_def)

lemma handle_paid_in:
  assumes wf: "wf_books s" and p: "plans q p"
  shows "paid_in (fst (handle E q s)) \<le> paid_in s + p_amount p"
proof (cases "crit_begin p s")
  case None
  have h: "handle E q s = crit_end E p s" using None by (simp add: handle_plan [OF p] critical_def)
  show ?thesis
  proof (cases rule: crit_end_cases [of E p s])
    case (posted w)
    let ?s = "s\<lparr>drawn := drawn s + 1, ticks := ticks s + 1\<rparr>"
    have "valid_tx s (made_tx E p w s)"
      using posted plans_amount [OF p] crit_begin_NoneD [OF None] by (simp add: valid_tx_def)
    then have "paid_in (commit E (made_tx E p w s) ?s) \<le> paid_in ?s + p_amount p"
      using commit_paid_in [of ?s "made_tx E p w s" E] wf by (simp add: wf_books_def keyed_def)
    then show ?thesis by (simp add: h posted post_tx_def Let_def)
  qed (use plans_amount [OF p] in \<open>simp_all add: h\<close>)
next
  case (Some r)
  then show ?thesis using plans_amount [OF p] by (simp add: handle_plan [OF p] critical_def)
qed

lemma demo_move_paid_in: "paid_in (fst (handle demo_env (move_request 5) demo)) \<le> 2 ^ 53"
proof -
  have "plans (move_request 5) (move_plan 5)" by (rule move_plans) simp
  moreover have "paid_in demo \<le> 6 * 2 ^ 28" using demo_seeding by (simp add: seeding_def)
  ultimately show ?thesis using handle_paid_in [of demo "move_request 5" "move_plan 5" demo_env] by simp
qed

section \<open>Further requests\<close>

definition filling_body :: jsval where
  "filling_body = on_wallet (wal 0) (2 ^ 53 - 206750000) (js ''demo'')"

definition cent_body :: jsval where
  "cent_body = between (wal 1) (wal 0) 1 (js ''demo'')"

definition create_request :: request where
  "create_request = \<lparr>q_method = POST, q_path = js ''/wallets'', q_headers = [],
     q_body = JObj [(js ''owner'', JStr (js ''ada''))]\<rparr>"

section \<open>The first run of the Systems Lab\<close>

lemma demo_key_inject:
  assumes "i < 16 ^ 20" and "j < 16 ^ 20" and "idemKey demo_env i = idemKey demo_env j"
  shows "i = j"
  using assms demo_prefix_inject by (simp add: idemKey_def demo_env_def strip_demo)

lemma demo_ready: "m \<le> 900000 \<Longrightarrow> ready demo_env 1000000 6 m demo"
  using demo_facts fresh_demo_small demo_key_inject
  by (auto simp: ready_def fresh_keys_def inj_on_def)

lemma demo_random: "unit_random demo_env"
  by (simp add: unit_random_def demo_env_def)

section \<open>The ledger page of the first wallet\<close>

lemma filtered_sum:
  "\<forall>e \<in> set es. 0 < e_amount e \<Longrightarrow>
   sum_list (in_direction d (wallet_entries i es)) \<le> sum_list (map e_amount es) \<and>
   0 \<le> sum_list (map e_amount es)"
  by (induction es) (auto simp: in_direction_def wallet_entries_def)

lemma demo_sums: "sum_list (in_direction d (wallet_entries i (entries demo))) \<le> 2 ^ 53"
proof -
  have "\<forall>e \<in> set (entries demo). 0 < e_amount e" using demo_facts(2) by (simp add: wf_books_def accounted_def)
  moreover have "sum_list (map e_amount (entries demo)) \<le> 6 * 2 ^ 29" using demo_seeding by (simp add: seeding_def)
  ultimately show ?thesis using filtered_sum [of "entries demo" d i] by simp
qed

section \<open>A form and a page\<close>

lemma form_request:
  "plans (money_request (tf_kind f) key body) p \<Longrightarrow>
   plans (sim_request POST (PATH (tf_kind f)) body (request_headers body (key_header key))) p"
  by (cases "tf_kind f") (simp_all add: plans_def sim_request_def money_request_def PATH_def key_header_def validate_def)

definition demo_form :: tx_form where
  "demo_form = \<lparr>tf_kind = Deposit, tf_from = [], tf_to = [], tf_target = wal 0, tf_amount_str = js ''$12.50'',
     tf_reference = [], tf_key = [], tf_pinned = False, tf_attempts = []\<rparr>"

lemma demo_form_amount: "form_amount demo_form = Some 1250"
  by (simp add: form_amount_def demo_form_def parseMinor_def js_def trim_def is_space_def is_filler_def decimal_parts_def
      is_digit_def to_number_def pad_end_def digits_value_def digit_value_def Let_def js_mul_def js_add_def)

definition blank_page :: ledger_page where
  "blank_page = \<lparr>lp_entries = [], lp_txs = [], lp_recon = None\<rparr>"

definition demo_wallets_page :: wallets_page where
  "demo_wallets_page = \<lparr>wp_store = initial_store [], wp_engine = demo, wp_owner = js '' ada '', wp_busy = False,
     wp_error = JNull\<rparr>"

text \<open>The console as it is opened, with the engine behind it.\<close>

definition demo_console :: console_page where
  "demo_console = open_console (initial_store []) demo"

lemma demo_console_sent:
  "cp_error (press_send demo_env no_net Inl demo_console) = None"
  "\<not> cp_busy (press_send demo_env no_net Inl demo_console)"
  "drawn (cp_engine (press_send demo_env no_net Inl demo_console)) = 22"
proof -
  let ?p = "js ''/health''" and ?s = "demo\<lparr>ticks := ticks demo + 1\<rparr>"
  have h: "\<exists>r t. handle demo_env (get_request ?p) ?s = (?s\<lparr>ticks := t\<rparr>, Returned r)"
    by (simp add: handle_def dispatch_def get_request_def route_of_def strip_prefix_def take_js) blast
  then obtain r t where h: "handle demo_env (get_request ?p) ?s = (?s\<lparr>ticks := t\<rparr>, Returned r)" by blast
  obtain R where R: "api_request demo_env Unreachable GET ?p JUndef [] demo =
      (?s\<lparr>ticks := t\<rparr>\<lparr>drawn := drawn (?s\<lparr>ticks := t\<rparr>) + 1, ticks := ticks (?s\<lparr>ticks := t\<rparr>) + 2\<rparr>, Some R)"
    using api_get [OF h] by metis
  have "console_send demo_env Unreachable Inl (cp_form demo_console) demo =
      Inr (api_request demo_env Unreachable GET ?p JUndef [] demo)"
    by (simp add: console_send_def console_body_def console_path_def console_headers_def demo_console_def open_console_def js_def)
  then show "cp_error (press_send demo_env no_net Inl demo_console) = None"
    "\<not> cp_busy (press_send demo_env no_net Inl demo_console)"
    "drawn (cp_engine (press_send demo_env no_net Inl demo_console)) = 22"
    by (simp_all add: press_send_def R demo_console_def open_console_def Let_def)
qed

end
