(* ===== verification/Spec2Isabelle.thy ===== *)
theory Spec2Isabelle
  imports Demo
begin

text \<open>
  A verification library for the payment ledger Quire, as its web client \<open>src/web/app.tsx\<close>
  implements it: a double-entry ledger engine that runs in the page (the class \<open>SimEngine\<close>), the
  request layer that falls back to it, and the pages that use it. The server (Go and SQL) is not
  modelled; the engine in the page is its executable twin.

  How the program works. A page calls \<open>request\<close>. It asks the network first; when that fails, it
  hands the request to the engine in the page. The engine routes it. A movement of money takes
  its locks (idempotency key and wallets), looks its key up, checks the accounts, waits, checks
  the balance, posts a debit and a credit, and records its answer under the key. The answer is
  brought into one shape, recorded as a trace in the store, and shown.

  Theories, bottom up, with the code they model:

  \<^item> \<open>Prelude\<close>: insertion-ordered maps (JavaScript's \<open>Map\<close>) behind the locale \<open>insertion_map\<close>, text as
    lists of UTF-16 code units, runs that preserve an invariant (locale \<open>preserved\<close>).
  \<^item> \<open>Js_Number\<close>, \<open>Doubles\<close>, \<open>Js_Value\<close>, \<open>Conversion\<close>: whole numbers as doubles (addition and
    multiplication rounded to 53 bits), doubles that are not whole with their texts (\<open>toFixed\<close>),
    JavaScript values, \<open>String\<close>, \<open>===\<close>, \<open>JSON.stringify\<close> with an allow-list; \<open>Number\<close> of any value,
    with the comparison with zero and \<open>Math.abs\<close> that rest on it (470, 471).
  \<^item> \<open>Fingerprint\<close>: \<open>fnv\<close> (200--209) on 32-bit words; a text is determined by its hash as far as
    one code unit.
  \<^item> \<open>Engine\<close>, \<open>Ledger\<close>: the state of \<open>SimEngine\<close> (236--247) and its rows, \<open>post\<close>, \<open>commit\<close>,
    \<open>applySync\<close>, \<open>seed\<close> (266--321); the invariant \<open>wf_books\<close> (double entry, hash chain,
    balances as the entries say, no negative balance) and that posting keeps it.
  \<^item> \<open>Money_Movement\<close>, \<open>Balance_Spec\<close>: \<open>money\<close> (371--408), cut at its awaits into \<open>validate\<close>,
    \<open>crit_begin\<close>, \<open>crit_end\<close>; the abstract bank (accounts with balances) that it refines.
  \<^item> \<open>Routes\<close>, \<open>Seeding\<close>: \<open>handle\<close> (323--369) with every route; the seeded books.
  \<^item> \<open>Locks\<close>, \<open>Concurrency\<close>, \<open>Idempotency\<close>, \<open>Movements\<close>: \<open>Mutex\<close>, \<open>lockFor\<close>, \<open>withLocks\<close> (219--264)
    and requests as threads that run from await to await in any order (\<open>execution\<close>, an inductive
    relation); serializability, progress, mutual exclusion; what a key guarantees.
  \<^item> \<open>Format\<close>: \<open>money\<close>, \<open>parseMinor\<close>, \<open>shortId\<close>, \<open>relTime\<close>, \<open>fmtUptime\<close>, \<open>idemKey\<close> (117--193); the
    text of the MAX button in \<open>Quotients\<close>.
  \<^item> \<open>Client\<close>, \<open>Store\<close>, \<open>Dashboard\<close>, \<open>Shell\<close>: \<open>request\<close> (418--516), the store (520--640), the frame
    around the pages (864--1230) with the lists of its switcher and palette. An owner or a health
    report is kept as it was answered; where the code calls a method of a text on it, the rendering
    (\<open>monogram\<close>, \<open>top_bar\<close>, \<open>wallet_cards\<close>) is an option.
  \<^item> \<open>Json_View\<close> (800--811), \<open>Overview\<close> (844--862, 1244--1427), \<open>Wallets_Page\<close> (1430--1553),
    \<open>Transact\<close> and \<open>Outcome\<close> (1556--1815), \<open>Ledger_View\<close> and \<open>Ledger_Rows\<close> (1818--2043),
    \<open>Api_Console\<close> and \<open>Console_View\<close> (2367--2591): the pages, with what they show and what their
    buttons do.
  \<^item> \<open>Lab\<close>, \<open>Calls\<close>, \<open>Verdicts\<close>, \<open>Batch\<close>, \<open>Lab_Session\<close>, \<open>Timeline\<close>: the experiments of the
    Systems Lab with its cards and the timeline of a batch (2046--2364); how a call of a page changes the engine; that the experiments pass, one by one
    under any schedule of the batch, and all in one session.
  \<^item> \<open>Session\<close>: all pages together, as a state machine over the engine (\<open>page_step\<close>) that refines an
    abstract one (\<open>evolves\<close>: serve a request, draw ids, read the clock).
  \<^item> \<open>Demo\<close>: a concrete environment with the seeded engine, for the examples.

  State corresponds to the code field by field: a class or a component's hooks is a record, a
  \<open>Map\<close> a list of pairs in insertion order, an exception the outcome \<open>Threw\<close> or \<open>None\<close>, a promise
  that is not yet settled a phase of a thread. What the code draws from outside (random ids, the
  clock, random numbers) comes from an environment \<open>E :: env\<close>, indexed by a counter \<open>drawn\<close> or
  \<open>ticks\<close> of the engine; \<open>fresh_ids E n\<close> says that the first \<open>n\<close> ids differ, as random UUIDs do.
  What the network answers is a parameter \<open>fetched\<close>; \<open>no_net\<close> is a network that always fails.

  Bounds. Balances and sums are exact up to \<open>2 ^ 53\<close>; theorems that need it say so, and
  \<open>large_balance_loses_cent\<close> shows what happens beyond. A request is resumed at most five times
  and draws at most three values. An experiment of the Lab draws 23 to 26 values, a batch of \<open>k\<close>
  transfers \<open>6 k + 23\<close>, all experiments \<open>6 k + 102\<close>; opening a wallet draws 5, submitting the form 8; \<open>ready E N n m e\<close>
  promises that \<open>m\<close> more draws are fresh. The MAX button is exact below \<open>100 * 2 ^ 46\<close>.

  What the theorems show: C1--C5 concurrency, C6--C8 idempotency, C9--C13 the books, C14--C15
  sessions over all pages, C16--C19 movements against the abstract bank and errors, C20--C22 gaps of
  the engine, C23--C24 fingerprints, C25--C26 wallets, C27--C29 amounts, C30--C35 pages, C36--C37
  the frame and the JSON view, C38--C40 the Systems Lab.

  Not modelled:

  \<^item> Numbers: results that are not whole are kept by their text, and where the page goes on computing
    with them as a significand over a power of two (\<open>Doubles\<close>); overflow to infinity is modelled
    where a text is converted only. Balances and amounts that are no whole numbers, which no engine
    sends, count as 0 in sums and comparisons of the pages.
  \<^item> Time: times of day and the age of a date text depend on the browser's zone and clock, so the
    time of day is a parameter \<open>tm\<close> and the age of wallets is left out.
  \<^item> \<open>toLowerCase\<close> and \<open>toUpperCase\<close> are modelled on ASCII letters. Names that a plain object
    inherits from its prototype are not found in lookup tables. Copies by \<open>structuredClone\<close> are the
    values themselves, as values are immutable here.
  \<^item> The batch of the Lab runs on the engine in the page, without a network, and draws the ids of its
    traces after the transfers and not between them (\<open>run_batch\<close>).
  \<^item> Rendering, styles, icons, scrolling, timers of React; when the bars of a batch start and end
    (\<open>Timeline\<close> shows given bars).
  \<^item> The Go services, handlers and repositories, the SQL migrations, benchmarks and scripts.
\<close>

section \<open>Concurrent requests\<close>

text \<open>
  C1: Serializability. Whatever the interleaving of the requests at their awaits (locks, the
  row-lock delay), the engine's state and the answers of the finished requests are those of
  serving these requests one after the other, in the order in which they finished; each
  request is in this order at most once, and it is there exactly when it has finished.
\<close>

theorem executions_serialize:
  assumes "execution E (start e qs) sched order t"
  shows "distinct order \<and>
    set order = {i. i < length qs \<and> done_with (phase_of t i) \<noteq> None} \<and>
    serve_all E (map ((!) qs) order) e = (eng t, map (outcome_of t) order)"
  using execution_serial [OF assms] by simp

theorem executions_serialize_witness:
  "\<exists>sched order t. execution demo_env (start demo [move_request 5, move_request 5]) sched order t \<and>
     all_finished t \<and>
     serve_all demo_env (map ((!) [move_request 5, move_request 5]) order) demo =
       (eng t, map (outcome_of t) order)"
  using demo_run [of "[move_request 5, move_request 5]"] executions_serialize
  by (simp add: move_typed) metis

text \<open>
  C2: No deadlock. While requests with string wallet ids run, some unfinished request can
  always go on: a state in which no thread can be resumed is one in which all have finished.
\<close>

theorem no_deadlock:
  assumes "execution E (start e qs) sched order t" and "\<forall>q \<in> set qs. typed q" and "stuck E t"
  shows "all_finished t"
proof (rule not_stuck [OF _ _ assms(3)])
  show "well_locked t" using execution_well_locked [OF assms(1)] by simp
  have "map fst (threads t) = qs"
    using threads_fst [OF assms(1)] by (simp add: start_def comp_def)
  then show "\<forall>(q, ph) \<in> set (threads t). typed q" using assms(2) by force
qed

theorem no_deadlock_witness:
  "\<exists>sched order t. execution demo_env (start demo [move_request 5]) sched order t \<and> all_finished t"
proof -
  obtain sched order t where ex: "execution demo_env (start demo [move_request 5]) sched order t"
      "all_finished t"
    using demo_run [of "[move_request 5]"] by (auto simp: move_typed)
  have "stuck demo_env t"
    using ex(2) by (fastforce simp: stuck_def all_finished_def list_all_length advance_def
        split: phase.split elim: done_with.elims)
  then show ?thesis using no_deadlock [OF ex(1)] ex(1) by (auto simp: move_typed)
qed

text \<open>
  C3: Every execution ends. A request is resumed at most five times, so an execution of \<open>n\<close>
  requests has at most \<open>5 n\<close> steps, and from every state it can reach (with string ids) the
  execution can be completed so that every request has its answer.
\<close>

theorem executions_end:
  assumes "execution E (start e qs) sched order t" and "\<forall>q \<in> set qs. typed q"
  shows "length sched \<le> 5 * length qs \<and>
    (\<exists>sched' order' u. execution E (start e qs) (sched @ sched') (order @ order') u \<and> all_finished u)"
proof
  show "length sched \<le> 5 * length qs" using execution_bound [OF assms(1)] by simp
  have "map fst (threads t) = qs" using threads_fst [OF assms(1)] by (simp add: start_def comp_def)
  then obtain sched' order' u where "execution E t sched' order' u" "all_finished u"
    using can_finish [OF execution_well_locked [OF assms(1) start_well_locked]] assms(2) by metis
  then show "\<exists>sched' order' u. execution E (start e qs) (sched @ sched') (order @ order') u \<and> all_finished u"
    using execution_trans assms(1) by blast
qed

theorem executions_end_witness:
  "\<exists>sched order u. execution demo_env (start demo [move_request 5, move_request 7]) sched order u \<and>
     all_finished u"
  using executions_end [OF execution.idle, of "[move_request 5, move_request 7]"]
  by (metis append_Nil list.set_cases move_typed set_ConsD empty_iff list.set(1))

text \<open>
  C4: Mutual exclusion. Two requests that are both in their critical section hold disjoint
  sets of locks: they have different idempotency keys, and no account that one of them moves money
  from or to is an account of the other.
\<close>

theorem critical_sections_disjoint:
  assumes "execution E (start e qs) sched order t" and "i < length qs" and "j < length qs" and "i \<noteq> j"
    and "phase_of t i = Holding p hs" and "phase_of t j = Holding p' hs'"
  shows "plans (qs ! i) p \<and> plans (qs ! j) p' \<and> p_key p \<noteq> p_key p' \<and>
    (\<forall>v \<in> {p_from p, p_to p}. \<forall>w \<in> {p_from p', p_to p'}. truthy v \<longrightarrow> \<not> strict_eq v w) \<and>
    set (ordered i p) \<inter> set (ordered j p') = {}"
proof -
  have wl: "well_locked t" using execution_well_locked [OF assms(1)] by simp
  have qs: "map fst (threads t) = qs" using threads_fst [OF assms(1)] by (simp add: start_def comp_def)
  then have i: "i < length (threads t)" "threads t ! i = (qs ! i, Holding p hs)"
    and j: "j < length (threads t)" "threads t ! j = (qs ! j, Holding p' hs')"
    using assms(2,3,5,6) by (auto simp: prod_eq_iff)
  show ?thesis
    using holding_plans [OF wl i] holding_plans [OF wl j] holding_other_key [OF wl i j assms(4)]
      holding_other_account [OF wl i j assms(4)] holding_disjoint [OF wl i j assms(4)] by blast
qed

theorem critical_sections_disjoint_witness:
  "\<exists>sched order t hs hs'. execution demo_env (start demo [move_request 5, draw_request]) sched order t \<and>
     phase_of t 0 = Holding (move_plan 5) hs \<and> phase_of t 1 = Holding draw_plan hs' \<and>
     p_key (move_plan 5) \<noteq> p_key draw_plan \<and> \<not> strict_eq (p_from (move_plan 5)) (p_from draw_plan) \<and>
     \<not> strict_eq (p_to (move_plan 5)) (p_from draw_plan)"
proof -
  obtain order t hs hs' where
    ex: "execution demo_env (start demo [move_request 5, draw_request]) [0, 1, 0, 1, 0, 1, 0] order t"
    and ph: "phase_of t 0 = Holding (move_plan 5) hs" "phase_of t 1 = Holding draw_plan hs'"
    by (rule two_working)
  have "truthy (p_from (move_plan 5))" "truthy (p_to (move_plan 5))" by simp_all
  then have "p_key (move_plan 5) \<noteq> p_key draw_plan \<and> \<not> strict_eq (p_from (move_plan 5)) (p_from draw_plan) \<and>
      \<not> strict_eq (p_to (move_plan 5)) (p_from draw_plan)"
    using critical_sections_disjoint [OF ex _ _ _ ph] by simp
  then show ?thesis using ex ph by blast
qed

text \<open>
  C5: The order of the locks is no protection for ids that are not strings. Two transfers
  between the accounts 5 (a number) and ''5'' (a string), in opposite directions, reach a
  state in which neither can ever go on: the lock table tells the two ids apart, the sort that
  orders the locks compares their text only.
\<close>

theorem numeric_ids_deadlock:
  "\<exists>t. execution E (start e [crossed_request True, crossed_request False]) [0, 1, 0, 1] [] t \<and>
     stuck E t \<and> \<not> all_finished t"
proof -
  obtain t where t: "run E [0, 1, 0, 1] [] (start e [crossed_request True, crossed_request False]) = Some ([], t)"
    "stuck E t" "\<not> all_finished t"
    by (simp add: start_def advance_def next_lock_def crossed_dispatch crossed_ordered set_phase_def lock_def
        granted_def stuck_def all_finished_def new_mutex_def less_Suc_eq numeral_2_eq_2)
  then show ?thesis using run_execution [OF execution.idle t(1)] by auto
qed

section \<open>Idempotency\<close>

text \<open>
  C6: A retry gets the recorded answer. Once a money request was answered 201, sending it again
  after any other requests returns the same status and body with the replay header, and leaves
  the engine as it is.
\<close>

theorem retry_replays:
  assumes "plans q p" and "handle E q s = (s1, Returned r)" and "r_status r = 201"
  shows "handle E q (fold (serve E) qs s1) = (fold (serve E) qs s1, Returned (replay r))"
proof -
  obtain x where x: "recorded (p_key p) x s1" "i_fingerprint x = p_fingerprint p"
      "replay (i_response x) = replay r"
    using accepted_recorded [OF assms] by metis
  have "recorded (p_key p) x (fold (serve E) qs s1)" using kept.run_inv x(1) .
  then show ?thesis using recorded_answer [OF assms(1), of x] x(2,3) by simp
qed

theorem retry_replays_witness:
  "\<exists>s1 r. handle demo_env (move_request 5) demo = (s1, Returned r) \<and>
     handle demo_env (move_request 5) (fold (serve demo_env) [move_request 7, get_request (js ''/wallets'')] s1) =
       (fold (serve demo_env) [move_request 7, get_request (js ''/wallets'')] s1, Returned (replay r))"
proof -
  obtain t where t: "snd (handle demo_env (move_request 5) demo) = Returned (accepted (move_plan 5) t)"
    using move_answer [of 5] by auto
  then have h: "handle demo_env (move_request 5) demo =
      (fst (handle demo_env (move_request 5) demo), Returned (accepted (move_plan 5) t))"
    by (metis prod.collapse)
  have "plans (move_request 5) (move_plan 5)" by (rule move_plans) simp
  then show ?thesis
    using retry_replays [OF _ h, of "move_plan 5" "[move_request 7, get_request (js ''/wallets'')]"] h
    by (metis accepted_simps(1))
qed

text \<open>
  C7: A key cannot be reused for another payload. After a 201 under a key, every money request
  with this key and another fingerprint is answered 422 (idempotency_key_reused) and moves
  nothing, whatever happened in between.
\<close>

theorem reused_key_rejected:
  assumes "plans q p" and "handle E q s = (s1, Returned r)" and "r_status r = 201"
    and "plans q' p'" and "p_key p' = p_key p" and "p_fingerprint p' \<noteq> p_fingerprint p"
  shows "handle E q' (fold (serve E) qs s1) = (fold (serve E) qs s1, Returned (key_reused (p_fingerprint p)))"
proof -
  obtain x where x: "recorded (p_key p) x s1" "i_fingerprint x = p_fingerprint p"
    using accepted_recorded [OF assms(1-3)] by metis
  have "recorded (p_key p') x (fold (serve E) qs s1)" using kept.run_inv x(1) assms(5) by metis
  then show ?thesis using recorded_answer [OF assms(4), of x] x(2) assms(6) by simp
qed

theorem reused_key_rejected_witness:
  "\<exists>s1 r. handle demo_env (move_request 5) demo = (s1, Returned r) \<and>
     handle demo_env (move_request 7) (fold (serve demo_env) [get_request (js ''/wallets'')] s1) =
       (fold (serve demo_env) [get_request (js ''/wallets'')] s1,
        Returned (key_reused (fingerprint Transfer (move_body 5))))"
proof -
  obtain t where t: "snd (handle demo_env (move_request 5) demo) = Returned (accepted (move_plan 5) t)"
    using move_answer [of 5] by auto
  then have h: "handle demo_env (move_request 5) demo =
      (fst (handle demo_env (move_request 5) demo), Returned (accepted (move_plan 5) t))"
    by (metis prod.collapse)
  have "plans (move_request 5) (move_plan 5)" "plans (move_request 7) (move_plan 7)"
    by (rule move_plans; simp)+
  then show ?thesis
    using reused_key_rejected [OF _ h, of "move_plan 5" "move_request 7" "move_plan 7"
        "[get_request (js ''/wallets'')]"] h move_fingerprints
    by (metis accepted_simps(1) move_plan_simps(1,5))
qed

text \<open>
  C8: At most one movement per key. In every state an execution from the seeded engine reaches,
  the movements after the seed have pairwise different idempotency keys, however many requests
  with one key were sent and however they interleaved.
\<close>

theorem one_movement_per_key:
  assumes "execution E (start (seed E) qs) sched order t" and "enough_ids E (length qs)"
  shows "distinct (map t_idempotency_key (drop 6 (txs (eng t))))"
proof -
  have "idem_wf 6 (eng t)" using execution_sound [OF assms] by (simp add: sound_def)
  then show ?thesis using idem_wf_keys [of 6 "eng t"] by (simp add: idem_wf_def)
qed

theorem one_movement_per_key_witness:
  "\<exists>sched order t. execution demo_env (start demo [move_request 5, move_request 5]) sched order t \<and>
     all_finished t \<and> distinct (map t_idempotency_key (drop 6 (txs (eng t))))"
proof -
  obtain sched order t where ex: "execution demo_env (start demo [move_request 5, move_request 5]) sched order t"
      "all_finished t"
    using demo_run [of "[move_request 5, move_request 5]"] by (auto simp: move_typed)
  then show ?thesis
    using one_movement_per_key [OF ex(1) [unfolded demo_def]] demo_ids [of 2] by (auto simp: demo_def)
qed

section \<open>The books\<close>

text \<open>
  C9: Reconciliation always succeeds. After any execution from the seeded engine, reconciling
  any wallet answers 200 with balanced and chain_valid both true, with the wallet's cached
  balance.
\<close>

theorem reconciliation_succeeds:
  assumes "execution E (start (seed E) qs) sched order t" and "enough_ids E (length qs)"
    and "map_get (wallets (eng t)) i = Some w"
  shows "\<exists>s' rc. handle E (get_request (js ''/wallets/'' @ i @ js ''/reconcile'')) (eng t) =
      (s', Returned (ok (ReconBody rc) 200 [])) \<and>
    rc_balanced rc \<and> rc_chain_valid rc \<and> rc_cached_balance rc = w_balance w \<and>
    rc_ledger_balance rc = w_balance w"
proof -
  note sound = execution_sound [OF assms(1,2)]
  have wf: "wf_books (eng t)" using sound(1) by (simp add: sound_def)
  show ?thesis
    using handle_reconcile [OF _ assms(3)] sound_keys [OF assms(2) sound assms(3)]
      reconcile_balanced [OF wf assms(3), of E]
    by (auto simp: reconcile_def Let_def)
qed

theorem reconciliation_succeeds_witness:
  "\<exists>sched order t w rc s'. execution demo_env (start demo [move_request 5]) sched order t \<and> all_finished t \<and>
     map_get (wallets (eng t)) (wal 0) = Some w \<and>
     handle demo_env (get_request (js ''/wallets/'' @ wal 0 @ js ''/reconcile'')) (eng t) =
       (s', Returned (ok (ReconBody rc) 200 [])) \<and> rc_balanced rc \<and> rc_chain_valid rc"
proof -
  obtain sched order t where ex: "execution demo_env (start demo [move_request 5]) sched order t" "all_finished t"
    using demo_run [of "[move_request 5]"] by (auto simp: move_typed)
  obtain w where w: "map_get (wallets (eng t)) (wal 0) = Some w"
    using demo_wallet_kept [OF ex(1), of 0] by auto
  have "enough_ids demo_env (length [move_request 5])" by (rule demo_ids) simp
  then show ?thesis
    using reconciliation_succeeds [OF ex(1) [unfolded demo_def] _ w] ex w by blast
qed

text \<open>
  C10: No balance is ever negative, in any state an execution from the seeded engine reaches.
\<close>

theorem balances_never_negative:
  assumes "execution E (start (seed E) qs) sched order t" and "enough_ids E (length qs)"
    and "map_get (wallets (eng t)) i = Some w"
  shows "0 \<le> w_balance w"
  using execution_sound(1) [OF assms(1,2)] assms(3) by (auto simp: sound_def wf_books_def solvent_def)

theorem balances_never_negative_witness:
  "\<exists>sched order t w. execution demo_env (start demo [move_request 206750000, move_request 206750000]) sched order t \<and>
     all_finished t \<and> map_get (wallets (eng t)) (wal 0) = Some w \<and> 0 \<le> w_balance w"
proof -
  obtain sched order t where
    ex: "execution demo_env (start demo [move_request 206750000, move_request 206750000]) sched order t"
      "all_finished t"
    using demo_run [of "[move_request 206750000, move_request 206750000]"] by (auto simp: move_typed)
  obtain w where w: "map_get (wallets (eng t)) (wal 0) = Some w"
    using demo_wallet_kept [OF ex(1), of 0] by auto
  have "enough_ids demo_env (length [move_request 206750000, move_request 206750000])"
    by (rule demo_ids) simp
  then show ?thesis
    using balances_never_negative [OF ex(1) [unfolded demo_def] _ w] ex w by blast
qed

text \<open>
  C11: Double entry. After any execution the entries are, in order, one debit and one credit
  per transaction, with its id, its amount and its two accounts (the settlement account where
  it has none); so all entries together sum to zero.
\<close>

theorem entries_are_double:
  assumes "execution E (start (seed E) qs) sched order t" and "enough_ids E (length qs)"
  shows "list_all2 pair_of (txs (eng t)) (chunks (entries (eng t))) \<and>
    length (entries (eng t)) = 2 * length (txs (eng t)) \<and>
    (\<Sum>e\<leftarrow>entries (eng t). entry_signed e) = 0"
  using execution_sound(1) [OF assms] pairs_cancel by (auto simp: sound_def wf_books_def paired_def)

theorem entries_are_double_witness:
  "\<exists>sched order t. execution demo_env (start demo [move_request 5, move_request 7]) sched order t \<and>
     all_finished t \<and> (\<Sum>e\<leftarrow>entries (eng t). entry_signed e) = 0"
proof -
  obtain sched order t where
    ex: "execution demo_env (start demo [move_request 5, move_request 7]) sched order t" "all_finished t"
    using demo_run [of "[move_request 5, move_request 7]"] by (auto simp: move_typed)
  then show ?thesis
    using entries_are_double [OF ex(1) [unfolded demo_def]] demo_ids [of 2] by (auto simp: demo_def)
qed

text \<open>
  C12: The hash chain. After any execution the entries are numbered from 1 without gaps, each
  holds the hash of the one before it (the first the genesis value), and each hash is the hash
  of the entry's own contents.
\<close>

theorem hash_chain_intact:
  assumes "execution E (start (seed E) qs) sched order t" and "enough_ids E (length qs)"
    and "i < length (entries (eng t))"
  shows "e_seq (entries (eng t) ! i) = int i + 1 \<and>
    e_prev_hash (entries (eng t) ! i) = (if i = 0 then genesis else e_hash (entries (eng t) ! (i - 1))) \<and>
    e_hash (entries (eng t) ! i) = entry_hash (entries (eng t) ! i)"
proof -
  have "chain_wf (eng t)" using execution_sound(1) [OF assms(1,2)] by (simp add: sound_def wf_books_def)
  then show ?thesis
    using chained_seq chained_links chained_hash nth_mem assms(3) unfolding chain_wf_def
    by (metis add.commute add.right_neutral)
qed

theorem hash_chain_intact_witness:
  "\<exists>sched order t. execution demo_env (start demo [move_request 5]) sched order t \<and> all_finished t \<and>
     0 < length (entries (eng t)) \<and> e_prev_hash (entries (eng t) ! 0) = genesis"
proof -
  obtain sched order t where
    ex: "execution demo_env (start demo [move_request 5]) sched order t" "all_finished t"
    using demo_run [of "[move_request 5]"] by (auto simp: move_typed)
  have "0 < length (entries (eng t))" using demo_entries_kept [OF ex(1)] by force
  then show ?thesis
    using hash_chain_intact [OF ex(1) [unfolded demo_def], of 0] demo_ids [of 1] ex
    by (auto simp: demo_def)
qed

text \<open>
  C13: Conservation. After any execution in which at most \<open>2 ^ 53\<close> minor units were ever paid
  in, the balances of all wallets together are exactly what was paid in less what was paid out;
  transfers neither create nor destroy value.
\<close>

theorem value_conserved:
  assumes "execution E (start (seed E) qs) sched order t" and "enough_ids E (length qs)"
    and "paid_in (eng t) \<le> 2 ^ 53"
  shows "bank_total (balances (eng t)) = paid_in (eng t) - paid_out (eng t)"
  using execution_sound(1) [OF assms(1,2)] assms(3)
  by (simp add: sound_def wf_books_def conserved_def bank_total_balances)

theorem value_conserved_witness:
  "\<exists>t. execution demo_env (start demo []) [] [] t \<and> bank_total (balances (eng t)) = 244254982 \<and>
     paid_in (eng t) - paid_out (eng t) = 244254982"
proof -
  have ex: "execution demo_env (start demo []) [] [] (start demo [])" by (rule execution.idle)
  have "bank_total (balances demo) = 244254982" by (simp add: seed_bank_def bank_total_def)
  moreover have "bank_total (balances (eng (start demo []))) =
      paid_in (eng (start demo [])) - paid_out (eng (start demo []))"
    by (rule value_conserved [OF ex [unfolded demo_def], folded demo_def])
      (use demo_ids [of 0] demo_paid_in in \<open>simp_all add: start_def\<close>)
  ultimately have "bank_total (balances (eng (start demo []))) = 244254982 \<and>
      paid_in (eng (start demo [])) - paid_out (eng (start demo [])) = 244254982"
    by (simp add: start_def)
  then show ?thesis by (intro exI [of _ "start demo []"] conjI ex) auto
qed

text \<open>
  C14: No session breaks the books. Whatever is done on the pages, in any order and with any answers
  of the network, and whatever requests run at once: from the seeded engine on, as long as ids do
  not repeat, no balance is negative, every wallet reconciles to its entries with an intact hash
  chain, the entries sum to zero, and no key has been used for two movements.
\<close>

theorem session_keeps_books:
  assumes "(page_step E)\<^sup>*\<^sup>* (seed E) e" and "fresh_ids E N" and "21 \<le> N" and "drawn e \<le> N"
  shows "(\<forall>i w. map_get (wallets e) i = Some w \<longrightarrow> 0 \<le> w_balance w \<and>
      (\<exists>s' rc. handle E (get_request (js ''/wallets/'' @ i @ js ''/reconcile'')) e =
          (s', Returned (ok (ReconBody rc) 200 [])) \<and>
        rc_balanced rc \<and> rc_chain_valid rc \<and> rc_ledger_balance rc = w_balance w)) \<and>
    (\<Sum>x\<leftarrow>entries e. entry_signed x) = 0 \<and>
    distinct (map t_idempotency_key (drop 6 (txs e)))"
proof (intro conjI allI impI)
  have s: "sound E 6 e" by (rule session_sound [OF assms])
  fix i w assume w: "map_get (wallets e) i = Some w"
  show "0 \<le> w_balance w" using s w by (auto simp: sound_def wf_books_def solvent_def)
  show "\<exists>s' rc. handle E (get_request (js ''/wallets/'' @ i @ js ''/reconcile'')) e =
      (s', Returned (ok (ReconBody rc) 200 [])) \<and> rc_balanced rc \<and> rc_chain_valid rc \<and> rc_ledger_balance rc = w_balance w"
    by (rule sound_reconciles [OF assms(2) s assms(4) w]) blast
next
  have s: "sound E 6 e" by (rule session_sound [OF assms])
  then show "(\<Sum>x\<leftarrow>entries e. entry_signed x) = 0" using pairs_cancel by (auto simp: sound_def wf_books_def paired_def)
  have "idem_wf 6 e" using s by (simp add: sound_def)
  then show "distinct (map t_idempotency_key (drop 6 (txs e)))" using idem_wf_keys [of 6 e] by (simp add: idem_wf_def)
qed

theorem session_keeps_books_witness:
  "\<exists>e. (page_step demo_env)\<^sup>*\<^sup>* demo e \<and> distinct (map t_idempotency_key (drop 6 (txs e))) \<and>
     (\<Sum>x\<leftarrow>entries e. entry_signed x) = 0"
proof -
  obtain sched order t where ex: "execution demo_env (start demo [move_request 5, move_request 5]) sched order t"
    using demo_run [of "[move_request 5, move_request 5]"] by (auto simp: move_typed)
  have s: "(page_step demo_env)\<^sup>*\<^sup>* (seed demo_env) (eng t)"
    using page_step.together [OF ex] by (simp add: demo_def r_into_rtranclp)
  have "drawn (eng t) \<le> 27" using execution_drawn [OF ex] by simp
  then show ?thesis using session_keeps_books [OF s demo_ids [of 2]] s by (auto simp: demo_def)
qed

text \<open>
  C15: The ledger is append-only. From any state of the engine on, a session only adds entries and
  transactions at the end; no wallet disappears, and a response that is recorded under its key
  stays recorded as it is.
\<close>

theorem session_append_only:
  assumes "(page_step E)\<^sup>*\<^sup>* e e'"
  shows "prefix (entries e) (entries e') \<and> prefix (txs e) (txs e') \<and>
    set (map_keys (wallets e)) \<subseteq> set (map_keys (wallets e')) \<and>
    (\<forall>key r. map_get (idem e) key = Some r \<longrightarrow> map_get (idem e') key = Some r)"
proof -
  note ev = session_evolves [OF assms]
  show ?thesis
    using entries_last.lasts [OF ev, of "entries e"] txs_last.lasts [OF ev, of "txs e"] wallet_lasts.lasts [OF ev]
      record_lasts.lasts [OF ev] by (auto simp: recorded_def)
qed

theorem session_append_only_witness:
  "prefix (entries demo) (entries (wp_engine (open_wallet demo_env no_net demo_wallets_page)))"
proof -
  have "(page_step demo_env)\<^sup>*\<^sup>* (wp_engine demo_wallets_page)
      (wp_engine (open_wallet demo_env no_net demo_wallets_page))"
    by (rule r_into_rtranclp) (rule page_step.opens_wallet)
  then show ?thesis using session_append_only by (fastforce simp: demo_wallets_page_def)
qed

section \<open>What one movement does\<close>

text \<open>
  C16: A money request refines the abstract bank. On well-formed books, and while at most \<open>2 ^ 53\<close>
  minor units were paid in, a request that posts a transaction changes the balances by exactly one transfer of its amount between
  its accounts in the bank with exact arithmetic, and a request that posts none changes no
  balance.
\<close>

theorem movement_refines_bank:
  assumes "wf_books s" and "plans q p" and "paid_in (fst (handle E q s)) \<le> 2 ^ 53"
  shows "balances (fst (handle E q s)) =
    (if txs (fst (handle E q s)) = txs s then balances s
     else bank_transfer (+) (p_from p) (p_to p) (p_amount p) (balances s))"
  using assms by (rule handle_bank)

theorem movement_refines_bank_witness:
  "balances (fst (handle demo_env (move_request 5) demo)) =
     (if txs (fst (handle demo_env (move_request 5) demo)) = txs demo
      then [(wal 0, 206750000), (wal 1, 28754982), (wal 2, 8750000)]
      else [(wal 0, 206749995), (wal 1, 28754987), (wal 2, 8750000)])"
proof -
  have "plans (move_request 5) (move_plan 5)" by (rule move_plans) simp
  moreover have "paid_in (fst (handle demo_env (move_request 5) demo)) \<le> 2 ^ 53"
    by (rule demo_move_paid_in)
  ultimately show ?thesis
    using movement_refines_bank [of demo "move_request 5" "move_plan 5" demo_env]
    by (simp add: bank_transfer_def bank_move_def bank_account_def seed_bank_def)
qed

text \<open>
  C17: A movement is accepted exactly under the bank's conditions. A request with an unused key
  whose accounts exist (one of them at least is given) and whose sender's balance covers the
  amount is answered 201 with the posted transaction, moves the amount, and is recorded under
  its key with its fingerprint.
\<close>

theorem movement_accepted:
  assumes "plans q p" and "map_get (idem s) (p_key p) = None" and "bank_accepts (balances s) p"
  shows "\<exists>t. snd (handle E q s) = Returned (accepted p t) \<and>
    balances (fst (handle E q s)) = bank_transfer js_add (p_from p) (p_to p) (p_amount p) (balances s) \<and>
    txs (fst (handle E q s)) = txs s @ [t] \<and>
    map_get (idem (fst (handle E q s))) (p_key p) =
      Some \<lparr>i_fingerprint = p_fingerprint p, i_response = accepted p t\<rparr>"
  using handle_accepts [OF assms, where E = E] by (metis jsmap.get_put)

theorem movement_accepted_witness:
  "\<exists>t. snd (handle demo_env (move_request 5) demo) = Returned (accepted (move_plan 5) t) \<and>
     balances (fst (handle demo_env (move_request 5) demo)) =
       [(wal 0, 206749995), (wal 1, 28754987), (wal 2, 8750000)]"
proof -
  have "plans (move_request 5) (move_plan 5)" by (rule move_plans) simp
  moreover have "bank_accepts (balances demo) (move_plan 5)" by (rule move_accepted) simp_all
  ultimately show ?thesis
    using movement_accepted [of "move_request 5" "move_plan 5" demo demo_env]
    by (auto simp: bank_transfer_def bank_move_def bank_account_def seed_bank_def num.add_exact)
qed

text \<open>
  C18: Overdraft protection. A request with an unused key and known accounts whose sender's balance
  is below the amount is answered 422 (insufficient_funds) and changes nothing at all.
\<close>

theorem overdraft_refused:
  assumes "plans q p" and "map_get (idem s) (p_key p) = None" and "truthy (p_from p)"
    and "get_wallet s (p_from p) = Some w" and "truthy (p_to p) \<longrightarrow> get_wallet s (p_to p) \<noteq> None"
    and "w_balance w < p_amount p"
  shows "handle E q s = (s, Returned (insufficient w (p_amount p)))"
proof (rule handle_overdraft [OF assms(1) _ assms(4,3,6)])
  show "crit_begin p s = None" using assms by (simp add: crit_begin_None_iff missing_def)
qed

theorem overdraft_refused_witness:
  "\<exists>w. w_balance w = 206750000 \<and>
     handle demo_env (move_request 206750001) demo = (demo, Returned (insufficient w 206750001))"
proof -
  obtain w where w: "map_get (wallets demo) (wal 0) = Some w" "w_balance w = 206750000"
    by (rule demo_wallet)
  have "plans (move_request 206750001) (move_plan 206750001)" by (rule move_plans) simp
  moreover obtain v where "map_get (wallets demo) (wal 1) = Some v" using demo_balance(2) by auto
  ultimately show ?thesis
    using overdraft_refused [of "move_request 206750001" "move_plan 206750001" demo w demo_env] w
    by (intro exI [of _ w]) (simp add: get_wallet_def)
qed

text \<open>
  C19: Errors leave the books. A request that ends with an exception or with any status other
  than 201 changes no wallet, no transaction, no entry, no idempotency record and not the head
  of the hash chain.
\<close>

theorem errors_leave_books:
  assumes "snd (handle E q s) = Threw \<or> snd (handle E q s) = Returned r \<and> r_status r \<noteq> 201"
  shows "same_books (fst (handle E q s)) s"
  using assms by (rule handle_error)

theorem errors_leave_books_witness:
  "same_books (fst (handle demo_env (get_request (js ''/nowhere'')) demo)) demo"
proof (rule errors_leave_books)
  show "snd (handle demo_env (get_request (js ''/nowhere'')) demo) = Threw \<or>
      snd (handle demo_env (get_request (js ''/nowhere'')) demo) =
        Returned (err 404 (js ''route_not_found'') (js ''no route for GET /nowhere'')) \<and>
      r_status (err 404 (js ''route_not_found'') (js ''no route for GET /nowhere'')) \<noteq> 201"
    by (simp add: handle_def dispatch_def get_request_def route_of_def strip_prefix_def match_wallet_def
        kind_route_def method_text_def take_js drop_js Let_def flip: js_append)
qed

section \<open>Gaps in the engine\<close>

text \<open>
  C20: A transfer without a sender mints money. The engine does not require a transfer to name
  its sender: one without \<open>from_wallet_id\<close> is posted as a transfer, takes the amount from no
  wallet, and the balances of all wallets together grow by it.
\<close>

theorem missing_sender_mints:
  assumes "wf_books s" and "key \<noteq> []" and "0 < a" and "map_get (idem s) key = None"
    and "map_get (wallets s) k = Some w" and "paid_in s + a \<le> 2 ^ 53"
  shows "\<exists>p t. snd (handle E (money_request Transfer key
        (JObj [(js ''to_wallet_id'', JStr k), (js ''amount'', JNum a)])) s) = Returned (accepted p t) \<and>
      t_kind t = Transfer \<and>
      bank_total (balances (fst (handle E (money_request Transfer key
        (JObj [(js ''to_wallet_id'', JStr k), (js ''amount'', JNum a)])) s))) = bank_total (balances s) + a"
proof -
  let ?b = "JObj [(js ''to_wallet_id'', JStr k), (js ''amount'', JNum a)]"
  let ?q = "money_request Transfer key ?b" and ?p = "plan_for Transfer key ?b a"
  have acc: "from_of Transfer ?b = JUndef" "to_of Transfer ?b = JStr k"
    by (simp_all add: from_of_def to_of_def)
  have p: "plans ?q ?p" using assms(2,3) acc by (intro money_plan) (simp_all add: strict_eq_def)
  have wf: "keyed s" using assms(1) by (simp add: wf_books_def)
  have k: "k \<noteq> []" using wf jsmap.get_some_key [OF assms(5)] unfolding keyed_def by metis
  have to: "bank_account (balances s) (JStr k) = Some (k, w_balance w)"
    using assms(5) k by (simp add: bank_account_def map_get_balances)
  have "bank_accepts (balances s) ?p"
    using to k by (simp add: bank_accepts_def bank_knows_def bank_covers_def acc bank_account_def)
  then obtain t where t: "snd (handle E ?q s) = Returned (accepted ?p t)" "t_kind t = Transfer"
      "txs (fst (handle E ?q s)) = txs s @ [t]"
    using handle_accepts [OF p, of s E] assms(4) by (metis plan_for_simps(1,6))
  have "balances (fst (handle E ?q s)) = bank_transfer (+) JUndef (JStr k) a (balances s)"
    using handle_bank [OF assms(1) p] handle_paid_in [OF assms(1) p, of E] t(3) assms(6) acc by fastforce
  moreover have "bank_total (bank_transfer (+) JUndef (JStr k) a (balances s)) = bank_total (balances s) + a"
    using bank_move_total [of "balances s"] wf to
    by (simp add: bank_transfer_def keyed_def bank_move_def [of _ Debit JUndef]) (simp add: bank_account_def)
  ultimately show ?thesis using t by auto
qed

theorem missing_sender_mints_witness:
  "\<exists>p t. snd (handle demo_env (money_request Transfer (js ''k9'')
        (JObj [(js ''to_wallet_id'', JStr (wal 0)), (js ''amount'', JNum 1000)])) demo) =
      Returned (accepted p t) \<and> t_kind t = Transfer \<and>
    bank_total (balances (fst (handle demo_env (money_request Transfer (js ''k9'')
        (JObj [(js ''to_wallet_id'', JStr (wal 0)), (js ''amount'', JNum 1000)])) demo))) = 244255982"
proof -
  obtain w where w: "map_get (wallets demo) (wal 0) = Some w" by (rule demo_wallet)
  have "bank_total (balances demo) = 244254982" by (simp add: seed_bank_def bank_total_def)
  moreover have "paid_in demo + 1000 \<le> 2 ^ 53" using demo_seeding by (simp add: seeding_def)
  ultimately show ?thesis
    using missing_sender_mints [OF _ _ _ _ w, of "js ''k9''" 1000 demo_env] by simp
qed

text \<open>
  C21: Past \<open>2 ^ 53\<close> minor units the engine loses money. A deposit fills one wallet of the seeded
  engine to \<open>2 ^ 53\<close>; the transfer of one cent that follows is accepted and takes the cent from
  the sender, but the receiver's balance does not change.
\<close>

theorem large_balance_loses_cent:
  "\<exists>s t p. s = serve demo_env (money_request Deposit (js ''k1'') filling_body) demo \<and>
     balances s = [(wal 0, 2 ^ 53), (wal 1, 28754982), (wal 2, 8750000)] \<and>
     snd (handle demo_env (money_request Transfer (js ''k2'') cent_body) s) = Returned (accepted p t) \<and>
     balances (fst (handle demo_env (money_request Transfer (js ''k2'') cent_body) s)) =
       [(wal 0, 2 ^ 53), (wal 1, 28754981), (wal 2, 8750000)]"
proof -
  let ?q1 = "money_request Deposit (js ''k1'') filling_body"
  let ?p1 = "plan_for Deposit (js ''k1'') filling_body (2 ^ 53 - 206750000)"
  let ?q2 = "money_request Transfer (js ''k2'') cent_body" and ?p2 = "plan_for Transfer (js ''k2'') cent_body 1"
  have p1: "plans ?q1 ?p1" unfolding filling_body_def by (rule money_plan) simp_all
  have p2: "plans ?q2 ?p2" unfolding cent_body_def by (rule money_plan) (simp_all add: strict_eq_def)
  have a1: "bank_accepts (balances demo) ?p1"
    by (simp add: bank_accepts_def bank_knows_def bank_covers_def bank_account_def seed_bank_def filling_body_def)
  obtain t1 where 1: "balances (fst (handle demo_env ?q1 demo)) =
        bank_transfer js_add JNull (JStr (wal 0)) (2 ^ 53 - 206750000) (balances demo)"
      "idem (fst (handle demo_env ?q1 demo)) =
        map_set (js ''k1'') \<lparr>i_fingerprint = p_fingerprint ?p1, i_response = accepted ?p1 t1\<rparr> []"
    using handle_accepts [OF p1 _ a1, where E = demo_env] by (auto simp: filling_body_def)
  let ?s = "serve demo_env ?q1 demo"
  have b1: "balances ?s = [(wal 0, 2 ^ 53), (wal 1, 28754982), (wal 2, 8750000)]"
    using 1(1) by (simp add: serve_def bank_transfer_def bank_move_def bank_account_def seed_bank_def num.add_exact)
  have a2: "bank_accepts (balances ?s) ?p2"
    by (simp add: b1 bank_accepts_def bank_knows_def bank_covers_def bank_account_def cent_body_def)
  have new: "map_get (idem ?s) (p_key ?p2) = None" using 1(2) by (simp add: serve_def)
  obtain t2 where 2: "snd (handle demo_env ?q2 ?s) = Returned (accepted ?p2 t2)"
      "balances (fst (handle demo_env ?q2 ?s)) =
        bank_transfer js_add (JStr (wal 1)) (JStr (wal 0)) 1 (balances ?s)"
    using handle_accepts [OF p2 new a2, where E = demo_env] by (auto simp: cent_body_def)
  have "balances (fst (handle demo_env ?q2 ?s)) = [(wal 0, 2 ^ 53), (wal 1, 28754981), (wal 2, 8750000)]"
    unfolding 2(2) b1 using js_add_past_limit
    by (simp add: bank_transfer_def bank_move_def bank_account_def num.add_exact)
  then show ?thesis using b1 2(1) by blast
qed

text \<open>
  C22: The reconciliation does not notice a rewritten entry. Its chain check compares stored
  hashes and never recomputes one: whatever is changed in the entries (amounts, accounts,
  directions), it passes as before as long as the stored hashes are left alone.
\<close>

theorem tampering_unnoticed:
  assumes "\<And>e. e_prev_hash (f e) = e_prev_hash e" and "\<And>e. e_hash (f e) = e_hash e"
  shows "rc_chain_valid (reconcile E w (s\<lparr>entries := map f (entries s)\<rparr>)) = rc_chain_valid (reconcile E w s)"
  using assms by (simp add: reconcile_def Let_def chain_valid_def list_all_iff less_imp_diff_less cong: ball_cong_simp)

theorem tampering_unnoticed_witness:
  "\<forall>w. rc_chain_valid (reconcile demo_env w
     (demo\<lparr>entries := map (\<lambda>e. e\<lparr>e_amount := 1000 * e_amount e\<rparr>) (entries demo)\<rparr>))"
proof
  fix w
  have "chain_wf demo" using demo_facts(2) by (simp add: wf_books_def)
  then have "rc_chain_valid (reconcile demo_env w demo)"
    by (simp add: reconcile_def Let_def chain_wf_valid)
  then show "rc_chain_valid (reconcile demo_env w
      (demo\<lparr>entries := map (\<lambda>e. e\<lparr>e_amount := 1000 * e_amount e\<rparr>) (entries demo)\<rparr>))"
    using tampering_unnoticed [of "\<lambda>e. e\<lparr>e_amount := 1000 * e_amount e\<rparr>"] by simp
qed

section \<open>Payload fingerprints\<close>



text \<open>
  C24: The order of the fields does not matter. Two bodies with the same fields, in any order,
  have the same fingerprint.
\<close>

theorem fingerprint_field_order:
  assumes "distinct (map fst fs)" and "distinct (map fst gs)" and "set fs = set gs"
  shows "fingerprint k (JObj fs) = fingerprint k (JObj gs)"
proof -
  have "map_of fs = map_of gs" using assms by (simp add: map_of_inject_set)
  moreover have "sort (map fst fs) = sort (map fst gs)"
    by (rule sorted_distinct_set_unique) (use assms in simp_all)
  ultimately have "canonical (JObj fs) = canonical (JObj gs)"
    using assms by (simp add: canonical_def dedup_distinct map_of_map_snd pick_def)
  then show ?thesis by (simp add: fingerprint_def)
qed

theorem fingerprint_field_order_witness:
  "fingerprint Deposit (JObj [(js ''wallet_id'', JStr (wal 0)), (js ''amount'', JNum 5)]) =
   fingerprint Deposit (JObj [(js ''amount'', JNum 5), (js ''wallet_id'', JStr (wal 0))])"
  by (rule fingerprint_field_order) auto

section \<open>Wallets\<close>

text \<open>
  C25: A created wallet can be read back. A \<open>POST /wallets\<close> answered 201 gives a wallet with
  balance 0 under a new id; \<open>GET /wallets/\<close> with this id returns it, and all other wallets are
  as before.
\<close>

theorem created_wallet_readable:
  assumes "sound E n s" and "fresh_ids E N" and "drawn s < N"
    and "q_route q = RCreate" and "handle E q s = (s1, Returned r)" and "r_status r = 201"
  shows "\<exists>w. r_body r = WalletBody w \<and> w_balance w = 0 \<and> map_get (wallets s) (w_id w) = None \<and>
    handle E (get_request (js ''/wallets/'' @ w_id w)) s1 = (s1, Returned (ok (WalletBody w) 200 [])) \<and>
    wallets s1 = wallets s @ [(w_id w, w)]"
proof -
  have h: "create_wallet E (q_body q) s = (s1, r)"
    using assms(4,5) by (cases "create_wallet E (q_body q) s") (simp add: handle_def dispatch_def)
  show ?thesis
  proof (cases rule: create_wallet_cases [of E "q_body q" s])
    case rejected
    then show ?thesis using h assms(6) by auto
  next
    case (created w)
    have new: "map_get (wallets s) (w_id w) = None"
      using fresh_wallet_id [OF assms(2) _ assms(3)] assms(1) created(2)
      by (simp add: sound_def jsmap.get_None_iff)
    have i: "list_all is_word_char (w_id w)" "w_id w \<noteq> []"
      using rid_word_chars [OF assms(2,3)] created(2) by (simp_all add: rid_def)
    have s1: "wallets s1 = map_set (w_id w) w (wallets s)" "r = ok (WalletBody w) 201 [(js ''location'', js ''/api/v1/wallets/'' @ w_id w)]"
      using h created(1) by auto
    then have "map_get (wallets s1) (w_id w) = Some w" by (simp add: jsmap.get_put)
    then show ?thesis
      using handle_get_wallet [OF i(1) _ i(2)] new created(3) s1
      by (intro exI [of _ w]) (simp add: map_set_new)
  qed
qed

theorem created_wallet_readable_witness:
  "\<exists>s1 w. handle demo_env (get_request (js ''/wallets/'' @ w_id w)) s1 = (s1, Returned (ok (WalletBody w) 200 [])) \<and>
     w_balance w = 0 \<and> s1 = serve demo_env create_request demo"
proof -
  have route: "q_route create_request = RCreate"
    by (simp add: create_request_def route_of_def strip_prefix_def take_js)
  have "trim (js ''ada'') \<noteq> []" by (simp add: trim_def js_def is_space_def)
  then obtain s1 r where h: "handle demo_env create_request demo = (s1, Returned r)" "r_status r = 201"
    using route by (simp add: handle_def dispatch_def create_wallet_def Let_def)
      (simp add: create_request_def coalesce_def Let_def)
  show ?thesis
    using created_wallet_readable [OF demo_facts(1) fresh_demo_small _ route h] h(1)
    by (auto simp: serve_def)
qed

text \<open>
  C26: The seeded engine. It has three wallets, with the balances 2,067,500.00, 287,549.82 and
  87,500.00 dollars that its six seeded transactions leave, six posted transactions and no
  idempotency record, and its books are well-formed.
\<close>

theorem seeded_books:
  assumes "fresh_ids E 21"
  shows "balances (seed E) =
      [(rid E (js ''wal'') 0, 206750000), (rid E (js ''wal'') 1, 28754982), (rid E (js ''wal'') 2, 8750000)] \<and>
    length (txs (seed E)) = 6 \<and> length (entries (seed E)) = 12 \<and> idem (seed E) = [] \<and> wf_books (seed E)"
proof -
  have s: "seeding E (seed_bank (rid E (js ''wal'') 0) (rid E (js ''wal'') 1) (rid E (js ''wal'') 2)) 6 21 (seed E)"
    using seed_seeding [OF assms] by simp
  then have "length (entries (seed E)) = 12"
    by (auto simp: seeding_def wf_books_def paired_def)
  then show ?thesis using s by (simp add: seeding_def seed_bank_def)
qed

theorem seeded_books_witness:
  "balances (seed demo_env) =
     [(rid demo_env (js ''wal'') 0, 206750000), (rid demo_env (js ''wal'') 1, 28754982),
      (rid demo_env (js ''wal'') 2, 8750000)]"
  using seeded_books [OF fresh_ids_mono [OF fresh_demo_small, of 21]] by simp

section \<open>Amounts on the page\<close>

text \<open>
  C27: An amount reads back. What the page shows for an amount of 0 to \<open>2 ^ 53\<close> minor units
  (symbol, grouping commas, two decimals) is read back by the amount field as this amount; what it
  shows for an amount below zero, with a minus sign, is refused.
\<close>

theorem amount_text_reads_back:
  assumes "n \<le> 2 ^ 53"
  shows "parseMinor (money_text n (js ''USD'') False) = (if n < 0 then None else Some n)"
  using money_parse [OF _ assms] money_refused by simp

theorem amount_text_reads_back_witness:
  "parseMinor (money_text 123456789 (js ''USD'') False) = Some 123456789 \<and>
   parseMinor (money_text (- 5) (js ''USD'') False) = None"
  using amount_text_reads_back [of 123456789] amount_text_reads_back [of "- 5"] by simp

text \<open>
  C28: The amount field accepts exactly decimal numbers with at most two decimals, after the
  separators and currency signs are removed; all else (a sign, letters, three decimals, nothing)
  is refused.
\<close>

theorem amounts_accepted:
  "parseMinor input \<noteq> None \<longleftrightarrow>
   (\<exists>w f. w \<noteq> [] \<and> list_all is_digit w \<and> list_all is_digit f \<and> length f \<le> 2 \<and>
      (filter (\<lambda>c. \<not> is_filler c) (trim input) = w \<and> f = [] \<or>
       filter (\<lambda>c. \<not> is_filler c) (trim input) = w @ 0x2E # f))"
  unfolding decimal_parts_iff [symmetric] by (auto simp: parseMinor_def split: option.split)

text \<open>
  C29: The MAX button. For a balance of less than \<open>100 * 2 ^ 46\<close> minor units it writes a text that
  the amount field reads as exactly this balance, so the form does not warn of an overdraft. The
  text is computed with doubles: a division by 100 and \<open>toFixed(2)\<close>.
\<close>

theorem max_fills_balance:
  assumes "form_source ws f = Some w" and "0 \<le> balance_of w" and "balance_of w < 100 * 2 ^ 46"
  shows "form_amount (max_button ws f) = Some (balance_of w) \<and> \<not> overdraft_warning ws (max_button ws f) \<and>
    form_source ws (max_button ws f) = Some w"
  using assms max_text_exact [OF assms(2,3)]
  by (auto simp: max_button_def form_amount_def overdraft_warning_def form_source_def split: option.splits tx_kind.splits)

theorem max_fills_balance_witness:
  "form_amount (max_button [JObj [(js ''id'', JStr (wal 0)), (js ''balance'', JNum 123456789)]] (demo_form\<lparr>tf_kind := Withdrawal\<rparr>)) =
     Some 123456789"
proof -
  let ?w = "JObj [(js ''id'', JStr (wal 0)), (js ''balance'', JNum 123456789)]"
  have "form_source [?w] (demo_form\<lparr>tf_kind := Withdrawal\<rparr>) = Some ?w"
    by (simp add: form_source_def by_id_def demo_form_def wallet_id_def)
  moreover have "balance_of ?w = 123456789" by (simp add: balance_of_def as_number_def)
  ultimately show ?thesis using max_fills_balance by fastforce
qed

section \<open>The pages\<close>

text \<open>
  C30: Opening a wallet. With an owner that is not blank, on the engine in the page, the new wallet
  is listed last, has the trimmed owner and the balance 0, and is the selected one; the engine
  has exactly this wallet more.
\<close>

theorem opened_wallet_listed:
  assumes "ready E N n 5 (wp_engine pg)" and "trim (wp_owner pg) \<noteq> []"
  shows "\<exists>w. selected (wp_store (open_wallet E no_net pg)) = Some (listed_wallet w) \<and>
    wallet_owner (listed_wallet w) = JStr (trim (wp_owner pg)) \<and> balance_of (listed_wallet w) = 0 \<and>
    st_wallets (wp_store (open_wallet E no_net pg)) =
      map (listed_wallet \<circ> snd) (wallets (wp_engine pg)) @ [listed_wallet w] \<and>
    wallets (wp_engine (open_wallet E no_net pg)) = wallets (wp_engine pg) @ [(w_id w, w)] \<and>
    wp_error (open_wallet E no_net pg) = JNull"
proof (rule open_wallet_ok [OF assms])
  fix w
  assume w: "w_owner w = trim (wp_owner pg)" "w_balance w = 0"
    "wallets (wp_engine (open_wallet E no_net pg)) = wallets (wp_engine pg) @ [(w_id w, w)]"
    "w_id w \<notin> set (map_keys (wallets (wp_engine pg)))"
    "st_selected (wp_store (open_wallet E no_net pg)) = Some (w_id w)"
    "st_wallets (wp_store (open_wallet E no_net pg)) =
      map (listed_wallet \<circ> snd) (wallets (wp_engine pg)) @ [listed_wallet w]"
    "wp_error (open_wallet E no_net pg) = JNull"
  have "keyed (wp_engine pg)" using ready_wf [OF assms(1)] by (simp add: wf_books_def)
  then have "\<forall>(k, v) \<in> set (wallets (wp_engine pg)). w_id v = k"
    using map_get_distinct [of "wallets (wp_engine pg)"] by (auto simp: keyed_def)
  then show ?thesis using opened_selected [OF w(6,5) _ w(4)] w by (intro exI [of _ w]) simp
qed

theorem opened_wallet_listed_witness:
  "\<exists>w. selected (wp_store (open_wallet demo_env no_net demo_wallets_page)) = Some (listed_wallet w) \<and>
     wallet_owner (listed_wallet w) = JStr (js ''ada'') \<and> balance_of (listed_wallet w) = 0"
proof -
  have "trim (wp_owner demo_wallets_page) = js ''ada''"
    by (simp add: demo_wallets_page_def trim_def js_def is_space_def)
  then show ?thesis
    using opened_wallet_listed [of demo_env 1000000 6 demo_wallets_page] demo_ready [of 5]
    by (auto simp: demo_wallets_page_def)
qed

text \<open>
  C31: Submitting the form. With a readable amount of at most \<open>2 ^ 53\<close> minor units, different
  wallets, enough funds, new balances of at most \<open>2 ^ 53\<close> and an unused key, the engine in the page
  posts the movement: the outcome is \<open>Posted\<close>, its lines name the owners of the moved wallets with
  exactly the signed amounts that were moved; a key that is not pinned is replaced by another one,
  and a pinned key is kept.
\<close>

theorem submission_shows_movement:
  assumes "ready E N n 8 s" and "form_amount f = Some a" and "a \<noteq> 0" and "a \<le> 2 ^ 53" and "\<not> same_error f"
    and "key = idemKey E i" and "i < drawn s" and "map_get (idem s) key = None"
    and "\<forall>m \<in> set (form_moves f a). fits (balances s) m"
  shows "\<exists>s' f' t oc. send E no_net key (map (listed_wallet \<circ> snd) (wallets s)) s f = (s', Some (f', Some t)) \<and>
    to_title t = js ''Posted to ledger'' \<and> shown_outcome f' = Some oc \<and> oc_badge oc = js ''Posted'' \<and>
    map (\<lambda>l. (el_owner l, el_delta l)) (oc_effects oc) =
      map (\<lambda>m. (JStr (w_owner (named s m)), money_text (snd m) (js ''USD'') True)) (form_moves f a) \<and>
    (if tf_pinned f then tf_key f' = tf_key f else tf_key f' \<noteq> key)"
  by (rule submission [OF assms]) (auto split: if_split)

theorem submission_shows_movement_witness:
  "\<exists>s' f' t oc. send demo_env no_net (idemKey demo_env 5) (map (listed_wallet \<circ> snd) (wallets demo)) demo demo_form =
       (s', Some (f', Some t)) \<and> to_title t = js ''Posted to ledger'' \<and> shown_outcome f' = Some oc \<and>
     map el_delta (oc_effects oc) = [money_text 1250 (js ''USD'') True] \<and> tf_key f' \<noteq> idemKey demo_env 5"
proof -
  have moves: "form_moves demo_form 1250 = [(wal 0, 1250)]" by (simp add: form_moves_def demo_form_def)
  then have fit: "\<forall>m \<in> set (form_moves demo_form 1250). fits (balances demo) m" by (simp add: fits_def seed_bank_def)
  have same: "\<not> same_error demo_form" and unpinned: "\<not> tf_pinned demo_form"
    by (simp_all add: same_error_def demo_form_def)
  obtain s' f' t oc where "send demo_env no_net (idemKey demo_env 5) (map (listed_wallet \<circ> snd) (wallets demo)) demo demo_form =
       (s', Some (f', Some t))" "to_title t = js ''Posted to ledger''" "shown_outcome f' = Some oc"
     and lines: "map (\<lambda>l. (el_owner l, el_delta l)) (oc_effects oc) =
       map (\<lambda>m. (JStr (w_owner (named demo m)), money_text (snd m) (js ''USD'') True)) (form_moves demo_form 1250)"
     and "tf_key f' \<noteq> idemKey demo_env 5"
    using submission_shows_movement [OF demo_ready demo_form_amount _ _ same refl _ _ fit, of 5] unpinned by auto
  moreover have "map el_delta (oc_effects oc) = map snd (map (\<lambda>l. (el_owner l, el_delta l)) (oc_effects oc))" by simp
  then have "map el_delta (oc_effects oc) = [money_text 1250 (js ''USD'') True]" unfolding lines by (simp add: moves)
  ultimately show ?thesis by (intro exI conjI)
qed

text \<open>
  C32: The ledger page adds up. Opened for a wallet of the engine in the page, its credits less its
  debits are the balance of the wallet, the equation shows this balance on both sides with the
  sign of identity, both checks are green, and the newest row ends with the balance (while the
  sums of the entries of either direction are at most \<open>2 ^ 53\<close>).
\<close>

theorem ledger_page_reconciles:
  assumes "wf_books s" and "map_get (wallets s) i = Some w" and "list_all is_word_char i"
    and "\<And>d. sum_list (in_direction d (wallet_entries i (entries s))) \<le> 2 ^ 53"
  shows "\<exists>s' pg'. visit_ledger E no_net (Some i) s pg = (s', Some pg') \<and> credits pg' - debits pg' = w_balance w \<and>
    rp_ledger (recon_panel tm pg') = dollars (w_balance w) \<and> rp_cached (recon_panel tm pg') = dollars (w_balance w) \<and>
    rp_op (recon_panel tm pg') = [0x2261] \<and>
    ck_tone (rp_balance_check (recon_panel tm pg')) = Green \<and> ck_tone (rp_chain_check (recon_panel tm pg')) = Green \<and>
    (lp_entries pg' \<noteq> [] \<longrightarrow> er_after (entry_row tm (hd (lp_entries pg'))) = dollars (w_balance w))"
proof (rule visit_panel [OF assms(1-3), of E pg tm])
  fix s' pg'
  assume v: "visit_ledger E no_net (Some i) s pg = (s', Some pg')"
    "lp_entries pg' = map shown_entry (rev (wallet_entries i (entries s)))"
    "rp_ledger (recon_panel tm pg') = dollars (w_balance w)" "rp_cached (recon_panel tm pg') = dollars (w_balance w)"
    "rp_op (recon_panel tm pg') = [0x2261]"
    "rp_balance_check (recon_panel tm pg') = \<lparr>ck_tone = Green, ck_cross = False, ck_label = js ''Balances reconcile''\<rparr>"
    "rp_chain_check (recon_panel tm pg') = \<lparr>ck_tone = Green, ck_cross = False, ck_label = js ''Hash chain intact''\<rparr>"
  have "credits pg' - debits pg' = w_balance w" by (rule page_balance [OF assms(1,2) v(2) assms(4)])
  moreover have "lp_entries pg' \<noteq> [] \<longrightarrow> er_after (entry_row tm (hd (lp_entries pg'))) = dollars (w_balance w)"
    using newest_after [OF assms(1,2), of tm] v(2) by simp
  ultimately show ?thesis using v by simp
qed

theorem ledger_page_reconciles_witness:
  "\<exists>s' pg'. visit_ledger demo_env no_net (Some (wal 0)) demo blank_page = (s', Some pg') \<and>
     credits pg' - debits pg' = 206750000 \<and> rp_op (recon_panel (\<lambda>v. []) pg') = [0x2261]"
proof -
  obtain w where w: "map_get (wallets demo) (wal 0) = Some w" "w_balance w = 206750000" by (rule demo_wallet)
  show ?thesis
    using ledger_page_reconciles [OF _ w(1) _ demo_sums, of demo_env blank_page "\<lambda>v. []"] w(2) by auto
qed



text \<open>
  C34: The overview of well-formed books of at most \<open>2 ^ 40\<close> minor units. The total it shows is the
  sum of the engine's balances; the segments of the legend are positive and add up to it, and the
  share shown for each is the nearest tenth of a percent, whatever the doubles in between round.
\<close>

theorem overview_adds_up:
  assumes "wf_books e" and "sum_list (map snd (balances e)) \<le> 2 ^ 40"
    and "st_wallets st = map (listed_wallet \<circ> snd) (wallets e)"
  shows "ov_total (overview st) = moneyParts (sum_list (map snd (balances e))) (js ''USD'') \<and>
    (\<exists>sgs. ov_legend (overview st) = map legend_line sgs \<and>
       sum_list (map sg_balance sgs) = sum_list (map snd (balances e)) \<and>
       (\<forall>sg \<in> set sgs. 0 < sg_balance sg \<and>
          2 * \<bar>sum_list (map snd (balances e)) * int (tenths_of (sg_pct sg)) - 1000 * sg_balance sg\<bar>
            \<le> sum_list (map snd (balances e))))"
  using overview_of_books [OF assms] by (auto simp: overview_def legend_def)

theorem overview_adds_up_witness:
  "ov_total (overview (initial_store []\<lparr>st_wallets := map (listed_wallet \<circ> snd) (wallets demo)\<rparr>)) =
    moneyParts 244254982 (js ''USD'')"
proof -
  have "sum_list (map snd (balances demo)) = 244254982" by (simp add: seed_bank_def)
  then show ?thesis using overview_adds_up [of demo "initial_store []\<lparr>st_wallets := map (listed_wallet \<circ> snd) (wallets demo)\<rparr>"] by simp
qed

text \<open>
  C35: After a request was sent from the console and answered, the trace that is shown is the one of
  this request: with method, path and body as the form gave them, and status, headers and body as
  the network answered or, when it cannot be reached, as the engine answers this very request on
  its current books. It stays so although the refresh after a POST records another request.
\<close>

theorem console_shows_exchange:
  assumes "fresh_ids E N" and "drawn (cp_engine (press_send E net parse pg)) \<le> N"
    and "cp_error (press_send E net parse pg) = None" and "\<not> cp_busy (press_send E net parse pg)"
  shows "\<exists>t extra se. shown_trace (press_send E net parse pg) = Some t \<and>
    tr_method t = cf_method (cp_form pg) \<and> tr_path t = console_path (cp_form pg) \<and>
    console_body parse (cp_form pg) = Inr (tr_request_body t) \<and>
    tr_request_headers t = request_headers (tr_request_body t) extra \<and>
    se = (cp_engine pg)\<lparr>drawn := drawn se, ticks := ticks se\<rparr> \<and>
    (case net 0 of
       Reply status rhs raw \<Rightarrow> tr_live t \<and> tr_status t = status \<and> tr_response_headers t = rhs \<and>
         normalize raw = Some (tr_response_body t)
     | Unreachable \<Rightarrow> \<not> tr_live t \<and>
         (\<exists>s' r. handle E (sim_request (tr_method t) (tr_path t) (tr_request_body t) (tr_request_headers t)) se =
            (s', Returned r) \<and> tr_status t = r_status r \<and> tr_response_headers t = r_headers r \<and>
            normalize (body_value (r_body r)) = Some (tr_response_body t)))"
proof -
  obtain body e R where sent: "console_body parse (cp_form pg) = Inr body"
      "console_send E (net 0) parse (cp_form pg) (cp_engine pg) = Inr (e, Some R)"
      "api_request E (net 0) (cf_method (cp_form pg)) (console_path (cp_form pg)) body
        (console_headers (cp_form pg)) (cp_engine pg) = (e, Some R)"
    using press_send_answered [OF assms(3,4)] .
  note shown = sent_shown [OF assms(1) sent(2) assms(2)]
  show ?thesis
    by (rule request_traced [OF sent(3)], intro exI conjI, rule shown) (use sent(1) in \<open>auto split: fetched.splits\<close>)
qed

theorem console_shows_exchange_witness:
  "\<exists>t. shown_trace (press_send demo_env no_net Inl demo_console) = Some t \<and>
     tr_method t = GET \<and> tr_path t = js ''/health'' \<and> \<not> tr_live t"
  using console_shows_exchange [OF fresh_demo_small, of no_net Inl demo_console] demo_console_sent
  by (auto simp: demo_console_def open_console_def console_path_def js_def)

section \<open>The frame\<close>

text \<open>
  C36: Navigation. The page, opened at the address hash \<open>#v\<close>, goes through any clicks, keys, palette
  and switcher actions and store events. Its top bar with the wallet switcher renders at the start
  and after each of them exactly if \<open>v\<close> is empty or one of the six views and, all the time, the
  owners that the bar shows or searches are texts (the selected wallet may have none). So any other
  hash is an exception at once, and a known hash keeps rendering as long as the answers list wallets
  with texts as owners, as the engine in the page does; which view is shown never matters.
\<close>

theorem navigation_safe:
  "(use_frame as (opened_at v) \<noteq> None \<longleftrightarrow>
     v \<in> {[], js ''overview'', js ''wallets'', js ''transact'', js ''ledger'', js ''lab'', js ''console''} \<and>
     (\<forall>i \<le> length as. owners_fit (fold act (take i as) (opened_at v)))) \<and>
   ((\<forall>a \<in> set as. brings_texts a) \<longrightarrow> (\<forall>i \<le> length as. owners_fit (fold act (take i as) (opened_at v))))"
proof -
  have "text_owners (opened_at v)" by (simp add: text_owners_def opened_at_def initial_store_def)
  then have "(\<forall>a \<in> set as. brings_texts a) \<longrightarrow> owners_fit (fold act (take i as) (opened_at v))" for i
    using texts_fit acts_texts [of "take i as"] by (meson in_set_takeD)
  moreover have "known_view (opened_at v) \<longleftrightarrow>
      v \<in> {[], js ''overview'', js ''wallets'', js ''transact'', js ''ledger'', js ''lab'', js ''console''}"
    by (auto simp: opened_at_known views_eq)
  ultimately show ?thesis using use_frame_known [of "opened_at v" as] use_frame_unknown [of "opened_at v" as]
    by (cases "known_view (opened_at v)") auto
qed

theorem navigation_safe_witness:
  "\<forall>r :: api_result. use_frame [ActStore (EvWallets (r\<lparr>a_ok := True, a_data := JObj [(js ''data'',
        JArr [JObj [(js ''owner'', JStr (js ''ada''))]])]\<rparr>)), ActSwitcher SwToggle] (opened_at (js ''ledger'')) \<noteq> None"
proof
  fix r :: api_result
  let ?as = "[ActStore (EvWallets (r\<lparr>a_ok := True, a_data := JObj [(js ''data'',
    JArr [JObj [(js ''owner'', JStr (js ''ada''))]])]\<rparr>)), ActSwitcher SwToggle]"
  have "\<forall>a \<in> set ?as. brings_texts a" by (simp add: lists_texts_def wallet_owner_def is_text_def)
  then show "use_frame ?as (opened_at (js ''ledger'')) \<noteq> None"
    using navigation_safe [of ?as "js ''ledger''"] by blast
qed

text \<open>
  C37: The JSON view shows the text it is given and nothing else: without the tags of the
  highlighter, and with the two entities read, the HTML is the text of the value, and no other tag
  is in it, so no value can bring markup into the page.
\<close>

theorem json_view_inert:
  "unescape_html (strip_tags False (json_html v)) = json_text v \<and> set (tags None (json_html v)) \<subseteq> own_tags"
  using view_text view_tags by simp

section \<open>The Systems Lab\<close>

text \<open>
  C38: The overdraft experiment passes. The withdrawal of one cent more than the balance is
  rejected, writes no entry, and the wallet reconciles before and after. (The engine is sound, and
  it has the fixture of an earlier experiment or room below \<open>2 ^ 53\<close> to pay for one: \<open>usable\<close>.)
\<close>

theorem lab_overdraft_passes:
  assumes "ready E N n 23 e" and "usable fx e"
  shows "lr_state (lab_result_of (run_experiment E no_net tag rnd k sched ms Overdraft fx e)) = Pass"
proof (rule run_passes [where m = 6, OF _ assms(2)])
  fix f a tot y
  assume st: "staged E N tot n 6 f a y" "100000 \<le> a" "tot < 2 ^ 53"
  then show "\<exists>cs z. chosen_experiment E no_net rnd k sched ms Overdraft f y = (Inr cs, z) \<and> list_all as_pass cs"
    using overdraft_ok [of E N tot n 0 f a y] by (fastforce simp: chosen_experiment_def)
qed (use assms(1) in simp)

theorem lab_overdraft_passes_witness:
  "lr_state (lab_result_of (run_experiment demo_env no_net (js ''q7xk'') 0 10 [] 1 Overdraft None demo)) = Pass"
  by (rule lab_overdraft_passes [OF demo_ready]) (simp_all add: usable_def spare_def)

text \<open>
  C39: The concurrent batch passes. Whatever the schedule of its transfers, if they are all
  answered then the six assertions hold: no error but refusals for lack of funds, the value of
  the two wallets together unchanged and neither negative, the change of the first wallet
  exactly the sum of the accepted transfers, both wallets reconciled. And there is a schedule
  that answers them all. (The engine is sound and the fixture \<open>usable\<close>, as in C38.)
\<close>

theorem lab_batch_passes:
  assumes "ready E N n (6 * k + 23) e" and "usable fx e" and "unit_random E" and "k \<le> 2 ^ 30"
  shows "(\<forall>sched. lr_state (lab_result_of (run_experiment E no_net tag rnd k sched ms Concurrency fx e)) = Pass \<or>
      lr_error (lab_result_of (run_experiment E no_net tag rnd k sched ms Concurrency fx e)) = Some (js ''unfinished'')) \<and>
    (\<exists>sched. lr_state (lab_result_of (run_experiment E no_net tag rnd k sched ms Concurrency fx e)) = Pass)"
proof -
  have r: "ready E N n (0 + (6 * k + 6) + 17) e" using assms(1) by (simp add: add.assoc)
  show ?thesis
  proof (rule prepared [OF r assms(2) [unfolded usable_def One_nat_def]])
    fix f a tot y
    assume y: "\<And>rnd k sched ms x. run_experiment E no_net tag rnd k sched ms x fx e =
        chosen_experiment E no_net rnd k sched ms x f y" "staged E N tot n (0 + (6 * k + 6)) f a y" "tot < 2 ^ 53 - int 0 * 150000"
    have tot: "tot < 2 ^ 53" using y(3) by simp
    have run_eq: "run_experiment E no_net tag rnd k sched ms Concurrency fx e = batch_experiment E no_net rnd k sched ms f y"
      for sched by (simp add: y(1) chosen_experiment_def)
    show ?thesis
    proof (rule batch_ok [OF y(2) tot assms(3,4)])
      fix s qs
      assume typed: "\<forall>q \<in> set qs. typed q"
        and run: "\<And>sched. (\<exists>cs a' z. batch_experiment E no_net rnd k sched ms f y = (Inr cs, z) \<and> list_all as_pass cs \<and>
          staged E N tot n 0 f a' z) \<or>
        \<not> finishes E sched s qs \<and> (\<exists>z. batch_experiment E no_net rnd k sched ms f y = (Inl (js ''unfinished''), z))"
      obtain sched where "finishes E sched s qs" using some_finishes [OF typed] by blast
      then have "lr_state (lab_result_of (batch_experiment E no_net rnd k sched ms f y)) = Pass"
        using run [of sched] by (auto simp: lab_result_of_def)
      moreover have "lr_state (lab_result_of (batch_experiment E no_net rnd k sched ms f y)) = Pass \<or>
          lr_error (lab_result_of (batch_experiment E no_net rnd k sched ms f y)) = Some (js ''unfinished'')" for sched
        using run [of sched] by (auto simp: lab_result_of_def)
      ultimately show ?thesis unfolding run_eq by blast
    qed
  qed
qed

theorem lab_batch_passes_witness:
  "\<exists>sched. lr_state (lab_result_of (run_experiment demo_env no_net (js ''q7xk'') 0 50 sched 1 Concurrency None demo)) = Pass"
  using lab_batch_passes [OF demo_ready, where k = 50 and fx = None] demo_random by (simp add: usable_def spare_def)

text \<open>
  C40: All guarantees are verified. Run all experiments in one session, on a sound engine, with any
  random names, numbers and schedule: if the batch is answered (and there is a schedule that
  answers it), all four verdicts are \<open>pass\<close>, the toast says \<open>4 of 4 guarantees verified\<close>, and the
  scoreboard is green: each experiment leaves the engine and the fixture fit for the next one.
\<close>

theorem all_guarantees_verified:
  assumes "ready E N n (6 * k + 102) e" and "unit_random E" and "k \<le> 2 ^ 30"
  shows "(\<forall>io. verified (run_all E no_net k io (blank_lab e)) \<or>
      lr_error (lb_results (snd (run_all E no_net k io (blank_lab e))) Concurrency) = Some (js ''unfinished'')) \<and>
    (\<forall>io. \<exists>sched out. out = run_all E no_net k (io(Concurrency := (io Concurrency)\<lparr>in_sched := sched\<rparr>)) (blank_lab e) \<and>
      verified out \<and> sc_passed (scoreboard (snd out)) = 4 \<and> sc_tone (scoreboard (snd out)) = ScoreGreen)"
proof -
  have f: "fit E N n (6 * k + 102) 4 (blank_lab e)" using assms(1) by (simp add: fit_def blank_lab_def spare_def)
  have "sc_total pg = 4" if "pg = scoreboard q" for pg q using that by (simp add: scoreboard_def EXPS_def Let_def)
  then show ?thesis
    using run_all_ok [OF f assms(2,3)] verified_scoreboard by metis
qed

theorem all_guarantees_verified_witness:
  "\<exists>io. to_title (fst (run_all demo_env no_net 25 io (blank_lab demo))) = js ''4 of 4 guarantees verified''"
  using all_guarantees_verified [OF demo_ready demo_random, where k = 25] by (fastforce simp: verified_def)

end
